(* ===== verification/Prelude.thy ===== *)
theory Prelude
  imports Main "HOL-Library.Word"
begin

text \<open>
  What every component shares: names for Go's basic types, Go's two's complement
  arithmetic on 64-bit integers, message headers (a Go map read with the zero value for a
  missing key), fallible computations as values of a sum type, and the generic lemmas and
  theorem collections the component proofs rest on.
\<close>

section \<open>Go's basic types\<close>

text \<open>
  A Go \<open>string\<close> and a Go \<open>[]byte\<close> are both sequences of bytes; a \<open>char\<close> is one byte.
\<close>

type_synonym bytes = string

text \<open>A nil-able pointer \<open>*T\<close> to data that nobody mutates is an option.\<close>

type_synonym 'a ptr = "'a option"

text \<open>
  Go's \<open>int\<close> and \<open>int64\<close> are 64 bits wide and wrap around. Values that are only carried are
  \<open>int\<close>; arithmetic on them goes through \<open>wrap64\<close>.
\<close>

definition min64 :: int where
  "min64 = - (2 ^ 63)"

definition max64 :: int where
  "max64 = 2 ^ 63 - 1"

definition wrap64 :: "int \<Rightarrow> int" where
  "wrap64 x = (x + 2 ^ 63) mod 2 ^ 64 - 2 ^ 63"

definition in64 :: "int \<Rightarrow> bool" where
  "in64 x \<longleftrightarrow> min64 \<le> x \<and> x \<le> max64"

lemma wrap64_id [simp]: "in64 x \<Longrightarrow> wrap64 x = x"
  by (simp add: wrap64_def in64_def min64_def max64_def)

lemma in64_wrap64 [simp]: "in64 (wrap64 x)"
proof -
  have "0 \<le> (x + 2 ^ 63) mod 2 ^ 64" and "(x + 2 ^ 63) mod 2 ^ 64 < (2::int) ^ 64"
    by simp_all
  then show ?thesis by (simp add: wrap64_def in64_def min64_def max64_def)
qed

lemma wrap64_sint: "wrap64 x = sint (word_of_int x :: 64 word)"
  by (simp add: wrap64_def sint_sbintrunc' signed_take_bit_eq_take_bit_shift
      take_bit_eq_mod) 

section \<open>Fallible computations\<close>

text \<open>
  A Go function returning \<open>(T, error)\<close> returns \<open>Inl e\<close> for an error and \<open>Inr v\<close> for a
  result. \<open>res_bind\<close> is the early return \<open>if err != nil { return err }\<close>.
\<close>

definition res_bind :: "'e + 'a \<Rightarrow> ('a \<Rightarrow> 'e + 'b) \<Rightarrow> 'e + 'b" where
  "res_bind r f = (case r of Inl e \<Rightarrow> Inl e | Inr x \<Rightarrow> f x)"

definition is_ok :: "'e + 'a \<Rightarrow> bool" where
  "is_ok r = (case r of Inl _ \<Rightarrow> False | Inr _ \<Rightarrow> True)"

named_theorems go_simps \<open>evaluation rules of the sequencing combinators\<close>

lemma res_bind_simps [simp, go_simps]:
  "res_bind (Inl e) f = Inl e"
  "res_bind (Inr x) f = f x"
  by (simp_all add: res_bind_def)

lemma is_ok_simps [simp, go_simps]:
  "is_ok (Inl e) = False"
  "is_ok (Inr x) = True"
  by (simp_all add: is_ok_def)

lemma res_bind_Inr_iff:
  "res_bind r f = Inr y \<longleftrightarrow> (\<exists>x. r = Inr x \<and> f x = Inr y)"
  by (cases r) auto

section \<open>Effects\<close>

text \<open>
  A computation reads an environment of type \<open>'r\<close> (what the outside world answers), threads
  a state of type \<open>'s\<close> and returns or fails with an \<open>'e\<close>. A failure keeps the state reached
  so far; what becomes of it is decided by whoever runs the computation.
\<close>

type_synonym ('r, 's, 'e, 'a) eff = "'r \<Rightarrow> 's \<Rightarrow> ('e + 'a) \<times> 's"

definition eff_return :: "'a \<Rightarrow> ('r, 's, 'e, 'a) eff" where
  "eff_return x env s = (Inr x, s)"

definition eff_fail :: "'e \<Rightarrow> ('r, 's, 'e, 'a) eff" where
  "eff_fail e env s = (Inl e, s)"

definition eff_bind :: "('r, 's, 'e, 'a) eff \<Rightarrow> ('a \<Rightarrow> ('r, 's, 'e, 'b) eff) \<Rightarrow> ('r, 's, 'e, 'b) eff" where
  "eff_bind m f env s = (case m env s of (Inl e, s') \<Rightarrow> (Inl e, s') | (Inr x, s') \<Rightarrow> f x env s')"

definition eff_ask :: "('r \<Rightarrow> 'a) \<Rightarrow> ('r, 's, 'e, 'a) eff" where
  "eff_ask f env s = (Inr (f env), s)"

lemmas eff_defs = eff_return_def eff_fail_def eff_bind_def eff_ask_def

lemma eff_bind_return [simp]: "eff_bind (eff_return x) f = f x"
  by (intro ext) (simp add: eff_bind_def eff_return_def)

lemma eff_bind_fail [simp]: "eff_bind (eff_fail e) f = eff_fail e"
  by (intro ext) (simp add: eff_bind_def eff_fail_def)

lemma eff_bind_Inr:
  assumes "eff_bind m f env s = (Inr y, s'')"
  obtains x s' where "m env s = (Inr x, s')" "f x env s' = (Inr y, s'')"
  using assms by (cases "m env s"; cases "fst (m env s)") (auto simp: eff_bind_def)

section \<open>String-keyed maps\<close>

text \<open>
  \<open>map[string]string\<close>: reading a key that is absent gives the empty string.
\<close>

type_synonym headers = "string \<rightharpoonup> string"

definition hget :: "headers \<Rightarrow> string \<Rightarrow> string" where
  "hget h k = (case h k of None \<Rightarrow> [] | Some v \<Rightarrow> v)"

lemma hget_upd [simp]:
  "hget (h(k \<mapsto> v)) k = v"
  "k' \<noteq> k \<Longrightarrow> hget (h(k \<mapsto> v)) k' = hget h k'"
  by (simp_all add: hget_def)

lemma hget_empty [simp]: "hget Map.empty k = []"
  by (simp add: hget_def)

section \<open>Generic lemmas\<close>

lemma takeWhile_dropWhile_length:
  "length (takeWhile P xs) + length (dropWhile P xs) = length xs"
  by (metis length_append takeWhile_dropWhile_id)

lemma distinct_map_filterI: "distinct (map f xs) \<Longrightarrow> distinct (map f (filter P xs))"
  by (rule distinct_map_filter)

end
