(* ===== verification/GoText.thy ===== *)
theory GoText
  imports Prelude
begin

text \<open>
  What the services use of Go's \<open>strings\<close>, \<open>strconv\<close> and \<open>encoding/hex\<close>: prefixes and
  suffixes, splitting and cutting, case and space, decimal integers and hexadecimal bytes.
  Strings are byte sequences, as in Go. \<open>to_lower\<close> folds the ASCII
  letters (Go's \<open>strings.ToLower\<close> also folds the other letters of Unicode; the values the
  services compare after it are ASCII).
\<close>

section \<open>Bytes\<close>

definition byte :: "char \<Rightarrow> nat" where
  "byte c = of_char c"

definition is_digit :: "char \<Rightarrow> bool" where
  "is_digit c \<longleftrightarrow> 48 \<le> byte c \<and> byte c \<le> 57"

definition digit_val :: "char \<Rightarrow> nat" where
  "digit_val c = byte c - 48"

definition digit_char :: "nat \<Rightarrow> char" where
  "digit_char d = char_of (48 + d)"

lemma byte_less [simp]: "byte c < 256"
  by (simp add: byte_def)

lemma byte_inject [simp]: "byte c = byte d \<longleftrightarrow> c = d"
  by (simp add: byte_def)

lemma byte_char_of [simp]: "n < 256 \<Longrightarrow> byte (char_of n) = n"
  by (simp add: byte_def of_char_of)

lemma char_of_byte [simp]: "char_of (byte c) = c"
  by (simp add: byte_def)

lemma digit_char [simp]:
  "d < 10 \<Longrightarrow> is_digit (digit_char d)"
  "d < 10 \<Longrightarrow> digit_val (digit_char d) = d"
  by (simp_all add: is_digit_def digit_val_def digit_char_def)

section \<open>Package strings\<close>

definition has_prefix :: "string \<Rightarrow> string \<Rightarrow> bool" where
  "has_prefix s p \<longleftrightarrow> take (length p) s = p"

definition trim_prefix :: "string \<Rightarrow> string \<Rightarrow> string" where
  "trim_prefix s p = (if has_prefix s p then drop (length p) s else s)"

definition has_suffix :: "string \<Rightarrow> string \<Rightarrow> bool" where
  "has_suffix s p \<longleftrightarrow> length p \<le> length s \<and> drop (length s - length p) s = p"

lemma has_prefix_append [simp]: "has_prefix (p @ s) p"
  by (simp add: has_prefix_def)

lemma trim_prefix_append [simp]: "trim_prefix (p @ s) p = s"
  by (simp add: trim_prefix_def)

lemma has_prefix_conv: "has_prefix s p \<longleftrightarrow> (\<exists>r. s = p @ r)"
  by (metis append_take_drop_id has_prefix_append has_prefix_def)

lemma has_suffix_append [simp]: "has_suffix (s @ p) p"
  by (simp add: has_suffix_def)

definition lower_byte :: "char \<Rightarrow> char" where
  "lower_byte c = (if 65 \<le> byte c \<and> byte c \<le> 90 then char_of (byte c + 32) else c)"

definition to_lower :: "string \<Rightarrow> string" where
  "to_lower = map lower_byte"

text \<open>
  How \<open>encoding/json\<close> folds a member's name before it looks for a field: beside the ASCII
  letters, the two other runes that fold to one, U+017F (to s) and U+212A (to k).
\<close>

fun fold_name :: "string \<Rightarrow> string" where
  "fold_name [] = []"
| "fold_name (c # s) =
     (if byte c = 197 \<and> map byte (take 1 s) = [191] then CHR ''s'' # fold_name (drop 1 s)
      else if byte c = 226 \<and> map byte (take 2 s) = [132, 170] then CHR ''k'' # fold_name (drop 2 s)
      else lower_byte c # fold_name s)"

declare fold_name.simps [simp del]

lemma lower_byte_idem [simp]: "lower_byte (lower_byte c) = lower_byte c"
  by (simp add: lower_byte_def)

lemma to_lower_idem [simp]: "to_lower (to_lower s) = to_lower s"
  by (simp add: to_lower_def)

text \<open>\<open>strings.Cut\<close> at a one-byte separator.\<close>

definition cut :: "string \<Rightarrow> char \<Rightarrow> string \<times> string \<times> bool" where
  "cut s c = (if c \<in> set s then (takeWhile (\<lambda>x. x \<noteq> c) s, tl (dropWhile (\<lambda>x. x \<noteq> c) s), True)
              else (s, [], False))"

lemma cut_append: "c \<notin> set a \<Longrightarrow> cut (a @ c # b) c = (a, b, True)"
  by (subst cut_def, subst takeWhile_append2, fastforce, subst dropWhile_append2, fastforce) simp

text \<open>\<open>strings.Split\<close> at a one-byte separator: always at least one part.\<close>

fun split_on :: "char \<Rightarrow> string \<Rightarrow> string list" where
  "split_on c [] = [[]]"
| "split_on c (x # xs) =
     (if x = c then [] # split_on c xs
      else (case split_on c xs of [] \<Rightarrow> [[x]] | p # ps \<Rightarrow> (x # p) # ps))"

lemma split_on_nonempty [simp]: "split_on c s \<noteq> []"
  by (induction s) (auto split: list.splits)

lemma length_split_on: "length (split_on c s) = Suc (count_list s c)"
  by (induction s) (auto split: list.splits)

lemma split_on_free: "p \<in> set (split_on c s) \<Longrightarrow> c \<notin> set p"
  by (induction s arbitrary: p) (auto split: list.splits if_splits)

lemma split_on_free_self: "c \<notin> set s \<Longrightarrow> split_on c s = [s]"
  by (induction s) auto

lemma split_on_append: "c \<notin> set a \<Longrightarrow> split_on c (a @ c # b) = a # split_on c b"
  by (induction a) auto

text \<open>
  \<open>strings.TrimSpace\<close>: the white space of Unicode, each rune in its UTF-8 bytes, is cut from
  both ends.
\<close>

definition space_runes :: "nat list list" where
  "space_runes =
     [[9], [10], [11], [12], [13], [32], [194, 133], [194, 160], [225, 154, 128], [226, 128, 168], [226, 128, 169],
      [226, 128, 175], [226, 129, 159], [227, 128, 128]] @ map (\<lambda>n. [226, 128, 128 + n]) [0..<11]"

definition space_len :: "nat list \<Rightarrow> nat" where
  "space_len bs = (case find (\<lambda>r. take (length r) bs = r) space_runes of None \<Rightarrow> 0 | Some r \<Rightarrow> length r)"

definition rspace_len :: "nat list \<Rightarrow> nat" where
  "rspace_len bs = (case find (\<lambda>r. take (length r) bs = rev r) space_runes of None \<Rightarrow> 0 | Some r \<Rightarrow> length r)"

function trim_with :: "(nat list \<Rightarrow> nat) \<Rightarrow> string \<Rightarrow> string" where
  "trim_with len s =
     (let n = len (map byte s) in if n = 0 \<or> s = [] then s else trim_with len (drop n s))"
  by pat_completeness auto
termination
  by (relation "measure (\<lambda>(_, s). length s)") auto

declare trim_with.simps [simp del]

definition trim_space :: "string \<Rightarrow> string" where
  "trim_space s = rev (trim_with rspace_len (rev (trim_with space_len s)))"

lemma trim_with_fixed: "len (map byte s) = 0 \<Longrightarrow> trim_with len s = s"
  using trim_with.simps [of len s] by simp

lemma trim_with_end: "trim_with len s = [] \<or> len (map byte (trim_with len s)) = 0"
proof (induction len s rule: trim_with.induct)
  case (1 len s)
  then show ?case using trim_with.simps [of len s] by (cases "len (map byte s) = 0 \<or> s = []") (auto simp: Let_def)
qed

section \<open>Package strconv\<close>

text \<open>The value of a string of decimal digits, \<open>None\<close> when it is empty or holds another byte.\<close>

definition dec_val :: "string \<Rightarrow> int option" where
  "dec_val s = (if s \<noteq> [] \<and> list_all is_digit s
                then Some (foldl (\<lambda>n c. 10 * n + int (digit_val c)) 0 s) else None)"

text \<open>
  \<open>strconv.Atoi\<close> and \<open>strconv.ParseInt(s, 10, 64)\<close>: an optional sign, digits, and a range
  check.
\<close>

definition parse_int :: "string \<Rightarrow> int option" where
  "parse_int s =
     (let neg = has_prefix s ''-'';
          body = (if neg \<or> has_prefix s ''+'' then tl s else s)
      in case dec_val body of
           None \<Rightarrow> None
         | Some n \<Rightarrow> let x = (if neg then - n else n)
                     in if in64 x then Some x else None)"

lemma parse_int_in64: "parse_int s = Some x \<Longrightarrow> in64 x"
  by (auto simp: parse_int_def Let_def split: option.splits if_splits)

text \<open>Decimal rendering, as \<open>%d\<close> and \<open>json.Marshal\<close> write an integer.\<close>

function show_dec :: "int \<Rightarrow> string" where
  "show_dec n = (if n < 10 then [digit_char (nat n)] else show_dec (n div 10) @ [digit_char (nat (n mod 10))])"
  by pat_completeness auto
termination
  by (relation "measure nat") auto

declare show_dec.simps [simp del]

definition show_int :: "int \<Rightarrow> string" where
  "show_int x = (if x < 0 then ''-'' @ show_dec (- x) else show_dec x)"

lemma show_dec_nonempty [simp]: "show_dec n \<noteq> []"
  by (subst show_dec.simps) simp

lemma nat_mod10: "nat (n mod 10) < 10"
  by linarith

lemma show_dec_digits: "0 \<le> n \<Longrightarrow> list_all is_digit (show_dec n)"
proof (induction n rule: show_dec.induct)
  case (1 n)
  then show ?case by (subst show_dec.simps) (auto simp: nat_mod10)
qed

lemma foldl_show_dec: "0 \<le> n \<Longrightarrow> foldl (\<lambda>n c. 10 * n + int (digit_val c)) 0 (show_dec n) = n"
proof (induction n rule: show_dec.induct)
  case (1 n)
  then show ?case by (subst show_dec.simps) (auto simp: nat_mod10)
qed

lemma dec_val_show_dec [simp]: "0 \<le> n \<Longrightarrow> dec_val (show_dec n) = Some n"
  by (simp add: dec_val_def show_dec_digits foldl_show_dec)

lemma hd_show_dec: "0 \<le> n \<Longrightarrow> is_digit (hd (show_dec n))"
  using show_dec_digits [of n] by (cases "show_dec n") auto

lemma show_dec_unsigned [simp]:
  "0 \<le> n \<Longrightarrow> \<not> has_prefix (show_dec n) ''-''" "0 \<le> n \<Longrightarrow> \<not> has_prefix (show_dec n) ''+''"
  using hd_show_dec [of n]
  by (cases "show_dec n"; auto simp: has_prefix_def is_digit_def byte_def)+

lemma parse_int_show_int: "in64 x \<Longrightarrow> parse_int (show_int x) = Some x"
  by (cases "x < 0") (simp_all add: parse_int_def show_int_def Let_def has_prefix_def [of "_ # _"])

lemma show_int_inject: "in64 x \<Longrightarrow> in64 y \<Longrightarrow> show_int x = show_int y \<Longrightarrow> x = y"
  by (metis option.inject parse_int_show_int)

section \<open>Package encoding/hex\<close>

definition hex_val :: "char \<Rightarrow> nat option" where
  "hex_val c =
     (let b = byte c in
      if 48 \<le> b \<and> b \<le> 57 then Some (b - 48)
      else if 97 \<le> b \<and> b \<le> 102 then Some (b - 87)
      else if 65 \<le> b \<and> b \<le> 70 then Some (b - 55)
      else None)"

text \<open>\<open>hex.DecodeString\<close>: an odd length or a byte that is no hex digit is an error.\<close>

fun hex_decode :: "string \<Rightarrow> bytes option" where
  "hex_decode [] = Some []"
| "hex_decode [_] = None"
| "hex_decode (a # b # s) =
     (case (hex_val a, hex_val b) of
        (Some h, Some l) \<Rightarrow> map_option (\<lambda>r. char_of (16 * h + l) # r) (hex_decode s)
      | _ \<Rightarrow> None)"

definition hex_digit :: "nat \<Rightarrow> char" where
  "hex_digit d = (if d < 10 then char_of (48 + d) else char_of (87 + d))"

definition hex_encode :: "bytes \<Rightarrow> string" where
  "hex_encode = concat \<circ> map (\<lambda>c. [hex_digit (byte c div 16), hex_digit (byte c mod 16)])"

lemma hex_val_digit [simp]: "d < 16 \<Longrightarrow> hex_val (hex_digit d) = Some d"
  by (simp add: hex_val_def hex_digit_def Let_def)

lemma hex_decode_encode [simp]: "hex_decode (hex_encode s) = Some s"
proof (induction s)
  case Nil
  then show ?case by (simp add: hex_encode_def)
next
  case (Cons c s)
  have "byte c div 16 < 16" using byte_less [of c] by linarith
  then show ?case using Cons by (simp add: hex_encode_def)
qed

lemma hex_encode_inject [simp]: "hex_encode s = hex_encode t \<longleftrightarrow> s = t"
  by (metis hex_decode_encode option.inject)

end
