(* ===== verification/GoTime.thy ===== *)
theory GoTime
  imports GoText
begin

text \<open>
  What the services use of Go's package \<open>time\<close>. A \<open>time.Time\<close> is an instant, counted in
  nanoseconds from the zero time (0001-01-01T00:00:00Z), and the offset of its zone in
  seconds; only printing looks at the zone. A \<open>time.Duration\<close> is a number of nanoseconds.
\<close>

section \<open>Instants\<close>

datatype gtime = GTime (inst: int) (zone: int)

definition zero_time :: gtime where
  "zero_time = GTime 0 0"

definition is_zero :: "gtime \<Rightarrow> bool" where
  "is_zero t \<longleftrightarrow> inst t = 0"

definition before :: "gtime \<Rightarrow> gtime \<Rightarrow> bool" where
  "before t u \<longleftrightarrow> inst t < inst u"

definition after :: "gtime \<Rightarrow> gtime \<Rightarrow> bool" where
  "after t u \<longleftrightarrow> inst u < inst t"

definition time_add :: "gtime \<Rightarrow> int \<Rightarrow> gtime" where
  "time_add t d = GTime (inst t + d) (zone t)"

text \<open>\<open>t.Sub(u)\<close> saturates at the ends of the 64-bit range.\<close>

definition time_sub :: "gtime \<Rightarrow> gtime \<Rightarrow> int" where
  "time_sub t u = max min64 (min max64 (inst t - inst u))"

definition nanos :: int where
  "nanos = 1000000000"

definition unix_epoch_sec :: int where
  "unix_epoch_sec = 62135596800"

text \<open>
  \<open>time.Unix(s, 0)\<close> and \<open>t.Unix()\<close>: a Time keeps its seconds in 64 bits, so both wrap.
\<close>

definition time_unix :: "int \<Rightarrow> gtime" where
  "time_unix s = GTime (wrap64 (s + unix_epoch_sec) * nanos) 0"

definition unix_of :: "gtime \<Rightarrow> int" where
  "unix_of t = wrap64 (inst t div nanos - unix_epoch_sec)"

definition to_utc :: "gtime \<Rightarrow> gtime" where
  "to_utc t = GTime (inst t) 0"

lemma is_zero_zero [simp]: "is_zero zero_time"
  by (simp add: is_zero_def zero_time_def)

lemma is_zero_to_utc [simp]: "is_zero (to_utc t) = is_zero t"
  by (simp add: is_zero_def to_utc_def)

lemma unix_of_time_unix [simp]:
  "in64 s \<Longrightarrow> in64 (s + unix_epoch_sec) \<Longrightarrow> unix_of (time_unix s) = s"
  by (simp add: unix_of_def time_unix_def nanos_def)

lemma in64_time_sub [simp]: "in64 (time_sub t u)"
  by (auto simp: time_sub_def in64_def min64_def max64_def)

section \<open>The calendar\<close>

definition is_leap :: "int \<Rightarrow> bool" where
  "is_leap y \<longleftrightarrow> y mod 4 = 0 \<and> (y mod 100 \<noteq> 0 \<or> y mod 400 = 0)"

definition days_in :: "int \<Rightarrow> nat \<Rightarrow> int" where
  "days_in y m = (if m = 2 then (if is_leap y then 29 else 28)
                  else if m \<in> {4, 6, 9, 11} then 30 else 31)"

text \<open>Days from 0001-01-01 to the first day of year \<open>y\<close>.\<close>

definition days_before_year :: "int \<Rightarrow> int" where
  "days_before_year y =
     (let p = y - 1 in 365 * p + p div 4 - p div 100 + p div 400)"

fun days_before_month :: "int \<Rightarrow> nat \<Rightarrow> int" where
  "days_before_month y 0 = 0"
| "days_before_month y (Suc 0) = 0"
| "days_before_month y (Suc (Suc m)) = days_before_month y (Suc m) + days_in y (Suc m)"

definition days_of_date :: "int \<Rightarrow> nat \<Rightarrow> int \<Rightarrow> int" where
  "days_of_date y m d = days_before_year y + days_before_month y m + (d - 1)"

text \<open>
  From a day number back to the year (400-, 100-, 4- and 1-year cycles) and to the month
  and day.
\<close>

definition year_of_days :: "int \<Rightarrow> int" where
  "year_of_days n =
     (let q400 = n div 146097; r400 = n mod 146097;
          q100 = min 3 (r400 div 36524); r100 = r400 - 36524 * q100;
          q4 = r100 div 1461; r4 = r100 mod 1461;
          q1 = min 3 (r4 div 365)
      in 400 * q400 + 100 * q100 + 4 * q4 + q1 + 1)"

fun month_day :: "nat \<Rightarrow> int \<Rightarrow> nat \<Rightarrow> int \<Rightarrow> nat \<times> int" where
  "month_day 0 y m d = (m, d + 1)"
| "month_day (Suc k) y m d =
     (if d < days_in y m then (m, d + 1) else month_day k y (Suc m) (d - days_in y m))"

definition date_of_days :: "int \<Rightarrow> int \<times> nat \<times> int" where
  "date_of_days n =
     (let y = year_of_days n; (m, d) = month_day 11 y 1 (n - days_before_year y) in (y, m, d))"

section \<open>RFC 3339\<close>

text \<open>A number written with exactly the digits of \<open>s\<close>, within bounds.\<close>

definition parse_uint :: "string \<Rightarrow> int \<Rightarrow> int \<Rightarrow> int option" where
  "parse_uint s lo hi =
     (case dec_val s of None \<Rightarrow> None | Some n \<Rightarrow> if lo \<le> n \<and> n \<le> hi then Some n else None)"

definition at :: "string \<Rightarrow> nat \<Rightarrow> char \<Rightarrow> bool" where
  "at s i c \<longleftrightarrow> i < length s \<and> s ! i = c"

definition sub :: "string \<Rightarrow> nat \<Rightarrow> nat \<Rightarrow> string" where
  "sub s i n = take n (drop i s)"

text \<open>The first nine digits of a fraction, as nanoseconds.\<close>

definition frac_nanos :: "string \<Rightarrow> int" where
  "frac_nanos ds = (let k = take 9 ds in the (dec_val k) * 10 ^ (9 - length k))"

definition parse_zone :: "string \<Rightarrow> int option" where
  "parse_zone s =
     (if s = ''Z'' then Some 0
      else if length s \<noteq> 6 \<or> \<not> (at s 0 CHR ''-'' \<or> at s 0 CHR ''+'') \<or> \<not> at s 3 CHR '':'' then None
      else case (parse_uint (sub s 1 2) 0 23, parse_uint (sub s 4 2) 0 59) of
             (Some h, Some m) \<Rightarrow>
               (let off = (h * 60 + m) * 60 in Some (if at s 0 CHR ''-'' then - off else off))
           | _ \<Rightarrow> None)"

text \<open>
  The strict parser \<open>Time.UnmarshalJSON\<close> uses, on the bytes between the quotes.
\<close>

definition parse_rfc3339 :: "string \<Rightarrow> gtime option" where
  "parse_rfc3339 s =
     (if length s < 19 \<or> \<not> (at s 4 CHR ''-'' \<and> at s 7 CHR ''-'' \<and> at s 10 CHR ''T''
                          \<and> at s 13 CHR '':'' \<and> at s 16 CHR '':'') then None
      else
        case (parse_uint (sub s 0 4) 0 9999, parse_uint (sub s 5 2) 1 12) of
          (Some y, Some mo) \<Rightarrow>
            (case (parse_uint (sub s 8 2) 1 (days_in y (nat mo)), parse_uint (sub s 11 2) 0 23,
                   parse_uint (sub s 14 2) 0 59, parse_uint (sub s 17 2) 0 59) of
               (Some d, Some h, Some mi, Some se) \<Rightarrow>
                 (let r = drop 19 s;
                      fr = 2 \<le> length r \<and> at r 0 CHR ''.'' \<and> is_digit (r ! 1);
                      ns = (if fr then frac_nanos (takeWhile is_digit (tl r)) else 0);
                      z = (if fr then dropWhile is_digit (tl r) else r)
                  in case parse_zone z of
                       None \<Rightarrow> None
                     | Some off \<Rightarrow>
                         Some (GTime (((days_of_date y (nat mo) d * 24 + h) * 3600
                                        + mi * 60 + se - off) * nanos + ns) off))
             | _ \<Rightarrow> None)
        | _ \<Rightarrow> None)"

text \<open>Rendering: a number padded with zeros to a width, the sign before the zeros.\<close>

definition pad :: "nat \<Rightarrow> int \<Rightarrow> string" where
  "pad w n =
     (let u = show_dec \<bar>n\<bar>
      in (if n < 0 then ''-'' else []) @ replicate (w - length u) (CHR ''0'') @ u)"

definition show_zone :: "int \<Rightarrow> string" where
  "show_zone off =
     (if off = 0 then ''Z''
      else let a = \<bar>off\<bar> div 60
           in (if off < 0 then ''-'' else ''+'') @ pad 2 (a div 60) @ '':'' @ pad 2 (a mod 60))"

text \<open>The year a time shows in its own zone.\<close>

definition local_days :: "gtime \<Rightarrow> int" where
  "local_days t = (inst t + zone t * nanos) div (86400 * nanos)"

definition show_date :: "gtime \<Rightarrow> string" where
  "show_date t =
     (case date_of_days (local_days t) of
        (y, m, d) \<Rightarrow> pad 4 y @ ''-'' @ pad 2 (int m) @ ''-'' @ pad 2 d)"

definition show_clock :: "gtime \<Rightarrow> string" where
  "show_clock t =
     (let s = ((inst t + zone t * nanos) div nanos) mod 86400
      in pad 2 (s div 3600) @ '':'' @ pad 2 (s div 60 mod 60) @ '':'' @ pad 2 (s mod 60))"

text \<open>\<open>t.Format(time.RFC3339)\<close>, for years 0 to 9999.\<close>

definition format_rfc3339 :: "gtime \<Rightarrow> string" where
  "format_rfc3339 t = show_date t @ ''T'' @ show_clock t @ show_zone (zone t)"

definition trim_zeros :: "string \<Rightarrow> string" where
  "trim_zeros s = rev (dropWhile (\<lambda>c. c = CHR ''0'') (rev s))"

definition show_frac :: "int \<Rightarrow> string" where
  "show_frac ns = (if ns = 0 then [] else ''.'' @ trim_zeros (pad 9 ns))"

text \<open>
  \<open>Time.MarshalJSON\<close> without the quotes: RFC 3339 with the fraction; an error outside the
  years 0 to 9999 or for a zone of 24 hours and more.
\<close>

definition year_of :: "gtime \<Rightarrow> int" where
  "year_of t = year_of_days (local_days t)"

definition marshal_time :: "gtime \<Rightarrow> string option" where
  "marshal_time t =
     (if 0 \<le> year_of t \<and> year_of t \<le> 9999 \<and> \<bar>zone t\<bar> < 86400
      then Some (show_date t @ ''T'' @ show_clock t @ show_frac (inst t mod nanos) @ show_zone (zone t))
      else None)"

end
