(* ===== verification/RateLimit.thy ===== *)
theory RateLimit
  imports GoTime
begin

text \<open>
  The rate budget (libs/go/githubapp/ratelimit.go): a pool per resource, \<open>Reserve\<close> before a
  call, \<open>Observe\<close> after one, and the registry of budgets. Each method holds the mutex, so it
  is one atomic step; a burst of concurrent callers is a sequence of them. Go's \<open>int\<close> wraps.
\<close>

section \<open>The code\<close>

type_synonym resource = string

definition REST :: resource where "REST = ''rest''"
definition GraphQLPool :: resource where "GraphQLPool = ''graphql''"

definition safetyFloor :: int where
  "safetyFloor = 50"

record pool =
  pl_remaining :: int
  pl_resetAt :: gtime
  pl_known :: bool

definition zero_pool :: pool where
  "zero_pool = \<lparr>pl_remaining = 0, pl_resetAt = zero_time, pl_known = False\<rparr>"

type_synonym budget = "resource \<rightharpoonup> pool"

definition NewBudget :: budget where
  "NewBudget = [REST \<mapsto> zero_pool, GraphQLPool \<mapsto> zero_pool]"

definition pool_of :: "budget \<Rightarrow> resource \<Rightarrow> pool" where
  "pool_of b r = (case b r of None \<Rightarrow> zero_pool | Some p \<Rightarrow> p)"

text \<open>The decision on one pool: the wait, whether the call may go ahead, and the pool after.\<close>

definition reserve_pool :: "gtime \<Rightarrow> int \<Rightarrow> pool \<Rightarrow> (int \<times> bool) \<times> pool" where
  "reserve_pool now cost p =
     (let cost = (if cost < 1 then 1 else cost);
          p = (if pl_known p \<and> \<not> is_zero (pl_resetAt p) \<and> after now (pl_resetAt p)
               then p\<lparr>pl_known := False\<rparr> else p)
      in if \<not> pl_known p then ((0, True), p\<lparr>pl_remaining := wrap64 (pl_remaining p - cost)\<rparr>)
         else if wrap64 (pl_remaining p - cost) < safetyFloor then
           (let w = time_sub (pl_resetAt p) now in ((if w < 0 then 0 else w, False), p))
         else ((0, True), p\<lparr>pl_remaining := wrap64 (pl_remaining p - cost)\<rparr>))"

definition Reserve :: "gtime \<Rightarrow> resource \<Rightarrow> int \<Rightarrow> budget \<Rightarrow> (int \<times> bool) \<times> budget" where
  "Reserve now r cost b =
     (case reserve_pool now cost (pool_of b r) of (res, p) \<Rightarrow> (res, b(r \<mapsto> p)))"

definition set_pool :: "resource \<Rightarrow> int \<Rightarrow> gtime \<Rightarrow> budget \<Rightarrow> budget" where
  "set_pool r remaining resetAt b =
     b(r \<mapsto> \<lparr>pl_remaining = remaining, pl_resetAt = resetAt, pl_known = True\<rparr>)"

definition atoi :: "string \<Rightarrow> int \<times> bool" where
  "atoi s = (if s = [] then (0, False)
             else case parse_int s of None \<Rightarrow> (0, False) | Some n \<Rightarrow> (n, True))"

text \<open>\<open>Observe\<close> reads the response's headers through \<open>http.Header.Get\<close>.\<close>

definition Observe :: "(string \<Rightarrow> string) \<Rightarrow> budget \<Rightarrow> budget" where
  "Observe get b =
     (case (atoi (get ''X-RateLimit-Remaining''), atoi (get ''X-RateLimit-Reset'')) of
        ((rem, ok1), (reset, ok2)) \<Rightarrow>
          if \<not> ok1 \<or> \<not> ok2 then b else set_pool REST rem (time_unix reset) b)"

definition ObserveGraphQL :: "int \<Rightarrow> gtime \<Rightarrow> budget \<Rightarrow> budget" where
  "ObserveGraphQL remaining resetAt = set_pool GraphQLPool remaining resetAt"

definition Remaining :: "resource \<Rightarrow> budget \<Rightarrow> int \<times> bool" where
  "Remaining r b = (pl_remaining (pool_of b r), pl_known (pool_of b r))"

text \<open>The registry keeps one budget per installation; its budgets are updated in place.\<close>

type_synonym registry = "int \<rightharpoonup> budget"

definition budget_for :: "registry \<Rightarrow> int \<Rightarrow> budget" where
  "budget_for reg i = (case reg i of None \<Rightarrow> NewBudget | Some b \<Rightarrow> b)"

definition reserve_for :: "gtime \<Rightarrow> int \<Rightarrow> resource \<Rightarrow> int \<Rightarrow> registry \<Rightarrow> (int \<times> bool) \<times> registry" where
  "reserve_for now i r cost reg =
     (case Reserve now r cost (budget_for reg i) of (res, b) \<Rightarrow> (res, reg(i \<mapsto> b)))"

section \<open>Laws\<close>

lemma pool_of_upd [simp]: "pool_of (b(r \<mapsto> p)) r = p" "r' \<noteq> r \<Longrightarrow> pool_of (b(r \<mapsto> p)) r' = pool_of b r'"
  by (simp_all add: pool_of_def)

lemma resources_differ [simp]: "REST \<noteq> GraphQLPool" "GraphQLPool \<noteq> REST"
  by (simp_all add: REST_def GraphQLPool_def)

text \<open>A pool whose window is open at \<open>now\<close> and whose quota is known.\<close>

definition open_window :: "gtime \<Rightarrow> pool \<Rightarrow> bool" where
  "open_window now p \<longleftrightarrow> pl_known p \<and> (is_zero (pl_resetAt p) \<or> \<not> after now (pl_resetAt p))"

definition charge :: "int \<Rightarrow> int" where
  "charge cost = (if cost < 1 then 1 else cost)"

lemma reserve_open:
  assumes "open_window now p" "0 \<le> pl_remaining p" "in64 (pl_remaining p)" "in64 cost"
  shows "reserve_pool now cost p =
    (if pl_remaining p - charge cost < safetyFloor
     then ((max 0 (time_sub (pl_resetAt p) now), False), p)
     else ((0, True), p\<lparr>pl_remaining := pl_remaining p - charge cost\<rparr>))"
proof -
  have "in64 (pl_remaining p - charge cost)"
    using assms(2-4) by (auto simp: in64_def charge_def min64_def max64_def)
  then have w: "wrap64 (pl_remaining p - charge cost) = pl_remaining p - charge cost" by simp
  from assms(1) have k: "(if pl_known p \<and> \<not> is_zero (pl_resetAt p) \<and> after now (pl_resetAt p)
      then p\<lparr>pl_known := False\<rparr> else p) = p" "pl_known p" by (auto simp: open_window_def)
  show ?thesis
    unfolding reserve_pool_def Let_def charge_def [symmetric] k(1) w by (simp add: k(2) max_def)
qed

text \<open>A burst: the calls' times and costs, and the total cost of those that were granted.\<close>

fun burst :: "(gtime \<times> int) list \<Rightarrow> pool \<Rightarrow> int \<times> pool" where
  "burst [] p = (0, p)"
| "burst ((now, cost) # calls) p =
     (case reserve_pool now cost p of
        ((w, ok), p') \<Rightarrow> (case burst calls p' of (spent, q) \<Rightarrow> ((if ok then charge cost else 0) + spent, q)))"

lemma burst_spends:
  assumes "list_all (\<lambda>(now, cost). open_window now p \<and> in64 cost) calls" "0 \<le> pl_remaining p" "in64 (pl_remaining p)"
    "burst calls p = (spent, q)"
  shows "pl_remaining q = pl_remaining p - spent \<and> 0 \<le> spent \<and> (spent = 0 \<or> safetyFloor \<le> pl_remaining q)"
  using assms
proof (induction calls arbitrary: p spent q)
  case (Cons call calls)
  obtain now cost where call: "call = (now, cost)" by fastforce
  from Cons.prems call have o: "open_window now p" "in64 cost" by auto
  let ?c = "charge cost"
  have c: "1 \<le> ?c" by (simp add: charge_def)
  show ?case
  proof (cases "pl_remaining p - ?c < safetyFloor")
    case True
    then have "reserve_pool now cost p = ((max 0 (time_sub (pl_resetAt p) now), False), p)"
      using reserve_open [OF o(1) Cons.prems(2,3) o(2)] by simp
    with Cons.prems(4) call have "burst calls p = (spent, q)" by (auto split: prod.splits)
    with Cons.IH [of p spent q] Cons.prems show ?thesis by auto
  next
    case False
    define p' where "p' = p\<lparr>pl_remaining := pl_remaining p - ?c\<rparr>"
    have r: "reserve_pool now cost p = ((0, True), p')"
      using False reserve_open [OF o(1) Cons.prems(2,3) o(2)] by (simp add: p'_def)
    obtain t where t: "burst calls p' = (t, q)" "spent = ?c + t"
      using Cons.prems(4) call r by (auto split: prod.splits)
    have "list_all (\<lambda>(now, cost). open_window now p' \<and> in64 cost) calls"
      using Cons.prems(1) by (auto simp: open_window_def p'_def list_all_iff)
    moreover have "0 \<le> pl_remaining p'" "in64 (pl_remaining p')"
      using False Cons.prems(2,3) c by (auto simp: p'_def safetyFloor_def in64_def min64_def)
    ultimately have "pl_remaining q = pl_remaining p' - t \<and> 0 \<le> t \<and> (t = 0 \<or> safetyFloor \<le> pl_remaining q)"
      using Cons.IH t(1) by blast
    with t(2) False c show ?thesis by (auto simp: p'_def)
  qed
qed simp

section \<open>Properties\<close>

text \<open>
  C17. No overshoot: however many callers reserve from a pool with a known quota inside its
  window, in whatever order and with whatever costs, the total cost granted never exceeds
  what the quota holds above the safety floor, and the estimate is the quota less exactly the
  granted costs.
\<close>

theorem burst_bounded:
  assumes "list_all (\<lambda>(now, cost). open_window now p \<and> in64 cost) calls"
    "0 \<le> pl_remaining p" "in64 (pl_remaining p)" "burst calls p = (spent, q)"
  shows "0 \<le> spent \<and> spent \<le> max 0 (pl_remaining p - safetyFloor) \<and> pl_remaining q = pl_remaining p - spent"
  using burst_spends [OF assms] by auto

theorem burst_bounded_witness:
  "\<exists>spent q. burst (replicate 3 (zero_time, 2)) \<lparr>pl_remaining = 55, pl_resetAt = GTime 10 0, pl_known = True\<rparr> = (spent, q) \<and>
     spent \<le> 5 \<and> spent = 4"
proof -
  let ?p = "\<lparr>pl_remaining = 55, pl_resetAt = GTime 10 0, pl_known = True\<rparr>"
  have e: "fst (burst (replicate 3 (zero_time, 2)) ?p) = 4" by code_simp
  obtain spent q where b: "burst (replicate 3 (zero_time, 2)) ?p = (spent, q)" by fastforce
  have "list_all (\<lambda>(now, cost). open_window now ?p \<and> in64 cost) (replicate 3 (zero_time, 2))"
    by (simp add: list_all_iff open_window_def after_def zero_time_def is_zero_def in64_def min64_def max64_def)
  from burst_bounded [OF this _ _ b] have "spent \<le> 5"
    by (simp add: in64_def min64_def max64_def safetyFloor_def)
  with b e show ?thesis by auto
qed

text \<open>
  C26. A refusal is temporary and says how long: when \<open>Reserve\<close> refuses a call of a pool with
  a reset time, it leaves the pool as it was, the wait it returns is never negative, and once
  more than the wait has passed the same call is granted. The reset is less than 292 years off,
  so that the gap is a Duration.
\<close>

theorem reserve_refusal_temporary:
  assumes "Reserve now r cost b = ((w, False), b')" "\<not> is_zero (pl_resetAt (pool_of b r))"
    "in64 (inst (pl_resetAt (pool_of b r)) - inst now)" "inst now + w < inst later"
  shows "0 \<le> w \<and> pool_of b' r = pool_of b r \<and> snd (fst (Reserve later r cost b')) = True"
proof -
  let ?p = "pool_of b r"
  from assms(1) have r: "reserve_pool now cost ?p = ((w, False), pool_of b' r)"
    by (auto simp: Reserve_def split: prod.splits)
  then have known: "pl_known ?p" and same: "pool_of b' r = ?p"
    and w: "w = (if time_sub (pl_resetAt ?p) now < 0 then 0 else time_sub (pl_resetAt ?p) now)"
    by (auto simp: reserve_pool_def Let_def split: if_splits)
  have "time_sub (pl_resetAt ?p) now = inst (pl_resetAt ?p) - inst now"
    using assms(3) by (simp add: time_sub_def in64_def)
  with w assms(4) have "after later (pl_resetAt ?p)" "0 \<le> w" by (auto simp: after_def split: if_splits)
  with same known assms(2) show ?thesis by (simp add: Reserve_def reserve_pool_def Let_def)
qed

theorem reserve_refusal_temporary_witness:
  "\<exists>b'. Reserve (GTime 5 0) REST 1 (set_pool REST 50 (GTime 10 0) NewBudget) = ((5, False), b') \<and>
     snd (fst (Reserve (GTime 11 0) REST 1 b')) = True"
proof -
  let ?b = "set_pool REST 50 (GTime 10 0) NewBudget"
  have e: "fst (Reserve (GTime 5 0) REST 1 ?b) = (5, False)" by code_simp
  then obtain b' where b': "Reserve (GTime 5 0) REST 1 ?b = ((5, False), b')" by (metis prod.collapse)
  have "\<not> is_zero (pl_resetAt (pool_of ?b REST))" "in64 (inst (pl_resetAt (pool_of ?b REST)) - inst (GTime 5 0))"
    by (simp_all add: set_pool_def is_zero_def in64_def min64_def max64_def)
  from reserve_refusal_temporary [OF b' this, of "GTime 11 0"] b' show ?thesis by auto
qed

text \<open>
  C27. A pool observed without a reset time (the zero time, which a \<open>rateLimit\<close> block without
  \<open>resetAt\<close> decodes to) at or below the floor refuses every later call, at any time and of any
  cost, and a refusal changes nothing: only a new observation, which needs a call, frees it.
\<close>

theorem zero_reset_refuses_forever:
  assumes "remaining \<le> safetyFloor" "0 \<le> remaining" "in64 cost"
  shows "snd (fst (Reserve now GraphQLPool cost (ObserveGraphQL remaining zero_time b))) = False \<and>
    pool_of (snd (Reserve now GraphQLPool cost (ObserveGraphQL remaining zero_time b))) GraphQLPool =
      pool_of (ObserveGraphQL remaining zero_time b) GraphQLPool"
proof -
  let ?p = "\<lparr>pl_remaining = remaining, pl_resetAt = zero_time, pl_known = True\<rparr>"
  have p: "pool_of (ObserveGraphQL remaining zero_time b) GraphQLPool = ?p"
    by (simp add: ObserveGraphQL_def set_pool_def)
  have "open_window now ?p" by (simp add: open_window_def)
  from reserve_open [OF this _ _ assms(3)] assms(1,2) show ?thesis
    by (simp add: Reserve_def p charge_def in64_def min64_def max64_def safetyFloor_def)
qed

theorem zero_reset_refuses_forever_witness:
  "snd (fst (Reserve (time_unix 1800000000) GraphQLPool 1 (ObserveGraphQL 0 zero_time NewBudget))) = False"
  using zero_reset_refuses_forever [of 0 1 "time_unix 1800000000" NewBudget]
  by (simp add: safetyFloor_def in64_def min64_def max64_def)

text \<open>
  The pools are separate: reserving from or observing one resource of one installation
  changes neither the other resource's pool nor another installation's budget.
\<close>

theorem pools_separate:
  assumes "r' \<noteq> r \<or> j \<noteq> i"
  shows "pool_of (budget_for (snd (reserve_for now i r cost reg)) j) r' = pool_of (budget_for reg j) r'"
  using assms by (auto simp: reserve_for_def Reserve_def budget_for_def split: prod.split)

theorem pools_separate_witness:
  "pool_of (budget_for (snd (reserve_for zero_time 7 REST 1 Map.empty)) 7) GraphQLPool = zero_pool"
  using pools_separate [of GraphQLPool REST 7 7 zero_time 1 Map.empty]
  by (simp add: budget_for_def NewBudget_def pool_of_def)

end
