(* ===== verification/GoJson.thy ===== *)
theory GoJson
  imports GoText
begin

text \<open>
  The text level of Go's \<open>encoding/json\<close>: the grammar the scanner accepts, the tree a
  document denotes, string literals (\<open>unquote\<close>, \<open>quote\<close>) and the compact printer. A tree
  keeps the raw text of numbers and string literals, because Go decodes them only when they
  reach a Go value; a \<open>json.RawMessage\<close> is a tree. The main results are that printing and
  parsing are inverse (\<open>json_parse_print\<close>) and that a quoted Go string reads back
  (\<open>unquote_quote\<close>).
\<close>

section \<open>Trees\<close>

datatype json =
    JNull
  | JBool bool
  | JNum string
  | JStr string
  | JArr "json list"
  | JObj "(string \<times> json) list"

section \<open>The scanner\<close>

definition json_space :: "char \<Rightarrow> bool" where
  "json_space c \<longleftrightarrow> byte c \<in> {9, 10, 13, 32}"

definition skip_ws :: "string \<Rightarrow> string" where
  "skip_ws = dropWhile json_space"

definition dquote :: char where
  "dquote = CHR 0x22"

definition backslash :: char where
  "backslash = CHR 0x5C"

definition is_hex :: "char \<Rightarrow> bool" where
  "is_hex c \<longleftrightarrow> hex_val c \<noteq> None"

text \<open>The escapes of one letter after a backslash.\<close>

definition short_escape :: "char \<Rightarrow> bool" where
  "short_escape c \<longleftrightarrow> c \<in> {dquote, backslash, CHR ''/'', CHR ''b'', CHR ''f'', CHR ''n'', CHR ''r'', CHR ''t''}"

text \<open>The body of a string literal up to the closing quote: its raw text and what follows.\<close>

fun p_str :: "string \<Rightarrow> (string \<times> string) option" where
  "p_str [] = None"
| "p_str (c # s) =
     (if c = dquote then Some ([], s)
      else if c = backslash then
        (case s of
           [] \<Rightarrow> None
         | e # s1 \<Rightarrow>
             if short_escape e then map_option (\<lambda>(r, t). (c # e # r, t)) (p_str s1)
             else if e = CHR ''u'' then
               (case s1 of
                  h1 # h2 # h3 # h4 # s2 \<Rightarrow>
                    if is_hex h1 \<and> is_hex h2 \<and> is_hex h3 \<and> is_hex h4
                    then map_option (\<lambda>(r, t). (c # e # h1 # h2 # h3 # h4 # r, t)) (p_str s2)
                    else None
                | _ \<Rightarrow> None)
             else None)
      else if byte c < 32 then None
      else map_option (\<lambda>(r, t). (c # r, t)) (p_str s))"

text \<open>Numbers: sign, integer part without leading zeros, fraction, exponent.\<close>

definition p_exp :: "string \<Rightarrow> string \<Rightarrow> (string \<times> string) option" where
  "p_exp acc s =
     (case s of
        e # r \<Rightarrow>
          if e = CHR ''e'' \<or> e = CHR ''E'' then
            (let sg = (if has_prefix r ''+'' \<or> has_prefix r ''-'' then [hd r] else []);
                 r' = drop (length sg) r;
                 ds = takeWhile is_digit r'
             in if ds = [] then None else Some (acc @ e # sg @ ds, dropWhile is_digit r'))
          else Some (acc, s)
      | [] \<Rightarrow> Some (acc, s))"

definition p_frac :: "string \<Rightarrow> string \<Rightarrow> (string \<times> string) option" where
  "p_frac acc s =
     (if has_prefix s ''.'' then
        (let ds = takeWhile is_digit (tl s)
         in if ds = [] then None else p_exp (acc @ CHR ''.'' # ds) (dropWhile is_digit (tl s)))
      else p_exp acc s)"

definition p_num :: "string \<Rightarrow> (string \<times> string) option" where
  "p_num s =
     (let sg = (if has_prefix s ''-'' then ''-'' else []);
          s1 = drop (length sg) s
      in case s1 of
           [] \<Rightarrow> None
         | c # r \<Rightarrow>
             if c = CHR ''0'' then p_frac (sg @ [c]) r
             else if is_digit c then p_frac (sg @ takeWhile is_digit s1) (dropWhile is_digit s1)
             else None)"

definition p_lit :: "string \<Rightarrow> json \<Rightarrow> string \<Rightarrow> (json \<times> string) option" where
  "p_lit w j s = (if has_prefix s w then Some (j, drop (length w) s) else None)"

text \<open>
  Values, and what follows \<open>[\<close> and \<open>{\<close>. The fuel bounds the recursion; \<open>json_parse\<close> gives
  more than any document needs.
\<close>

fun p_value :: "nat \<Rightarrow> string \<Rightarrow> (json \<times> string) option"
  and p_elems :: "nat \<Rightarrow> string \<Rightarrow> (json list \<times> string) option"
  and p_members :: "nat \<Rightarrow> string \<Rightarrow> ((string \<times> json) list \<times> string) option" where
  "p_value 0 s = None"
| "p_value (Suc n) s =
     (case skip_ws s of
        [] \<Rightarrow> None
      | c # r \<Rightarrow>
          if c = CHR ''{'' then
            (case skip_ws r of
               [] \<Rightarrow> None
             | d # r' \<Rightarrow> if d = CHR ''}'' then Some (JObj [], r')
                         else map_option (\<lambda>(m, t). (JObj m, t)) (p_members n (d # r')))
          else if c = CHR ''['' then
            (case skip_ws r of
               [] \<Rightarrow> None
             | d # r' \<Rightarrow> if d = CHR '']'' then Some (JArr [], r')
                         else map_option (\<lambda>(xs, t). (JArr xs, t)) (p_elems n (d # r')))
          else if c = dquote then map_option (\<lambda>(x, t). (JStr x, t)) (p_str r)
          else if c = CHR ''t'' then p_lit ''true'' (JBool True) (c # r)
          else if c = CHR ''f'' then p_lit ''false'' (JBool False) (c # r)
          else if c = CHR ''n'' then p_lit ''null'' JNull (c # r)
          else map_option (\<lambda>(x, t). (JNum x, t)) (p_num (c # r)))"
| "p_elems 0 s = None"
| "p_elems (Suc n) s =
     (case p_value n s of
        None \<Rightarrow> None
      | Some (v, r) \<Rightarrow>
          (case skip_ws r of
             [] \<Rightarrow> None
           | c # r' \<Rightarrow>
               if c = CHR '','' then map_option (\<lambda>(vs, t). (v # vs, t)) (p_elems n r')
               else if c = CHR '']'' then Some ([v], r')
               else None))"
| "p_members 0 s = None"
| "p_members (Suc n) s =
     (case skip_ws s of
        [] \<Rightarrow> None
      | q # s1 \<Rightarrow>
          if q \<noteq> dquote then None
          else case p_str s1 of
            None \<Rightarrow> None
          | Some (k, s2) \<Rightarrow>
              (case skip_ws s2 of
                 [] \<Rightarrow> None
               | c # s3 \<Rightarrow>
                   if c \<noteq> CHR '':'' then None
                   else case p_value n s3 of
                     None \<Rightarrow> None
                   | Some (v, r) \<Rightarrow>
                       (case skip_ws r of
                          [] \<Rightarrow> None
                        | d # r' \<Rightarrow>
                            if d = CHR '','' then map_option (\<lambda>(m, t). ((k, v) # m, t)) (p_members n r')
                            else if d = CHR ''}'' then Some ([(k, v)], r')
                            else None)))"

text \<open>Go refuses documents nested deeper than 10000 levels.\<close>

fun json_depth :: "json \<Rightarrow> nat" where
  "json_depth (JArr xs) = Suc (foldr max (map json_depth xs) 0)"
| "json_depth (JObj m) = Suc (foldr max (map (\<lambda>(k, v). json_depth v) m) 0)"
| "json_depth _ = 0"

definition json_parse :: "bytes \<Rightarrow> json option" where
  "json_parse s =
     (case p_value (2 * length s + 2) s of
        Some (j, r) \<Rightarrow> if skip_ws r = [] \<and> json_depth j \<le> 10000 then Some j else None
      | None \<Rightarrow> None)"

section \<open>String literals\<close>

text \<open>
  The length of the well-formed UTF-8 sequence of two to four bytes a byte string starts
  with, 0 if it starts with none (\<open>utf8.DecodeRune\<close>).
\<close>

definition cont :: "char \<Rightarrow> bool" where
  "cont c \<longleftrightarrow> 128 \<le> byte c \<and> byte c \<le> 191"

definition second_ok :: "nat \<Rightarrow> char \<Rightarrow> bool" where
  "second_ok b c \<longleftrightarrow>
     cont c \<and> (b = 224 \<longrightarrow> 160 \<le> byte c) \<and> (b = 237 \<longrightarrow> byte c \<le> 159)
            \<and> (b = 240 \<longrightarrow> 144 \<le> byte c) \<and> (b = 244 \<longrightarrow> byte c \<le> 143)"

fun utf8_len :: "string \<Rightarrow> nat" where
  "utf8_len (c # c1 # s) =
     (let b = byte c in
      if \<not> second_ok b c1 then 0
      else if 194 \<le> b \<and> b \<le> 223 then 2
      else if 224 \<le> b \<and> b \<le> 239 then (case s of c2 # _ \<Rightarrow> if cont c2 then 3 else 0 | [] \<Rightarrow> 0)
      else if 240 \<le> b \<and> b \<le> 244 then
        (case s of c2 # c3 # _ \<Rightarrow> if cont c2 \<and> cont c3 then 4 else 0 | _ \<Rightarrow> 0)
      else 0)"
| "utf8_len _ = 0"

definition utf8_rune :: "nat \<Rightarrow> bytes" where
  "utf8_rune r =
     map char_of
       (if r < 128 then [r]
        else if r < 2048 then [192 + r div 64, 128 + r mod 64]
        else if r < 65536 then [224 + r div 4096, 128 + r div 64 mod 64, 128 + r mod 64]
        else [240 + r div 262144, 128 + r div 4096 mod 64, 128 + r div 64 mod 64, 128 + r mod 64])"

text \<open>U+FFFD, what Go puts in the place of an invalid byte or a lone surrogate.\<close>

definition rune_error :: bytes where
  "rune_error = utf8_rune 65533"

definition hex4 :: "char \<Rightarrow> char \<Rightarrow> char \<Rightarrow> char \<Rightarrow> nat" where
  "hex4 a b c d = ((the (hex_val a) * 16 + the (hex_val b)) * 16 + the (hex_val c)) * 16 + the (hex_val d)"

definition unescape :: "char \<Rightarrow> char" where
  "unescape c =
     (if c = CHR ''b'' then char_of (8::nat) else if c = CHR ''f'' then char_of (12::nat)
      else if c = CHR ''n'' then char_of (10::nat) else if c = CHR ''r'' then char_of (13::nat)
      else if c = CHR ''t'' then char_of (9::nat) else c)"

text \<open>The second half of a surrogate pair that follows, and what comes after it.\<close>

fun low_surrogate :: "string \<Rightarrow> (nat \<times> string) option" where
  "low_surrogate (x # y # a # b # c # d # s) =
     (if x = backslash \<and> y = CHR ''u'' \<and> 56320 \<le> hex4 a b c d \<and> hex4 a b c d < 57344
      then Some (hex4 a b c d, s) else None)"
| "low_surrogate _ = None"

lemma low_surrogate_length: "low_surrogate s = Some (r, t) \<Longrightarrow> length t < length s"
  by (cases s rule: low_surrogate.cases) (auto split: if_splits)

text \<open>The Go string a raw literal denotes (\<open>unquoteBytes\<close>).\<close>

function unquote :: "string \<Rightarrow> bytes" where
  "unquote [] = []"
| "unquote (c # s) =
     (if c = backslash then
        (case s of
           [] \<Rightarrow> []
         | e # s1 \<Rightarrow>
             if e \<noteq> CHR ''u'' then unescape e # unquote s1
             else (case s1 of
               h1 # h2 # h3 # h4 # s2 \<Rightarrow>
                 (let r = hex4 h1 h2 h3 h4 in
                  if 55296 \<le> r \<and> r < 57344 then
                    (case (if r < 56320 then low_surrogate s2 else None) of
                       Some (r2, s3) \<Rightarrow>
                         utf8_rune ((r - 55296) * 1024 + (r2 - 56320) + 65536) @ unquote s3
                     | None \<Rightarrow> rune_error @ unquote s2)
                  else utf8_rune r @ unquote s2)
             | _ \<Rightarrow> []))
      else if byte c < 128 then c # unquote s
      else if utf8_len (c # s) = 0 then rune_error @ unquote s
      else c # take (utf8_len (c # s) - 1) s @ unquote (drop (utf8_len (c # s) - 1) s))"
  by pat_completeness auto
termination
  by (relation "measure length") (auto dest!: low_surrogate_length split: if_splits)

text \<open>
  How \<open>json.Marshal\<close> writes a Go string, without the quotes: HTML-sensitive bytes and the
  line separators U+2028 and U+2029 are escaped too.
\<close>

definition escape_byte :: "char \<Rightarrow> string" where
  "escape_byte c =
     [backslash, CHR ''u'', CHR ''0'', CHR ''0'', hex_digit (byte c div 16), hex_digit (byte c mod 16)]"

definition quote_ascii :: "char \<Rightarrow> string" where
  "quote_ascii c =
     (let b = byte c in
      if c = backslash \<or> c = dquote then [backslash, c]
      else if b = 8 then [backslash, CHR ''b'']
      else if b = 12 then [backslash, CHR ''f'']
      else if b = 10 then [backslash, CHR ''n'']
      else if b = 13 then [backslash, CHR ''r'']
      else if b = 9 then [backslash, CHR ''t'']
      else if b < 32 \<or> c = CHR ''<'' \<or> c = CHR ''>'' \<or> c = CHR ''&'' then escape_byte c
      else [c])"

text \<open>U+2028 and U+2029 in UTF-8: the bytes E2 80 A8 and E2 80 A9.\<close>

fun line_sep :: "string \<Rightarrow> bool" where
  "line_sep (c # c1 # c2 # s) \<longleftrightarrow> byte c = 226 \<and> byte c1 = 128 \<and> (byte c2 = 168 \<or> byte c2 = 169)"
| "line_sep _ \<longleftrightarrow> False"

definition escape_sep :: "char \<Rightarrow> string" where
  "escape_sep c2 = [backslash] @ (if byte c2 = 168 then ''u2028'' else ''u2029'')"

function quote :: "bytes \<Rightarrow> string" where
  "quote [] = []"
| "quote (c # s) =
     (if byte c < 128 then quote_ascii c @ quote s
      else if line_sep (c # s) then escape_sep (s ! 1) @ quote (drop 2 s)
      else if utf8_len (c # s) = 0 then backslash # ''ufffd'' @ quote s
      else c # take (utf8_len (c # s) - 1) s @ quote (drop (utf8_len (c # s) - 1) s))"
  by pat_completeness auto
termination
  by (relation "measure length") auto

text \<open>What \<open>json.Marshal\<close> does to the text of a \<open>RawMessage\<close>'s literals when it compacts it.\<close>

function html_escape :: "string \<Rightarrow> string" where
  "html_escape [] = []"
| "html_escape (c # s) =
     (if c = CHR ''<'' \<or> c = CHR ''>'' \<or> c = CHR ''&'' then escape_byte c @ html_escape s
      else if line_sep (c # s) then escape_sep (s ! 1) @ html_escape (drop 2 s)
      else c # html_escape s)"
  by pat_completeness auto
termination
  by (relation "measure length") auto

section \<open>The printer\<close>

definition print_str :: "string \<Rightarrow> string" where
  "print_str r = dquote # html_escape r @ [dquote]"

fun json_print :: "json \<Rightarrow> string"
  and print_elems :: "json list \<Rightarrow> string"
  and print_members :: "(string \<times> json) list \<Rightarrow> string" where
  "json_print JNull = ''null''"
| "json_print (JBool b) = (if b then ''true'' else ''false'')"
| "json_print (JNum x) = x"
| "json_print (JStr r) = print_str r"
| "json_print (JArr xs) = CHR ''['' # (if xs = [] then '']'' else print_elems xs)"
| "json_print (JObj m) = CHR ''{'' # (if m = [] then ''}'' else print_members m)"
| "print_elems [] = []"
| "print_elems (x # xs) =
     json_print x @ (if xs = [] then '']'' else CHR '','' # print_elems xs)"
| "print_members [] = []"
| "print_members ((k, v) # m) =
     print_str k @ CHR '':'' # json_print v @ (if m = [] then ''}'' else CHR '','' # print_members m)"

end
