(* ===== verification/GoJsonFacts.thy ===== *)
theory GoJsonFacts
  imports GoJson
begin

text \<open>
  The laws of the JSON text level: what the scanner accepts as a string literal, that
  compacting a raw message does not change what its literals denote, that a quoted Go string
  reads back, and that a printed tree parses to the tree it was printed from.
\<close>

section \<open>Literals the scanner accepts\<close>

inductive wf_lit :: "string \<Rightarrow> bool" where
  nil: "wf_lit []"
| short: "short_escape e \<Longrightarrow> wf_lit s \<Longrightarrow> wf_lit (backslash # e # s)"
| uni: "is_hex h1 \<Longrightarrow> is_hex h2 \<Longrightarrow> is_hex h3 \<Longrightarrow> is_hex h4 \<Longrightarrow> wf_lit s \<Longrightarrow>
    wf_lit (backslash # CHR ''u'' # h1 # h2 # h3 # h4 # s)"
| plain: "c \<noteq> backslash \<Longrightarrow> c \<noteq> dquote \<Longrightarrow> 32 \<le> byte c \<Longrightarrow> wf_lit s \<Longrightarrow> wf_lit (c # s)"

declare wf_lit.intros [intro]

lemma lit_chars [simp]:
  "dquote \<noteq> backslash" "backslash \<noteq> dquote" "byte dquote = 34" "byte backslash = 92"
  "\<not> short_escape (CHR ''u'')" "CHR ''u'' \<noteq> dquote" "CHR ''u'' \<noteq> backslash"
  by (simp_all add: dquote_def backslash_def short_escape_def byte_def)

lemma p_str_sound: "p_str s = Some (r, t) \<Longrightarrow> wf_lit r \<and> s = r @ dquote # t"
proof (induction s arbitrary: r t rule: measure_induct_rule [where f = length])
  case (less s)
  show ?case
  proof (cases s)
    case (Cons c s1)
    have IH: "wf_lit r' \<and> s' = r' @ dquote # t'"
      if "p_str s' = Some (r', t')" "length s' \<le> length s1" for s' r' t'
      using less.IH [of s'] that Cons by simp
    from less.prems Cons show ?thesis
      by (auto split: if_splits list.splits dest!: IH)
  qed (use less.prems in simp)
qed

lemma p_str_complete: "wf_lit r \<Longrightarrow> p_str (r @ dquote # t) = Some (r, t)"
  by (induction rule: wf_lit.induct) auto

lemma p_str_iff: "p_str s = Some (r, t) \<longleftrightarrow> wf_lit r \<and> s = r @ dquote # t"
  using p_str_sound p_str_complete by metis

section \<open>Compacting a raw message keeps what its literals denote\<close>

lemma wf_lit_plain_iff:
  "c \<noteq> backslash \<Longrightarrow> wf_lit (c # s) \<longleftrightarrow> c \<noteq> dquote \<and> 32 \<le> byte c \<and> wf_lit s"
  by (auto elim: wf_lit.cases)

lemma hex_lits [simp]:
  "is_hex (CHR ''0'')" "is_hex (CHR ''2'')" "is_hex (CHR ''8'')" "is_hex (CHR ''9'')"
  "d < 16 \<Longrightarrow> is_hex (hex_digit d)"
  by (simp_all add: is_hex_def) (simp_all add: hex_val_def byte_def)

lemma byte_div16 [simp]: "byte c div 16 < 16"
  using byte_less [of c] by linarith

lemma wf_lit_escapes [intro]:
  "wf_lit s \<Longrightarrow> wf_lit (escape_byte c @ s)"
  "wf_lit s \<Longrightarrow> wf_lit (escape_sep c @ s)"
  by (auto simp: escape_byte_def escape_sep_def intro!: wf_lit.uni)

text \<open>The bytes of a continuation are never escaped, so a sequence is kept or replaced whole.\<close>

lemma cont_not_special [simp]:
  assumes "cont c"
  shows "c \<noteq> backslash" "c \<noteq> dquote" "c \<noteq> CHR ''<''" "c \<noteq> CHR ''>''" "c \<noteq> CHR ''&''"
    "32 \<le> byte c" "\<not> line_sep (c # s)"
  using assms by (auto simp: cont_def byte_def backslash_def dquote_def elim!: line_sep.elims)

abbreviation html_char :: "char \<Rightarrow> bool" where
  "html_char c \<equiv> c = CHR ''<'' \<or> c = CHR ''>'' \<or> c = CHR ''&''"

lemma html_escape_special: "html_char c \<Longrightarrow> html_escape (c # s) = escape_byte c @ html_escape s"
  by (simp only: html_escape.simps if_True)

lemma html_escape_other: "\<not> html_char c \<Longrightarrow> \<not> line_sep (c # s) \<Longrightarrow> html_escape (c # s) = c # html_escape s"
  by (simp only: html_escape.simps if_False)

lemma html_escape_sep:
  assumes "line_sep (c # c1 # c2 # t)"
  shows "html_escape (c # c1 # c2 # t) = escape_sep c2 @ html_escape t"
proof -
  from assms have "\<not> html_char c" by (auto simp: byte_def)
  with assms show ?thesis by (simp only: html_escape.simps(2) if_True if_False) (simp add: numeral_2_eq_2)
qed

lemma html_escape_plain:
  "\<not> html_char c \<Longrightarrow> byte c \<noteq> 226 \<Longrightarrow> html_escape (c # s) = c # html_escape s"
  by (auto elim!: line_sep.elims)

declare html_escape.simps(2) [simp del]

lemma html_escape_cont: "cont c \<Longrightarrow> html_escape (c # s) = c # html_escape s"
  by (rule html_escape_other) simp_all

lemma hex_not_special [simp]:
  assumes "is_hex c"
  shows "c \<noteq> CHR ''<''" "c \<noteq> CHR ''>''" "c \<noteq> CHR ''&''" "byte c \<noteq> 226" "c \<noteq> backslash"
  using assms by (auto simp: is_hex_def hex_val_def backslash_def byte_def Let_def split: if_splits)

lemma short_not_special [simp]:
  assumes "short_escape c"
  shows "c \<noteq> CHR ''<''" "c \<noteq> CHR ''>''" "c \<noteq> CHR ''&''" "byte c \<noteq> 226"
  using assms by (auto simp: short_escape_def byte_def dquote_def backslash_def)

lemma html_escape_backslash [simp]: "html_escape (backslash # s) = backslash # html_escape s"
  by (rule html_escape_plain) (simp_all add: backslash_def byte_def)

lemma html_escape_u [simp]: "html_escape (CHR ''u'' # s) = CHR ''u'' # html_escape s"
  by (rule html_escape_plain) (simp_all add: byte_def)

lemma html_escape_hex [simp]: "is_hex c \<Longrightarrow> html_escape (c # s) = c # html_escape s"
  by (rule html_escape_plain) simp_all

lemma html_escape_short [simp]: "short_escape c \<Longrightarrow> html_escape (c # s) = c # html_escape s"
  by (rule html_escape_plain) simp_all

lemma line_sep_conv:
  "line_sep s \<longleftrightarrow> (\<exists>c c1 c2 t. s = c # c1 # c2 # t \<and> byte c = 226 \<and> byte c1 = 128 \<and> byte c2 \<in> {168, 169})"
  by (cases s rule: line_sep.cases) auto

lemma wf_lit_html_escape: "wf_lit r \<Longrightarrow> wf_lit (html_escape r)"
proof (induction r rule: measure_induct_rule [where f = length])
  case (less r)
  from less.prems show ?case
  proof cases
    case (short e s)
    with less.IH [of s] show ?thesis by auto
  next
    case (uni h1 h2 h3 h4 s)
    with less.IH [of s] show ?thesis by auto
  next
    case (plain c s)
    show ?thesis
    proof (cases "line_sep r")
      case True
      with plain obtain c1 c2 t where s: "s = c1 # c2 # t" "cont c1" "cont c2"
        by (auto simp: line_sep_conv cont_def)
      with plain have "wf_lit t" by (simp add: wf_lit_plain_iff)
      with less.IH [of t] True plain s show ?thesis by (auto simp: html_escape_sep)
    next
      case False
      with plain less.IH [of s] show ?thesis
        by (cases "html_char c") (auto simp: html_escape_special html_escape_other)
    qed
  qed auto
qed

declare unquote.simps(2) [simp del]

lemma unquote_plain: "c \<noteq> backslash \<Longrightarrow> byte c < 128 \<Longrightarrow> unquote (c # s) = c # unquote s"
  by (simp add: unquote.simps(2))

lemma unquote_short: "e \<noteq> CHR ''u'' \<Longrightarrow> unquote (backslash # e # s) = unescape e # unquote s"
  by (simp add: unquote.simps(2))

lemma unquote_uni:
  "unquote (backslash # CHR ''u'' # h1 # h2 # h3 # h4 # s) =
     (let r = hex4 h1 h2 h3 h4 in
      if 55296 \<le> r \<and> r < 57344 then
        (case (if r < 56320 then low_surrogate s else None) of
           Some (r2, s3) \<Rightarrow> utf8_rune ((r - 55296) * 1024 + (r2 - 56320) + 65536) @ unquote s3
         | None \<Rightarrow> rune_error @ unquote s)
      else utf8_rune r @ unquote s)"
  by (subst unquote.simps(2)) simp

lemma unquote_bad:
  "128 \<le> byte c \<Longrightarrow> utf8_len (c # s) = 0 \<Longrightarrow> unquote (c # s) = rune_error @ unquote s"
  by (subst unquote.simps(2)) auto

lemma unquote_multi:
  "128 \<le> byte c \<Longrightarrow> utf8_len (c # s) = Suc n \<Longrightarrow>
   unquote (c # s) = c # take n s @ unquote (drop n s)"
  by (subst unquote.simps(2)) auto

lemma hex_char_vals [simp]:
  "hex_val (CHR ''0'') = Some 0" "hex_val (CHR ''2'') = Some 2"
  "hex_val (CHR ''8'') = Some 8" "hex_val (CHR ''9'') = Some 9"
  "hex_val (CHR ''f'') = Some 15" "hex_val (CHR ''d'') = Some 13"
  by (simp_all add: hex_val_def byte_def)

lemma unquote_escape_byte:
  assumes "byte c < 128"
  shows "unquote (escape_byte c @ s) = c # unquote s"
proof -
  have "hex4 (CHR ''0'') (CHR ''0'') (hex_digit (byte c div 16)) (hex_digit (byte c mod 16)) = byte c"
    by (simp add: hex4_def)
  with assms show ?thesis by (simp add: escape_byte_def unquote_uni utf8_rune_def)
qed

lemma utf8_len_sep: "line_sep (c # c1 # c2 # t) \<Longrightarrow> utf8_len (c # c1 # c2 # t) = 3"
  by (auto simp: second_ok_def cont_def)

lemma unquote_sep:
  "line_sep (c # c1 # c2 # t) \<Longrightarrow> unquote (c # c1 # c2 # t) = c # c1 # c2 # unquote t"
  using unquote_multi [of c "c1 # c2 # t" 2] utf8_len_sep [of c c1 c2 t]
  by (auto simp del: utf8_len.simps simp: eval_nat_numeral)

lemma char_of_byteI: "byte c = n \<Longrightarrow> char_of n = c"
  by auto

lemma unquote_escape_sep:
  assumes "line_sep (c # c1 # c2 # t)"
  shows "unquote (escape_sep c2 @ s) = c # c1 # c2 # unquote s"
proof -
  from assms have "char_of (226::nat) = c" "char_of (128::nat) = c1" and c2: "byte c2 = 168 \<or> byte c2 = 169"
    by (auto intro: char_of_byteI)
  moreover from c2 have "char_of (168::nat) = c2 \<or> char_of (169::nat) = c2" by (auto intro: char_of_byteI)
  ultimately show ?thesis
    using c2 by (auto simp: escape_sep_def unquote_uni hex4_def utf8_rune_def)
qed

lemma html_escape_head:
  obtains (nil) "s = []" "html_escape s = []"
  | (cont) c t where "cont c" "s = c # t" "html_escape s = c # html_escape t"
  | (other) c t d u where "\<not> cont c" "s = c # t" "html_escape s = d # u" "\<not> cont d"
proof (cases s)
  case (Cons c t)
  consider "cont c" | "html_char c" | "line_sep s" | "\<not> cont c" "\<not> html_char c" "\<not> line_sep s" by blast
  then show ?thesis
  proof cases
    case 1
    then show ?thesis using cont [of c t] Cons html_escape_cont by simp
  next
    case 2
    moreover from this have "\<not> cont c" by (auto simp: cont_def byte_def)
    ultimately show ?thesis using other [of c t backslash] Cons
      by (simp add: html_escape_special escape_byte_def cont_def)
  next
    case 3
    then show ?thesis using other [of c t] Cons
      by (auto simp: line_sep_conv html_escape_sep escape_sep_def cont_def)
  next
    case 4
    then show ?thesis using other [of c t] Cons by (simp add: html_escape_other)
  qed
qed (use nil in simp)

lemma utf8_len_head: "\<not> cont d \<Longrightarrow> utf8_len (c # d # u) = 0"
  by (simp add: second_ok_def)

lemma utf8_len_single: "utf8_len [c] = 0"
  by simp

lemma utf8_len_html:
  fixes c :: char and s :: string
  defines "n \<equiv> utf8_len (c # s) - 1"
  shows "utf8_len (c # html_escape s) = utf8_len (c # s) \<and>
    take n (html_escape s) = take n s \<and> drop n (html_escape s) = html_escape (drop n s)"
proof (cases s rule: html_escape_head)
  case nil
  then show ?thesis by simp
next
  case (other c1 t d u)
  then show ?thesis by (simp add: n_def second_ok_def Let_def)
next
  case (cont c1 t)
  then show ?thesis
  proof (cases t rule: html_escape_head)
    case (cont c2 t2)
    with \<open>cont c1\<close> \<open>s = c1 # t\<close> \<open>html_escape s = c1 # html_escape t\<close> show ?thesis
      by (cases t2 rule: html_escape_head) (simp_all add: Let_def n_def)
  qed (simp_all add: Let_def n_def split: list.split)
qed

lemma low_surrogate_html:
  assumes "wf_lit s"
  shows "low_surrogate (html_escape s) = map_option (\<lambda>(r, t). (r, html_escape t)) (low_surrogate s)"
  using assms
proof cases
  case (short e t)
  then have "e \<noteq> CHR ''u''" by auto
  with short show ?thesis
    by (cases s rule: low_surrogate.cases; cases "html_escape s" rule: low_surrogate.cases) auto
next
  case (plain c t)
  consider "html_char c" | "line_sep s" | "\<not> html_char c" "\<not> line_sep s" by blast
  then show ?thesis
  proof cases
    case 1
    then have "html_escape s = escape_byte c @ html_escape t" using plain by (simp add: html_escape_special)
    moreover have "hex4 (CHR ''0'') (CHR ''0'') (hex_digit (byte c div 16)) (hex_digit (byte c mod 16)) < 256"
      by (simp add: hex4_def)
    moreover have "low_surrogate s = None" using plain by (cases s rule: low_surrogate.cases) auto
    ultimately show ?thesis by (simp add: escape_byte_def)
  next
    case 2
    then obtain c1 c2 t' where s: "s = c # c1 # c2 # t'" "line_sep (c # c1 # c2 # t')"
      using plain by (auto simp: line_sep_conv)
    then have "html_escape s = escape_sep c2 @ html_escape t'" by (simp add: html_escape_sep)
    moreover have "low_surrogate s = None" using plain by (cases s rule: low_surrogate.cases) auto
    ultimately show ?thesis by (auto simp: escape_sep_def hex4_def)
  next
    case 3
    then have "html_escape s = c # html_escape t" using plain by (simp add: html_escape_other)
    with plain show ?thesis
      by (cases s rule: low_surrogate.cases; cases "html_escape s" rule: low_surrogate.cases) auto
  qed
qed simp_all

lemma utf8_len_cont: "utf8_len (c # s) = Suc n \<Longrightarrow> list_all cont (take n s)"
  by (cases "c # s" rule: utf8_len.cases)
    (auto simp: Let_def second_ok_def take_Cons' split: if_splits list.splits)

lemma wf_lit_drop: "wf_lit s \<Longrightarrow> list_all cont (take n s) \<Longrightarrow> wf_lit (drop n s)"
proof (induction n arbitrary: s)
  case (Suc n)
  then show ?case by (cases s) (auto simp: wf_lit_plain_iff)
qed simp

lemma wf_lit_multi: "wf_lit s \<Longrightarrow> utf8_len (c # s) = Suc n \<Longrightarrow> wf_lit (drop n s)"
  by (blast intro: wf_lit_drop utf8_len_cont)

theorem unquote_html_escape: "wf_lit r \<Longrightarrow> unquote (html_escape r) = unquote r"
proof (induction r rule: measure_induct_rule [where f = length])
  case (less r)
  from less.prems show ?case
  proof cases
    case (short e s)
    then have "e \<noteq> CHR ''u''" by auto
    with short less.IH [of s] show ?thesis by (simp add: unquote_short)
  next
    case (uni h1 h2 h3 h4 s)
    have "unquote (html_escape s') = unquote s'" if "low_surrogate s = Some (x, s')" for x s'
    proof -
      have "wf_lit s'" using uni(6) that
        by (cases s rule: low_surrogate.cases) (auto split: if_splits elim: wf_lit.cases)
      with less.IH [of s'] uni low_surrogate_length [OF that] show ?thesis by simp
    qed
    with less.IH [of s] uni show ?thesis
      by (auto simp: unquote_uni Let_def low_surrogate_html split: option.splits)
  next
    case (plain c s)
    consider "html_char c" | "line_sep r" | "\<not> html_char c" "\<not> line_sep r" by blast
    then show ?thesis
    proof cases
      case 1
      then have "byte c < 128" by (auto simp: byte_def)
      with 1 plain less.IH [of s] show ?thesis
        by (simp add: html_escape_special unquote_escape_byte unquote_plain)
    next
      case 2
      then obtain c1 c2 t where s: "s = c1 # c2 # t" "line_sep (c # c1 # c2 # t)" "cont c1" "cont c2"
        using plain by (auto simp: line_sep_conv cont_def)
      with plain have "wf_lit t" by (simp add: wf_lit_plain_iff)
      with s plain less.IH [of t] show ?thesis
        by (simp add: html_escape_sep unquote_escape_sep unquote_sep del: line_sep.simps)
    next
      case 3
      then have e: "html_escape r = c # html_escape s" using plain by (simp add: html_escape_other)
      show ?thesis
      proof (cases "byte c < 128")
        case True
        with e plain less.IH [of s] show ?thesis by (simp add: unquote_plain)
      next
        case False
        show ?thesis
        proof (cases "utf8_len (c # s)")
          case 0
          with False e plain less.IH [of s] utf8_len_html [of c s] show ?thesis
            by (simp add: unquote_bad)
        next
          case (Suc n)
          with plain have "wf_lit (drop n s)" by (auto intro: wf_lit_multi)
          with Suc False e plain less.IH [of "drop n s"] utf8_len_html [of c s] show ?thesis
            by (simp add: unquote_multi)
        qed
      qed
    qed
  qed simp
qed

section \<open>Quoted strings read back\<close>

text \<open>Well-formed UTF-8.\<close>

function valid_utf8 :: "bytes \<Rightarrow> bool" where
  "valid_utf8 [] \<longleftrightarrow> True"
| "valid_utf8 (c # s) \<longleftrightarrow>
     (if byte c < 128 then valid_utf8 s
      else utf8_len (c # s) \<noteq> 0 \<and> valid_utf8 (drop (utf8_len (c # s) - 1) s))"
  by pat_completeness auto
termination
  by (relation "measure length") auto

declare quote.simps(2) [simp del] valid_utf8.simps(2) [simp del]

lemma quote_ascii_unquote: "byte c < 128 \<Longrightarrow> unquote (quote_ascii c @ s) = c # unquote s"
proof -
  assume b: "byte c < 128"
  have esc: "unescape backslash = backslash" "unescape dquote = dquote"
    "unescape (CHR ''b'') = char_of (8::nat)" "unescape (CHR ''f'') = char_of (12::nat)"
    "unescape (CHR ''n'') = char_of (10::nat)" "unescape (CHR ''r'') = char_of (13::nat)"
    "unescape (CHR ''t'') = char_of (9::nat)" "backslash \<noteq> CHR ''u''" "dquote \<noteq> CHR ''u''"
    by (simp_all add: unescape_def dquote_def backslash_def)
  show ?thesis
    unfolding quote_ascii_def Let_def
    using b by (simp add: unquote_short unquote_escape_byte unquote_plain esc char_of_byteI)
qed

lemma utf8_len_take:
  "utf8_len (c # s) = Suc n \<Longrightarrow> utf8_len (c # take n s @ t) = Suc n \<and> length (take n s) = n"
  by (cases "c # s" rule: utf8_len.cases)
    (auto simp: Let_def eval_nat_numeral split: if_splits list.splits)

lemma unquote_take:
  assumes "128 \<le> byte c" "utf8_len (c # s) = Suc n"
  shows "unquote (c # take n s @ t) = c # take n s @ unquote t"
  using unquote_multi [OF assms(1), of "take n s @ t" n] utf8_len_take [OF assms(2), of t] by simp

theorem unquote_quote: "valid_utf8 s \<Longrightarrow> unquote (quote s) = s"
proof (induction s rule: measure_induct_rule [where f = length])
  case (less s)
  show ?case
  proof (cases s)
    case (Cons c t)
    consider "byte c < 128" | "128 \<le> byte c" "line_sep s" | "128 \<le> byte c" "\<not> line_sep s" by linarith
    then show ?thesis
    proof cases
      case 1
      with Cons less show ?thesis
        by (simp add: quote.simps(2) quote_ascii_unquote valid_utf8.simps(2))
    next
      case 2
      then obtain c1 c2 u where t: "t = c1 # c2 # u" "line_sep (c # c1 # c2 # u)"
        using Cons by (auto simp: line_sep_conv)
      with 2 less.prems Cons utf8_len_sep [OF t(2)] have "valid_utf8 u"
        by (simp add: valid_utf8.simps(2) eval_nat_numeral)
      with t Cons 2 less.IH [of u] unquote_escape_sep [OF t(2)] show ?thesis
        by (simp add: quote.simps(2) eval_nat_numeral)
    next
      case 3
      with less.prems Cons obtain n where n: "utf8_len (c # t) = Suc n" "valid_utf8 (drop n t)"
        by (cases "utf8_len (c # t)") (auto simp: valid_utf8.simps(2))
      with 3 Cons less.IH [of "drop n t"] show ?thesis
        by (simp add: quote.simps(2) unquote_take)
    qed
  qed simp
qed

lemma wf_lit_quote_ascii: "byte c < 128 \<Longrightarrow> wf_lit s \<Longrightarrow> wf_lit (quote_ascii c @ s)"
  by (auto simp: quote_ascii_def Let_def short_escape_def)

lemma is_hex_fffd: "is_hex (CHR ''f'')" "is_hex (CHR ''d'')"
  by (simp_all add: is_hex_def)

lemma wf_lit_take:
  assumes "128 \<le> byte c" "utf8_len (c # s) = Suc n" "wf_lit t"
  shows "wf_lit (c # take n s @ t)"
proof -
  have "wf_lit (w @ t)" if "list_all cont w" for w
    using that assms(3) by (induction w) (simp_all add: wf_lit_plain_iff)
  then have "wf_lit (take n s @ t)" using utf8_len_cont [OF assms(2)] by simp
  with assms(1) show ?thesis by (intro wf_lit.plain) auto
qed

lemma wf_lit_quote [simp]: "wf_lit (quote s)"
proof (induction s rule: measure_induct_rule [where f = length])
  case (less s)
  show ?case
  proof (cases s)
    case (Cons c t)
    with less show ?thesis
      by (cases "utf8_len (c # t)")
        (auto simp: quote.simps(2) is_hex_fffd intro!: wf_lit_quote_ascii wf_lit.uni wf_lit_take)
  qed auto
qed

section \<open>Numbers\<close>

text \<open>What may follow a number without extending it.\<close>

definition delim :: "string \<Rightarrow> bool" where
  "delim t \<longleftrightarrow> (case t of [] \<Rightarrow> True
     | c # _ \<Rightarrow> \<not> is_digit c \<and> c \<noteq> CHR ''.'' \<and> c \<noteq> CHR ''e'' \<and> c \<noteq> CHR ''E'')"

definition wf_num :: "string \<Rightarrow> bool" where
  "wf_num x \<longleftrightarrow> p_num x = Some (x, [])"

lemma delim_simps [simp]:
  "delim []" "delim (CHR '','' # t)" "delim (CHR '']'' # t)" "delim (CHR ''}'' # t)"
  by (simp_all add: delim_def is_digit_def byte_def)

lemma digits_delim:
  assumes "delim t"
  shows "takeWhile is_digit (s @ t) = takeWhile is_digit s"
    "dropWhile is_digit (s @ t) = dropWhile is_digit s @ t"
  using assms by (induction s) (auto simp: delim_def split: list.splits)

lemma has_prefix_sign_delim:
  "r @ t = [] \<or> r \<noteq> [] \<Longrightarrow> has_prefix (r @ t) [c] = has_prefix r [c]"
  by (cases r) (auto simp: has_prefix_def)

lemma p_exp_delim:
  assumes "p_exp acc s = Some (a, [])" "delim t"
  shows "p_exp acc (s @ t) = Some (a, t)"
proof (cases s)
  case Nil
  with assms show ?thesis by (auto simp: p_exp_def delim_def split: list.splits)
next
  case (Cons e r)
  with assms(1) have e: "e = CHR ''e'' \<or> e = CHR ''E''" by (auto simp: p_exp_def split: if_splits)
  with assms(1) Cons have "r \<noteq> []" by (auto simp: p_exp_def Let_def has_prefix_def split: if_splits)
  then obtain c r1 where r: "r = c # r1" by (cases r) auto
  with assms e Cons show ?thesis
    by (auto simp: p_exp_def Let_def has_prefix_def digits_delim split: if_splits)
qed

lemma p_frac_delim:
  assumes "p_frac acc s = Some (a, [])" "delim t"
  shows "p_frac acc (s @ t) = Some (a, t)"
proof (cases s)
  case Nil
  with assms show ?thesis
    using p_exp_delim [of acc "[]" a t]
    by (auto simp: p_frac_def has_prefix_def delim_def split: list.splits)
next
  case (Cons c r)
  with assms show ?thesis
    using p_exp_delim [OF _ assms(2), of _ _ a]
    by (auto simp: p_frac_def has_prefix_def Let_def digits_delim split: if_splits)
      (metis append_Cons p_exp_delim)
qed

lemma p_num_delim:
  assumes "wf_num x" "delim t"
  shows "p_num (x @ t) = Some (x, t)"
proof -
  define sg where "sg = (if has_prefix x ''-'' then ''-'' else [])"
  have x: "p_num x = Some (x, [])" using assms(1) by (simp add: wf_num_def)
  then have "x \<noteq> []" by (auto simp: p_num_def has_prefix_def)
  then have p: "has_prefix (x @ t) ''-'' = has_prefix x ''-''" by (cases x) (auto simp: has_prefix_def)
  have d: "length sg - length x = 0" using \<open>x \<noteq> []\<close> by (cases x) (auto simp: sg_def)
  obtain c r where s1: "drop (length sg) x = c # r"
    using x by (auto simp: p_num_def Let_def simp flip: sg_def split: list.splits)
  show ?thesis
    using x p_frac_delim [OF _ assms(2)] digits_delim [OF assms(2), of "c # r"]
    unfolding p_num_def p Let_def
    by (simp add: d s1 flip: sg_def split: if_splits)
qed

section \<open>Printed trees parse back\<close>

fun wf_json :: "json \<Rightarrow> bool" where
  "wf_json (JNum x) \<longleftrightarrow> wf_num x"
| "wf_json (JStr r) \<longleftrightarrow> wf_lit r"
| "wf_json (JArr xs) \<longleftrightarrow> list_all wf_json xs"
| "wf_json (JObj m) \<longleftrightarrow> list_all (\<lambda>(k, v). wf_lit k \<and> wf_json v) m"
| "wf_json _ \<longleftrightarrow> True"

text \<open>The tree a compacted raw message denotes: the same one, its literals escaped.\<close>

fun esc_json :: "json \<Rightarrow> json" where
  "esc_json (JStr r) = JStr (html_escape r)"
| "esc_json (JArr xs) = JArr (map esc_json xs)"
| "esc_json (JObj m) = JObj (map (\<lambda>(k, v). (html_escape k, esc_json v)) m)"
| "esc_json j = j"

fun need :: "json \<Rightarrow> nat" where
  "need (JArr xs) = Suc (sum_list (map (\<lambda>x. Suc (need x)) xs))"
| "need (JObj m) = Suc (sum_list (map (\<lambda>(k, v). Suc (need v)) m))"
| "need _ = 1"

lemma wf_num_head:
  assumes "wf_num x"
  obtains c r where "x = c # r" "c = CHR ''-'' \<or> is_digit c"
proof (cases x)
  case (Cons c r)
  with assms that show ?thesis
    by (auto simp: wf_num_def p_num_def has_prefix_def Let_def is_digit_def byte_def split: if_splits)
qed (use assms in \<open>simp add: wf_num_def p_num_def has_prefix_def\<close>)

lemma json_print_head:
  assumes "wf_json j"
  obtains c r where "json_print j = c # r" "\<not> json_space c" "c \<noteq> CHR '']''" "c \<noteq> CHR ''}''"
proof (cases j)
  case (JNum x)
  with assms obtain c r where "x = c # r" "c = CHR ''-'' \<or> is_digit c" by (auto elim: wf_num_head)
  moreover from this(2) have "\<not> json_space c" "c \<noteq> CHR '']''" "c \<noteq> CHR ''}''"
    by (auto simp: json_space_def is_digit_def byte_def)
  ultimately show ?thesis using JNum that by simp
next
  case (JBool b)
  with that show ?thesis by (cases b) (auto simp: json_space_def byte_def)
qed (use that in \<open>auto simp: json_space_def byte_def print_str_def dquote_def\<close>)

lemma need_le_length:
  "wf_json j \<Longrightarrow> need j \<le> length (json_print j)"
  "list_all wf_json xs \<Longrightarrow> sum_list (map (\<lambda>x. Suc (need x)) xs) \<le> length (print_elems xs)"
  "list_all (\<lambda>(k, v). wf_lit k \<and> wf_json v) m \<Longrightarrow>
     sum_list (map (\<lambda>(k, v). Suc (need v)) m) \<le> length (print_members m)"
proof (induction j and xs and m rule: json_print_print_elems_print_members.induct)
  case (3 x)
  then show ?case by (auto elim: wf_num_head)
qed (auto simp: print_str_def)

lemma skip_ws_Cons [simp]: "\<not> json_space c \<Longrightarrow> skip_ws (c # r) = c # r"
  by (simp add: skip_ws_def)

lemma not_space [simp]:
  "\<not> json_space (CHR ''['')" "\<not> json_space (CHR '']'')" "\<not> json_space (CHR ''{'')"
  "\<not> json_space (CHR ''}'')" "\<not> json_space (CHR '','')" "\<not> json_space (CHR '':'')"
  "\<not> json_space dquote" "\<not> json_space (CHR ''t'')" "\<not> json_space (CHR ''f'')" "\<not> json_space (CHR ''n'')"
  by (simp_all add: json_space_def byte_def dquote_def)

lemma dquote_not [simp]:
  "dquote \<noteq> CHR ''{''" "dquote \<noteq> CHR ''[''" "dquote \<noteq> CHR ''}''" "dquote \<noteq> CHR '']''"
  "CHR ''n'' \<noteq> dquote" "CHR ''t'' \<noteq> dquote" "CHR ''f'' \<noteq> dquote"
  by (simp_all add: dquote_def)

lemma p_value_num:
  assumes "wf_num x" "delim t"
  shows "p_value (Suc n) (x @ t) = Some (JNum x, t)"
proof -
  obtain c r where x: "x = c # r" and c: "c = CHR ''-'' \<or> is_digit c" using wf_num_head [OF assms(1)] .
  have "\<not> json_space c" "c \<noteq> CHR ''{''" "c \<noteq> CHR ''[''" "c \<noteq> dquote" "c \<noteq> CHR ''t''" "c \<noteq> CHR ''f''"
    "c \<noteq> CHR ''n''"
    using c by (auto simp: json_space_def is_digit_def byte_def dquote_def)
  then show ?thesis using p_num_delim [OF assms] by (simp add: x)
qed

lemma p_print:
  "wf_json j \<Longrightarrow> need j \<le> n \<Longrightarrow> delim t \<Longrightarrow> p_value n (json_print j @ t) = Some (esc_json j, t)"
  "xs \<noteq> [] \<Longrightarrow> list_all wf_json xs \<Longrightarrow> sum_list (map (\<lambda>x. Suc (need x)) xs) \<le> n \<Longrightarrow>
     p_elems n (print_elems xs @ t) = Some (map esc_json xs, t)"
  "m \<noteq> [] \<Longrightarrow> list_all (\<lambda>(k, v). wf_lit k \<and> wf_json v) m \<Longrightarrow>
     sum_list (map (\<lambda>(k, v). Suc (need v)) m) \<le> n \<Longrightarrow>
     p_members n (print_members m @ t) = Some (map (\<lambda>(k, v). (html_escape k, esc_json v)) m, t)"
proof (induction j and xs and m arbitrary: n t and n t and n t rule: json_print_print_elems_print_members.induct)
  case 1
  then show ?case by (cases n) (simp_all add: p_lit_def has_prefix_def)
next
  case (2 b)
  then show ?case by (cases n) (simp_all add: p_lit_def has_prefix_def)
next
  case (3 x)
  then show ?case by (cases n) (simp_all add: p_value_num del: p_value.simps(2))
next
  case (4 r)
  then show ?case by (cases n) (simp_all add: print_str_def p_str_complete wf_lit_html_escape)
next
  case (5 xs)
  then obtain n' where n: "n = Suc n'" by (cases n) auto
  show ?case
  proof (cases xs)
    case (Cons x xs')
    with 5 obtain c r where "json_print x = c # r" "\<not> json_space c" "c \<noteq> CHR '']''"
      by (auto elim: json_print_head)
    with 5 n Cons show ?thesis by simp
  qed (simp add: n)
next
  case (6 m)
  then obtain n' where n: "n = Suc n'" by (cases n) auto
  show ?case
  proof (cases m)
    case (Cons kv m')
    with 6 n show ?thesis by (cases kv) (simp add: print_str_def)
  qed (simp add: n)
next
  case (8 x xs)
  then obtain n' where n: "n = Suc n'" by (cases n) auto
  with 8 show ?case by (cases "xs = []") simp_all
next
  case (10 k v m)
  then obtain n' where n: "n = Suc n'" by (cases n) auto
  with 10 show ?case
    by (cases "m = []") (simp_all add: print_str_def p_str_complete wf_lit_html_escape)
qed simp_all

lemma json_depth_esc [simp]: "json_depth (esc_json j) = json_depth j"
proof (induction j rule: json_depth.induct)
  case (1 xs)
  then have "map (json_depth \<circ> esc_json) xs = map json_depth xs" by simp
  then show ?case by (simp only: esc_json.simps json_depth.simps list.map_comp)
next
  case (2 m)
  then have "map ((\<lambda>(k, v). json_depth v) \<circ> (\<lambda>(k, v). (html_escape k, esc_json v))) m =
    map (\<lambda>(k, v). json_depth v) m" by auto
  then show ?case by (simp only: esc_json.simps json_depth.simps list.map_comp)
qed simp_all

theorem json_parse_print:
  assumes "wf_json j" "json_depth j \<le> 10000"
  shows "json_parse (json_print j) = Some (esc_json j)"
  using p_print(1) [OF assms(1), of "2 * length (json_print j) + 2" "[]"] need_le_length(1) [OF assms(1)] assms(2)
  by (simp add: json_parse_def skip_ws_def)

section \<open>The scanner yields well-formed trees\<close>

lemma digit_run:
  "list_all is_digit (takeWhile is_digit s)"
  by (induction s) auto

lemma span_digits:
  assumes "list_all is_digit ds" "takeWhile is_digit y = []"
  shows "takeWhile is_digit (ds @ y) = ds" "dropWhile is_digit (ds @ y) = y"
  using assms by (induction ds) (auto simp: takeWhile_eq_Nil_iff dropWhile_eq_self_iff)

lemma span_digits_only:
  assumes "list_all is_digit ds"
  shows "takeWhile is_digit ds = ds" "dropWhile is_digit ds = []"
  using span_digits [OF assms, of "[]"] by simp_all

lemma p_exp_sound:
  assumes "p_exp acc s = Some (a, r)"
  obtains y where "a = acc @ y" "\<And>acc'. p_exp acc' y = Some (acc' @ y, [])"
proof (cases s)
  case Nil
  with assms that show ?thesis by (auto simp: p_exp_def)
next
  case (Cons e s')
  show ?thesis
  proof (cases "e = CHR ''e'' \<or> e = CHR ''E''")
    case True
    define sg where "sg = (if has_prefix s' ''+'' \<or> has_prefix s' ''-'' then [hd s'] else [])"
    define ds where "ds = takeWhile is_digit (drop (length sg) s')"
    from True assms Cons have a: "ds \<noteq> []" "a = acc @ e # sg @ ds"
      by (auto simp: p_exp_def Let_def simp flip: sg_def ds_def split: if_splits)
    have sg: "sg = [] \<or> sg = ''+'' \<or> sg = ''-''"
      by (cases s') (auto simp: sg_def has_prefix_def)
    have la: "list_all is_digit ds" using digit_run by (simp add: ds_def)
    have nd: "\<not> has_prefix ds ''+''" "\<not> has_prefix ds ''-''" using a(1) la
      by (cases ds; auto simp: has_prefix_def is_digit_def byte_def)+
    have "p_exp acc' (e # sg @ ds) = Some (acc' @ e # sg @ ds, [])" for acc'
    proof -
      have "(if has_prefix (sg @ ds) ''+'' \<or> has_prefix (sg @ ds) ''-'' then [hd (sg @ ds)] else []) = sg"
        using sg nd by (auto simp: has_prefix_def)
      then show ?thesis unfolding p_exp_def Let_def
        using True a(1) by (simp add: span_digits_only [OF la])
    qed
    with a that show ?thesis by blast
  next
    case False
    with assms Cons have "a = acc" by (simp add: p_exp_def)
    with that [of "[]"] show ?thesis by (simp add: p_exp_def)
  qed
qed

lemma p_frac_sound:
  assumes "p_frac acc s = Some (a, r)"
  obtains y where "a = acc @ y" "\<And>acc'. p_frac acc' y = Some (acc' @ y, [])"
    "takeWhile is_digit y = []"
proof (cases "has_prefix s ''.''")
  case True
  define ds where "ds = takeWhile is_digit (tl s)"
  from True assms have ds: "ds \<noteq> []"
    and p: "p_exp (acc @ CHR ''.'' # ds) (dropWhile is_digit (tl s)) = Some (a, r)"
    by (auto simp: p_frac_def Let_def ds_def split: if_splits)
  from p obtain y where y: "a = (acc @ CHR ''.'' # ds) @ y" "\<And>acc'. p_exp acc' y = Some (acc' @ y, [])"
    by (rule p_exp_sound) blast
  have "takeWhile is_digit y = []"
    using y(2) [of "[]"] by (cases y) (auto simp: p_exp_def is_digit_def byte_def split: if_splits)
  then have yt: "takeWhile is_digit (ds @ y) = ds" "dropWhile is_digit (ds @ y) = y"
    using span_digits [of ds y] digit_run by (simp_all add: ds_def)
  have "p_frac acc' (CHR ''.'' # ds @ y) = Some (acc' @ CHR ''.'' # ds @ y, [])" for acc'
    using ds y(2) by (simp add: p_frac_def has_prefix_def yt)
  with that [of "CHR ''.'' # ds @ y"] y(1) show ?thesis by (simp add: is_digit_def byte_def)
next
  case False
  with assms have "p_exp acc s = Some (a, r)" by (simp add: p_frac_def)
  then obtain y where y: "a = acc @ y" "\<And>acc'. p_exp acc' y = Some (acc' @ y, [])"
    by (rule p_exp_sound) blast
  have h: "takeWhile is_digit y = []" "\<not> has_prefix y ''.''"
    using y(2) [of "[]"]
    by (cases y; auto simp: p_exp_def is_digit_def byte_def has_prefix_def split: if_splits)+
  with that [of y] y show ?thesis by (simp add: p_frac_def)
qed

lemma p_num_sound:
  assumes "p_num s = Some (x, r)"
  shows "wf_num x"
proof -
  define sg where "sg = (if has_prefix s ''-'' then ''-'' else [])"
  from assms obtain c r1 where s1: "drop (length sg) s = c # r1" and
    c: "c = CHR ''0'' \<and> p_frac (sg @ [c]) r1 = Some (x, r) \<or>
        c \<noteq> CHR ''0'' \<and> is_digit c \<and>
        p_frac (sg @ takeWhile is_digit (c # r1)) (dropWhile is_digit (c # r1)) = Some (x, r)"
    by (auto simp: p_num_def Let_def simp flip: sg_def split: list.splits if_splits)
  define ds where "ds = (if c = CHR ''0'' then [c] else takeWhile is_digit (c # r1))"
  have ds: "ds \<noteq> []" "hd ds = c" "is_digit c" "list_all is_digit ds"
    using c digit_run [of "c # r1"] by (auto simp: ds_def is_digit_def byte_def)
  have "\<exists>s2. p_frac (sg @ ds) s2 = Some (x, r)" using c by (auto simp: ds_def)
  then obtain y where y: "x = (sg @ ds) @ y" "\<And>acc'. p_frac acc' y = Some (acc' @ y, [])"
    "takeWhile is_digit y = []" by (auto elim: p_frac_sound)
  have sg: "sg = [] \<or> sg = ''-''" by (simp add: sg_def)
  have nd: "\<not> has_prefix (ds @ y) ''-''" using ds by (cases ds) (auto simp: has_prefix_def is_digit_def byte_def)
  then have psg: "(if has_prefix x ''-'' then ''-'' else []) = sg" "drop (length sg) x = ds @ y"
    using sg y(1) by (auto simp: has_prefix_def)
  show ?thesis
  proof (cases "c = CHR ''0''")
    case True
    then show ?thesis unfolding wf_num_def p_num_def Let_def psg
      using y(1) y(2) [of "sg @ [c]"] by (simp add: ds_def)
  next
    case False
    obtain ds' where d: "ds = c # ds'" using ds(1,2) by (cases ds) auto
    show ?thesis unfolding wf_num_def p_num_def Let_def psg
      using False ds(3) y(1) y(2) [of "sg @ ds"] span_digits [OF ds(4) y(3)] by (simp add: d)
  qed
qed

lemma p_sound:
  "p_value n s = Some (j, r) \<Longrightarrow> wf_json j"
  "p_elems n s = Some (xs, r) \<Longrightarrow> list_all wf_json xs"
  "p_members n s = Some (m, r) \<Longrightarrow> list_all (\<lambda>(k, v). wf_lit k \<and> wf_json v) m"
proof (induction n s and n s and n s arbitrary: j r and xs r and m r
    rule: p_value_p_elems_p_members.induct)
  case (2 n s)
  from "2.prems" obtain c r0 where s: "skip_ws s = c # r0" by (auto split: list.splits)
  consider (obj) d r' m where "c = CHR ''{''" "skip_ws r0 = d # r'" "d \<noteq> CHR ''}''"
      "p_members n (d # r') = Some (m, r)" "j = JObj m"
    | (arr) d r' xs where "c \<noteq> CHR ''{''" "c = CHR ''[''" "skip_ws r0 = d # r'" "d \<noteq> CHR '']''"
      "p_elems n (d # r') = Some (xs, r)" "j = JArr xs"
    | (str) x where "p_str r0 = Some (x, r)" "j = JStr x"
    | (num) x where "p_num (c # r0) = Some (x, r)" "j = JNum x"
    | (leaf) "wf_json j"
    using "2.prems" s by (auto simp: p_lit_def split: list.splits if_splits)
  then show ?case
  proof cases
    case obj
    then show ?thesis using "2.IH"(1) [OF s obj(1-4)] by simp
  next
    case arr
    then show ?thesis using "2.IH"(2) [OF s arr(1-5)] by simp
  qed (auto dest: p_str_sound p_num_sound)
next
  case (4 n s)
  from "4.prems" obtain v r0 where v: "p_value n s = Some (v, r0)" by (auto split: option.splits)
  have wf: "wf_json v" by (rule "4.IH"(1) [OF v])
  consider (more) r' vs where "skip_ws r0 = CHR '','' # r'" "p_elems n r' = Some (vs, r)" "xs = v # vs"
    | (last) "xs = [v]"
    using "4.prems" v by (auto split: list.splits if_splits)
  then show ?case
  proof cases
    case more
    then show ?thesis using wf "4.IH"(2) [OF v refl more(1) refl more(2)] by simp
  qed (simp add: wf)
next
  case (6 n s)
  from "6.prems" obtain s1 k s2 s3 v r0 where
    s: "skip_ws s = dquote # s1" "p_str s1 = Some (k, s2)" "skip_ws s2 = CHR '':'' # s3"
    and v: "p_value n s3 = Some (v, r0)"
    by (auto split: list.splits if_splits option.splits)
  have q: "\<not> dquote \<noteq> dquote" "\<not> CHR '':'' \<noteq> CHR '':''" by simp_all
  have wf: "wf_lit k" "wf_json v"
    using p_str_sound [OF s(2)] "6.IH"(1) [OF s(1) q(1) s(2) refl s(3) q(2) v] by simp_all
  consider (more) r' m' where "skip_ws r0 = CHR '','' # r'" "p_members n r' = Some (m', r)" "m = (k, v) # m'"
    | (last) "m = [(k, v)]"
    using "6.prems" s v by (auto split: list.splits if_splits)
  then show ?case
  proof cases
    case more
    then show ?thesis
      using wf "6.IH"(2) [OF s(1) q(1) s(2) refl s(3) q(2) v refl more(1) refl more(2)] by simp
  qed (simp add: wf)
qed simp_all

theorem json_parse_wf: "json_parse s = Some j \<Longrightarrow> wf_json j \<and> json_depth j \<le> 10000"
  by (auto simp: json_parse_def simp del: p_value.simps split: option.splits if_splits dest: p_sound(1))

end
