(* ===== verification/GoJsonCodec.thy ===== *)
theory GoJsonCodec
  imports GoJsonFacts GoTime "HOL-Library.Multiset" "HOL-Library.List_Lexorder" "HOL-Library.Char_ord"
begin

text \<open>
  How \<open>json.Unmarshal\<close> fills Go values from a tree and how \<open>json.Marshal\<close> builds one. A
  decoder takes the value that is already there, as Go's does: an object member overwrites
  one field and leaves the rest, \<open>null\<close> leaves a scalar alone, keys match a field name
  exactly or up to case (ASCII), members without a field are ignored, and a later duplicate
  overwrites an earlier one. \<open>None\<close> is a decoding error. (Go goes on after a type mismatch
  and returns the error at the end; every caller drops the value then.)
\<close>

section \<open>Decoders\<close>

type_synonym 'a dec = "json \<Rightarrow> 'a \<Rightarrow> 'a option"

fun dec_string :: "string dec" where
  "dec_string JNull s = Some s"
| "dec_string (JStr r) s = Some (unquote r)"
| "dec_string _ s = None"

fun dec_int :: "int dec" where
  "dec_int JNull x = Some x"
| "dec_int (JNum l) x = parse_int l"
| "dec_int _ x = None"

fun dec_bool :: "bool dec" where
  "dec_bool JNull b = Some b"
| "dec_bool (JBool b') b = Some b'"
| "dec_bool _ b = None"

text \<open>\<open>time.Time\<close> reads the raw text between the quotes.\<close>

fun dec_time :: "gtime dec" where
  "dec_time JNull t = Some t"
| "dec_time (JStr r) t = parse_rfc3339 r"
| "dec_time _ t = None"

text \<open>A \<open>*T\<close>: \<open>null\<close> gives nil, anything else decodes into the pointee.\<close>

definition dec_ptr :: "'a \<Rightarrow> 'a dec \<Rightarrow> 'a ptr dec" where
  "dec_ptr zero d j p =
     (if j = JNull then Some None
      else map_option Some (d j (case p of None \<Rightarrow> zero | Some x \<Rightarrow> x)))"

text \<open>
  A \<open>[]T\<close>: \<open>null\<close> gives nil; the elements of an array decode over the elements the slice
  had. A slice is \<open>None\<close> when it is nil.
\<close>

type_synonym 'a slice = "'a list option"

definition elems :: "'a slice \<Rightarrow> 'a list" where
  "elems s = (case s of None \<Rightarrow> [] | Some xs \<Rightarrow> xs)"

fun dec_elems :: "'a \<Rightarrow> 'a dec \<Rightarrow> json list \<Rightarrow> 'a list \<Rightarrow> 'a list option" where
  "dec_elems zero d [] old = Some []"
| "dec_elems zero d (j # js) old =
     (case d j (case old of [] \<Rightarrow> zero | x # _ \<Rightarrow> x) of
        None \<Rightarrow> None
      | Some x \<Rightarrow> map_option (Cons x) (dec_elems zero d js (tl old)))"

definition dec_slice :: "'a \<Rightarrow> 'a dec \<Rightarrow> 'a slice dec" where
  "dec_slice zero d j s =
     (case j of
        JNull \<Rightarrow> Some None
      | JArr js \<Rightarrow> map_option Some (dec_elems zero d js (elems s))
      | _ \<Rightarrow> None)"

text \<open>A \<open>json.RawMessage\<close> takes the member's text, \<open>null\<close> included; \<open>None\<close> is the empty one.\<close>

definition dec_raw :: "json option dec" where
  "dec_raw j r = Some (Some j)"

text \<open>Structs: a table of field names and decoders.\<close>

type_synonym 'a fields = "(string \<times> 'a dec) list"

definition fld :: "string \<Rightarrow> ('a \<Rightarrow> 'b) \<Rightarrow> (('b \<Rightarrow> 'b) \<Rightarrow> 'a \<Rightarrow> 'a) \<Rightarrow> 'b dec \<Rightarrow> string \<times> 'a dec" where
  "fld n get upd d = (n, \<lambda>j a. map_option (\<lambda>v. upd (\<lambda>_. v) a) (d j (get a)))"

definition find_field :: "'a fields \<Rightarrow> string \<Rightarrow> 'a dec option" where
  "find_field fs k =
     (case map_of fs k of
        Some d \<Rightarrow> Some d
      | None \<Rightarrow> map_of (map (\<lambda>(n, d). (fold_name n, d)) fs) (fold_name k))"

fun dec_members :: "'a fields \<Rightarrow> (string \<times> json) list \<Rightarrow> 'a \<Rightarrow> 'a option" where
  "dec_members fs [] a = Some a"
| "dec_members fs ((k, v) # m) a =
     (case find_field fs (unquote k) of
        None \<Rightarrow> dec_members fs m a
      | Some d \<Rightarrow> Option.bind (d v a) (dec_members fs m))"

fun dec_struct :: "'a fields \<Rightarrow> 'a dec" where
  "dec_struct fs JNull a = Some a"
| "dec_struct fs (JObj m) a = dec_members fs m a"
| "dec_struct fs _ a = None"

definition unmarshal :: "'a dec \<Rightarrow> 'a \<Rightarrow> bytes \<Rightarrow> 'a option" where
  "unmarshal d zero b = (case json_parse b of None \<Rightarrow> None | Some j \<Rightarrow> d j zero)"

section \<open>Encoders\<close>

definition enc_string :: "string \<Rightarrow> json" where
  "enc_string s = JStr (quote s)"

definition enc_int :: "int \<Rightarrow> json" where
  "enc_int x = JNum (show_int x)"

text \<open>A struct's members in declaration order; a Go map's sorted by key.\<close>

definition enc_members :: "(string \<times> json) list \<Rightarrow> json" where
  "enc_members kvs = JObj (map (\<lambda>(k, v). (quote k, v)) kvs)"

definition enc_map :: "(string \<times> json) list \<Rightarrow> json" where
  "enc_map kvs = enc_members (sort_key fst kvs)"

text \<open>A slice is \<open>null\<close> when it is nil.\<close>

definition enc_slice :: "('a \<Rightarrow> json) \<Rightarrow> 'a slice \<Rightarrow> json" where
  "enc_slice e s = (case s of None \<Rightarrow> JNull | Some xs \<Rightarrow> JArr (map e xs))"

section \<open>Decoding does not see how a raw message was compacted\<close>

definition esc_inv :: "'a dec \<Rightarrow> bool" where
  "esc_inv d \<longleftrightarrow> (\<forall>j a. wf_json j \<longrightarrow> d (esc_json j) a = d j a)"

named_theorems esc_invs \<open>decoders that do not see how a raw message was compacted\<close>

lemma esc_invD: "esc_inv d \<Longrightarrow> wf_json j \<Longrightarrow> d (esc_json j) a = d j a"
  by (simp add: esc_inv_def)

lemma esc_inv_string [esc_invs]: "esc_inv dec_string"
  unfolding esc_inv_def
proof (intro allI impI)
  fix j a assume "wf_json j" then show "dec_string (esc_json j) a = dec_string j a"
    by (cases j) (simp_all add: unquote_html_escape)
qed

lemma esc_inv_int [esc_invs]: "esc_inv dec_int"
  unfolding esc_inv_def
proof (intro allI impI)
  fix j a assume "wf_json j" then show "dec_int (esc_json j) a = dec_int j a" by (cases j) simp_all
qed

lemma esc_inv_bool [esc_invs]: "esc_inv dec_bool"
  unfolding esc_inv_def
proof (intro allI impI)
  fix j a assume "wf_json j" then show "dec_bool (esc_json j) a = dec_bool j a" by (cases j) simp_all
qed

lemma esc_json_null [simp]: "esc_json j = JNull \<longleftrightarrow> j = JNull"
  by (cases j) simp_all

lemma esc_inv_ptr [esc_invs]: "esc_inv d \<Longrightarrow> esc_inv (dec_ptr zero d)"
  by (simp add: esc_inv_def dec_ptr_def)

lemma dec_elems_esc:
  "esc_inv d \<Longrightarrow> list_all wf_json js \<Longrightarrow> dec_elems zero d (map esc_json js) old = dec_elems zero d js old"
  by (induction js arbitrary: old) (simp_all add: esc_invD split: option.splits list.splits)

lemma esc_inv_slice [esc_invs]: "esc_inv d \<Longrightarrow> esc_inv (dec_slice zero d)"
  unfolding esc_inv_def [of "dec_slice zero d"]
proof (intro allI impI)
  fix j a assume d: "esc_inv d" and "wf_json j"
  then show "dec_slice zero d (esc_json j) a = dec_slice zero d j a"
    by (cases j) (simp_all add: dec_slice_def dec_elems_esc)
qed

subsection \<open>Times\<close>

definition time_char :: "char \<Rightarrow> bool" where
  "time_char c \<longleftrightarrow> is_digit c \<or> c \<in> set ''-:.TZ+''"

lemma time_char_not_special:
  assumes "time_char c"
  shows "c \<noteq> backslash" "\<not> html_char c" "byte c \<noteq> 226"
  using assms by (auto simp: time_char_def is_digit_def byte_def backslash_def)

lemma html_escape_time: "list_all time_char r \<Longrightarrow> html_escape r = r"
proof (induction r)
  case (Cons c r)
  then have "time_char c" by simp
  note n = time_char_not_special [OF this]
  show ?case unfolding html_escape_plain [OF n(2,3)] using Cons by simp
qed simp

lemma not_time_backslash: "\<not> list_all time_char (backslash # s)"
  using time_char_not_special(1) by auto

lemma time_html_escape: "list_all time_char (html_escape r) \<Longrightarrow> html_escape r = r"
proof (induction r rule: measure_induct_rule [where f = length])
  case (less r)
  show ?case
  proof (cases r)
    case (Cons c s)
    have "\<not> html_char c"
    proof
      assume "html_char c"
      then have "html_escape r = backslash # tl (escape_byte c) @ html_escape s"
        using html_escape_special [of c s] Cons by (simp add: escape_byte_def)
      with less.prems not_time_backslash show False by simp
    qed
    moreover have "\<not> line_sep (c # s)"
    proof
      assume "line_sep (c # s)"
      then obtain c1 c2 t where s: "s = c1 # c2 # t" by (cases "c # s" rule: line_sep.cases) auto
      have "html_escape r = backslash # tl (escape_sep c2) @ html_escape t"
        using html_escape_sep [of c c1 c2 t] \<open>line_sep (c # s)\<close> by (simp add: Cons s escape_sep_def)
      with less.prems not_time_backslash show False by simp
    qed
    ultimately have e: "html_escape r = c # html_escape s" using html_escape_other Cons by simp
    with less.prems have "list_all time_char (html_escape s)" by simp
    then show ?thesis using less.IH [of s] e Cons by simp
  qed simp
qed

lemma dec_val_digits: "dec_val s = Some n \<Longrightarrow> list_all is_digit s"
  by (auto simp: dec_val_def split: if_splits)

lemma parse_uint_digits: "parse_uint s lo hi = Some n \<Longrightarrow> list_all is_digit s"
  by (auto simp: parse_uint_def split: option.splits if_splits dest: dec_val_digits)

lemma time_char_digit: "is_digit c \<Longrightarrow> time_char c"
  by (simp add: time_char_def)

lemma time_char_punct [simp]:
  "time_char (CHR ''-'')" "time_char (CHR '':'')" "time_char (CHR ''.'')" "time_char (CHR ''T'')"
  "time_char (CHR ''Z'')" "time_char (CHR ''+'')"
  by (simp_all add: time_char_def)

text \<open>The character at position \<open>k\<close> belongs to a time if a field or a separator covers it.\<close>

lemma sub_digit:
  assumes "parse_uint (sub s i n) lo hi = Some v" "i \<le> k" "k < i + n" "k < length s"
  shows "time_char (s ! k)"
proof -
  have "list_all is_digit (sub s i n)" by (rule parse_uint_digits [OF assms(1)])
  moreover have "k - i < length (sub s i n)" "sub s i n ! (k - i) = s ! k"
    using assms(2-4) by (auto simp: sub_def)
  ultimately have "is_digit (s ! k)" by (metis list_all_length)
  then show ?thesis by (rule time_char_digit)
qed

lemma at_char: "at s k c \<Longrightarrow> time_char c \<Longrightarrow> time_char (s ! k)"
  by (simp add: at_def)

lemma parse_zone_chars:
  assumes "parse_zone s = Some z" shows "list_all time_char s"
proof (cases "s = ''Z''")
  case False
  with assms have l: "length s = 6" and a: "at s 0 CHR ''-'' \<or> at s 0 CHR ''+''" "at s 3 CHR '':''"
    by (simp_all add: parse_zone_def split: if_splits)
  from assms False obtain h m where u: "parse_uint (sub s 1 2) 0 23 = Some h" "parse_uint (sub s 4 2) 0 59 = Some m"
    by (simp add: parse_zone_def split: if_splits option.splits)
  have "time_char (s ! k)" if "k < 6" for k
  proof -
    have "k = 0 \<or> k = 3 \<or> 1 \<le> k \<and> k < 1 + 2 \<or> 4 \<le> k \<and> k < 4 + 2" using that by linarith
    then consider "k = 0" | "k = 3" | "1 \<le> k \<and> k < 1 + 2" | "4 \<le> k \<and> k < 4 + 2" by blast
    then show ?thesis
      using a at_char sub_digit [OF u(1), of k] sub_digit [OF u(2), of k] l that by cases auto
  qed
  with l show ?thesis by (simp add: list_all_length)
qed simp

lemma takeWhile_digits_time: "list_all time_char (takeWhile is_digit s)"
  using digit_run [of s] by (induction s) (auto simp: time_char_digit)

lemma parse_rfc3339_chars:
  assumes "parse_rfc3339 s = Some t" shows "list_all time_char s"
proof -
  from assms have l: "19 \<le> length s"
    and a: "at s 4 CHR ''-''" "at s 7 CHR ''-''" "at s 10 CHR ''T''" "at s 13 CHR '':''" "at s 16 CHR '':''"
    by (simp_all add: parse_rfc3339_def split: if_splits)
  define r where "r = drop 19 s"
  define fr where "fr = (2 \<le> length r \<and> at r 0 CHR ''.'' \<and> is_digit (r ! 1))"
  from assms l a obtain y mo where u1: "parse_uint (sub s 0 4) 0 9999 = Some y" "parse_uint (sub s 5 2) 1 12 = Some mo"
    by (simp add: parse_rfc3339_def split: option.splits)
  from assms l a u1 obtain d h mi se where
    u2: "parse_uint (sub s 8 2) 1 (days_in y (nat mo)) = Some d" "parse_uint (sub s 11 2) 0 23 = Some h"
      "parse_uint (sub s 14 2) 0 59 = Some mi" "parse_uint (sub s 17 2) 0 59 = Some se"
    by (simp add: parse_rfc3339_def split: option.splits)
  note u = u1 u2
  from assms l a u1 u2 obtain z where z: "parse_zone (if fr then dropWhile is_digit (tl r) else r) = Some z"
    by (simp add: parse_rfc3339_def Let_def fr_def flip: r_def split: option.splits)
  have hd: "time_char (s ! k)" if "k < 19" for k
  proof -
    have "k = 4 \<or> k = 7 \<or> k = 10 \<or> k = 13 \<or> k = 16 \<or> k < 0 + 4 \<or> 5 \<le> k \<and> k < 5 + 2
      \<or> 8 \<le> k \<and> k < 8 + 2 \<or> 11 \<le> k \<and> k < 11 + 2 \<or> 14 \<le> k \<and> k < 14 + 2 \<or> 17 \<le> k \<and> k < 17 + 2"
      using that by linarith
    then consider "k = 4" | "k = 7" | "k = 10" | "k = 13" | "k = 16" | "k < 0 + 4" | "5 \<le> k \<and> k < 5 + 2"
      | "8 \<le> k \<and> k < 8 + 2" | "11 \<le> k \<and> k < 11 + 2" | "14 \<le> k \<and> k < 14 + 2" | "17 \<le> k \<and> k < 17 + 2"
      by blast
    then show ?thesis
      using that l at_char [OF a(1)] at_char [OF a(2)] at_char [OF a(3)] at_char [OF a(4)] at_char [OF a(5)]
        sub_digit [OF u(1), of k] sub_digit [OF u(2), of k] sub_digit [OF u(3), of k]
        sub_digit [OF u(4), of k] sub_digit [OF u(5), of k] sub_digit [OF u(6), of k]
      by cases simp_all
  qed
  have "list_all time_char r"
  proof (cases fr)
    case True
    then obtain w where r: "r = CHR ''.'' # w" by (cases r) (auto simp: fr_def at_def)
    have "list_all time_char (takeWhile is_digit w @ dropWhile is_digit w)"
      unfolding list_all_append using z True takeWhile_digits_time [of w] parse_zone_chars by (simp add: r)
    then show ?thesis by (simp add: r)
  qed (use z parse_zone_chars in auto)
  moreover have "list_all time_char (take 19 s)" using hd l by (simp add: list_all_length)
  ultimately have "list_all time_char (take 19 s @ drop 19 s)" unfolding list_all_append r_def by simp
  then show ?thesis by simp
qed

lemma parse_rfc3339_escape: "parse_rfc3339 (html_escape r) = parse_rfc3339 r"
proof (cases "html_escape r = r")
  case False
  then have "\<not> list_all time_char r" "\<not> list_all time_char (html_escape r)"
    using html_escape_time time_html_escape by blast+
  then show ?thesis using parse_rfc3339_chars by (metis not_Some_eq)
qed simp

lemma esc_inv_time [esc_invs]: "esc_inv dec_time"
  unfolding esc_inv_def
proof (intro allI impI)
  fix j a assume "wf_json j" then show "dec_time (esc_json j) a = dec_time j a"
    by (cases j) (simp_all add: parse_rfc3339_escape)
qed

subsection \<open>Structs\<close>

lemma esc_inv_fld [esc_invs]: "esc_inv d \<Longrightarrow> esc_inv (snd (fld n get upd d))"
  by (simp add: esc_inv_def fld_def)

lemma map_of_all: "map_of fs k = Some d \<Longrightarrow> list_all (\<lambda>(n, d). P d) fs \<Longrightarrow> P d"
  by (induction fs) (auto split: if_splits)

lemma find_field_all:
  assumes "find_field fs k = Some d" "list_all (\<lambda>(n, d). P d) fs" shows "P d"
proof -
  have "list_all (\<lambda>(n, d). P d) (map (\<lambda>(n, d). (fold_name n, d)) fs)"
    using assms(2) by (induction fs) auto
  with assms map_of_all [where P = P] show ?thesis
    by (auto simp: find_field_def split: option.splits)
qed

lemma dec_members_esc:
  assumes "list_all (\<lambda>(n, d). esc_inv d) fs" "list_all (\<lambda>(k, v). wf_lit k \<and> wf_json v) m"
  shows "dec_members fs (map (\<lambda>(k, v). (html_escape k, esc_json v)) m) a = dec_members fs m a"
  using assms(2)
proof (induction m arbitrary: a)
  case (Cons kv m)
  then show ?case
    by (cases kv) (auto simp: unquote_html_escape esc_invD dest: find_field_all [OF _ assms(1)]
        split: option.split intro!: Option.bind_cong)
qed simp

lemma esc_inv_struct [esc_invs]:
  assumes "list_all (\<lambda>(n, d). esc_inv d) fs" shows "esc_inv (dec_struct fs)"
  unfolding esc_inv_def
proof (intro allI impI)
  fix j a assume "wf_json j" then show "dec_struct fs (esc_json j) a = dec_struct fs j a"
    by (cases j) (simp_all add: dec_members_esc [OF assms])
qed

text \<open>A compacted document decodes to what the document itself decodes to.\<close>

lemma unmarshal_print:
  assumes "wf_json j" "json_depth j \<le> 10000" "esc_inv d"
  shows "unmarshal d zero (json_print j) = d j zero"
  using assms by (simp add: unmarshal_def json_parse_print esc_invD)

subsection \<open>The order of a struct's members\<close>

text \<open>
  Decoders of different fields do not see each other, so the members of a struct can be
  reordered as long as no two of them name the same field.
\<close>

definition dec_commute :: "'a dec \<Rightarrow> 'a dec \<Rightarrow> bool" where
  "dec_commute d1 d2 \<longleftrightarrow>
     (\<forall>v w a. Option.bind (d1 v a) (d2 w) = Option.bind (d2 w a) (d1 v))"

lemma dec_commute_sym: "dec_commute d1 d2 \<Longrightarrow> dec_commute d2 d1"
  by (simp add: dec_commute_def)

lemma dec_commute_fld:
  assumes "\<And>f a. get1 (upd2 f a) = get1 a" "\<And>f a. get2 (upd1 f a) = get2 a"
    "\<And>f g a. upd1 f (upd2 g a) = upd2 g (upd1 f a)"
  shows "dec_commute (snd (fld n1 get1 upd1 d1)) (snd (fld n2 get2 upd2 d2))"
  unfolding dec_commute_def fld_def
proof (intro allI)
  fix v w a
  show "Option.bind (snd (n1, \<lambda>j a. map_option (\<lambda>v. upd1 (\<lambda>_. v) a) (d1 j (get1 a))) v a)
      (snd (n2, \<lambda>j a. map_option (\<lambda>v. upd2 (\<lambda>_. v) a) (d2 j (get2 a))) w) =
    Option.bind (snd (n2, \<lambda>j a. map_option (\<lambda>v. upd2 (\<lambda>_. v) a) (d2 j (get2 a))) w a)
      (snd (n1, \<lambda>j a. map_option (\<lambda>v. upd1 (\<lambda>_. v) a) (d1 j (get1 a))) v)"
    by (cases "d1 v (get1 a)"; cases "d2 w (get2 a)") (simp_all add: assms)
qed

definition mkey :: "string \<times> json \<Rightarrow> string" where
  "mkey kv = fold_name (unquote (fst kv))"

definition dec_member :: "'a fields \<Rightarrow> string \<times> json \<Rightarrow> 'a \<Rightarrow> 'a option" where
  "dec_member fs kv a = (case find_field fs (unquote (fst kv)) of None \<Rightarrow> Some a | Some d \<Rightarrow> d (snd kv) a)"

lemma dec_members_Cons: "dec_members fs (kv # m) = (\<lambda>a. Option.bind (dec_member fs kv a) (dec_members fs m))"
  by (rule ext, cases kv) (simp add: dec_member_def split: option.split)

lemma dec_members_append:
  "dec_members fs (m @ m') a = Option.bind (dec_members fs m a) (dec_members fs m')"
proof (induction m arbitrary: a)
  case (Cons kv m)
  then have "dec_members fs (m @ m') = (\<lambda>a. Option.bind (dec_members fs m a) (dec_members fs m'))" by auto
  then show ?case by (simp add: dec_members_Cons)
qed simp

locale struct_table =
  fixes fs :: "'a fields"
  assumes distinct_names: "distinct (map (\<lambda>(n, d). fold_name n) fs)"
    and commute: "(n1, d1) \<in> set fs \<Longrightarrow> (n2, d2) \<in> set fs \<Longrightarrow> fold_name n1 \<noteq> fold_name n2 \<Longrightarrow> dec_commute d1 d2"
begin

lemma map_of_folded:
  "map_of (map (\<lambda>(n, d). (fold_name n, d)) fs) k = Some d \<longleftrightarrow> (\<exists>n. (n, d) \<in> set fs \<and> fold_name n = k)"
proof -
  have "map fst (map (\<lambda>(n, d). (fold_name n, d)) fs) = map (\<lambda>(n, d). fold_name n) fs" by auto
  with distinct_names have "distinct (map fst (map (\<lambda>(n, d). (fold_name n, d)) fs))" by metis
  then have "map_of (map (\<lambda>(n, d). (fold_name n, d)) fs) k = Some d \<longleftrightarrow>
      (k, d) \<in> set (map (\<lambda>(n, d). (fold_name n, d)) fs)"
    by (rule map_of_eq_Some_iff)
  then show ?thesis by auto
qed

lemma find_folded:
  "find_field fs k = map_of (map (\<lambda>(n, d). (fold_name n, d)) fs) (fold_name k)"
proof (cases "map_of fs k")
  case (Some d)
  then have "(k, d) \<in> set fs" by (rule map_of_SomeD)
  then have "map_of (map (\<lambda>(n, d). (fold_name n, d)) fs) (fold_name k) = Some d"
    using map_of_folded by blast
  with Some show ?thesis by (simp add: find_field_def)
qed (simp add: find_field_def)

lemma find_name: "(n, d) \<in> set fs \<Longrightarrow> find_field fs n = Some d"
  using find_folded map_of_folded by metis

lemma find_none:
  assumes "fold_name k \<notin> set (map (\<lambda>(n, d). fold_name n) fs)"
  shows "find_field fs k = None"
proof (cases "find_field fs k")
  case (Some d)
  then obtain n where "(n, d) \<in> set fs" "fold_name n = fold_name k"
    unfolding find_folded map_of_folded by blast
  with assms show ?thesis by force
qed simp

lemma member_commute:
  assumes "mkey kv \<noteq> mkey kw"
  shows "Option.bind (dec_member fs kv a) (dec_member fs kw) = Option.bind (dec_member fs kw a) (dec_member fs kv)"
proof (cases "find_field fs (unquote (fst kv))")
  case d1: (Some d1)
  show ?thesis
  proof (cases "find_field fs (unquote (fst kw))")
    case d2: (Some d2)
    from d1 d2 obtain n1 n2 where "(n1, d1) \<in> set fs" "fold_name n1 = mkey kv"
      "(n2, d2) \<in> set fs" "fold_name n2 = mkey kw"
      unfolding find_folded map_of_folded mkey_def by blast
    with assms have "dec_commute d1 d2" using commute by metis
    moreover have "dec_member fs kv = d1 (snd kv)" "dec_member fs kw = d2 (snd kw)"
      using d1 d2 by (auto simp: dec_member_def)
    ultimately show ?thesis by (simp add: dec_commute_def)
  next
    case None
    then have "dec_member fs kw = Some" by (auto simp: dec_member_def)
    then show ?thesis by simp
  qed
next
  case None
  then have "dec_member fs kv = Some" by (auto simp: dec_member_def)
  then show ?thesis by simp
qed

lemma members_move:
  "mkey kv \<notin> mkey ` set m \<Longrightarrow>
   dec_members fs (m @ kv # m') a = dec_members fs (kv # m @ m') a"
proof (induction m arbitrary: a)
  case (Cons kw m)
  then have "dec_members fs (m @ kv # m') = (\<lambda>a. Option.bind (dec_member fs kv a) (dec_members fs (m @ m')))"
    by (auto simp: dec_members_Cons)
  then have "dec_members fs ((kw # m) @ kv # m') a =
      Option.bind (Option.bind (dec_member fs kw a) (dec_member fs kv)) (dec_members fs (m @ m'))"
    by (simp add: dec_members_Cons)
  also have "\<dots> = Option.bind (Option.bind (dec_member fs kv a) (dec_member fs kw)) (dec_members fs (m @ m'))"
    using Cons.prems member_commute [of kw kv a] by (metis imageI list.set_intros(1))
  finally show ?case by (simp add: dec_members_Cons)
qed simp

lemma members_perm:
  assumes "mset m = mset m'" "distinct (map mkey m)"
  shows "dec_members fs m a = dec_members fs m' a"
  using assms
proof (induction m arbitrary: m' a)
  case (Cons kv m)
  then have "kv \<in> set m'" by (metis list.set_intros(1) mset_eq_setD)
  then obtain u w where m': "m' = u @ kv # w" by (meson split_list)
  with Cons.prems have eq: "mset m = mset (u @ w)" by simp
  then have "set u \<subseteq> set m" by (metis mset_eq_setD set_append Un_upper1)
  with Cons.prems(2) have "mkey kv \<notin> mkey ` set u" by auto
  then have "dec_members fs m' a = dec_members fs (kv # u @ w) a" unfolding m' by (rule members_move)
  moreover have "dec_members fs m = dec_members fs (u @ w)" using Cons.IH [OF eq] Cons.prems(2) by auto
  ultimately show ?case by (simp add: dec_members_Cons)
qed simp

end

end
