(* ===== verification/GoJsonEncode.thy ===== *)
theory GoJsonEncode
  imports GoJsonCodec
begin

text \<open>
  What \<open>json.Marshal\<close> writes reads back: the trees the encoders build are well-formed, already
  HTML-safe and shallow, so printing and parsing one gives the same tree. \<open>parse_encoded\<close> is
  what the component theories use; \<open>enc_safe\<close> collects the facts about the encoders.
\<close>

section \<open>Quoted strings are HTML-safe\<close>

lemma html_escape_cont_list: "list_all cont w \<Longrightarrow> html_escape (w @ s) = w @ html_escape s"
  by (induction w) (simp_all add: html_escape_cont)

lemma html_escape_escape_byte: "html_escape (escape_byte c @ s) = escape_byte c @ html_escape s"
proof -
  have h: "is_hex (CHR ''0'')" "is_hex (hex_digit (byte c div 16))" "is_hex (hex_digit (byte c mod 16))"
    by (simp_all add: is_hex_def)
  show ?thesis by (simp add: escape_byte_def h)
qed

lemma html_escape_escape_sep: "html_escape (escape_sep c @ s) = escape_sep c @ html_escape s"
  by (simp add: escape_sep_def is_hex_def hex_val_def byte_def)

lemma html_escape_ascii: "byte c < 128 \<Longrightarrow> html_escape (quote_ascii c @ s) = quote_ascii c @ html_escape s"
  by (simp add: quote_ascii_def Let_def html_escape_escape_byte short_escape_def html_escape_plain)

lemma html_escape_multi:
  assumes "128 \<le> byte c" "utf8_len (c # s) = Suc n" "\<not> line_sep (c # s)"
  shows "html_escape (c # take n s @ t) = c # take n s @ html_escape t"
proof -
  have "\<not> html_char c" using assms(1) by (auto simp: byte_def)
  moreover have "\<not> line_sep (c # take n s @ t)"
  proof
    assume l: "line_sep (c # take n s @ t)"
    then have "byte c = 226" by (auto simp: line_sep_conv)
    moreover from this obtain c1 c2 u where s: "s = c1 # c2 # u"
      using assms(2) by (cases "c # s" rule: utf8_len.cases; cases "tl s") (auto simp: Let_def split: if_splits)
    ultimately have "n = 2" using assms(2) by (auto simp: Let_def split: if_splits)
    with l assms(3) s show False by (simp add: eval_nat_numeral)
  qed
  ultimately have "html_escape (c # take n s @ t) = c # html_escape (take n s @ t)" by (rule html_escape_other)
  with utf8_len_cont [OF assms(2)] show ?thesis by (simp add: html_escape_cont_list)
qed

lemma html_escape_quote [simp]: "html_escape (quote s) = quote s"
proof (induction s rule: measure_induct_rule [where f = length])
  case (less s)
  show ?case
  proof (cases s)
    case (Cons c t)
    have fffd: "html_escape (backslash # ''ufffd'' @ w) = backslash # ''ufffd'' @ html_escape w" for w
      by (simp add: is_hex_def hex_val_def byte_def)
    consider "byte c < 128" | "128 \<le> byte c" "line_sep s" | "128 \<le> byte c" "\<not> line_sep s" "utf8_len s = 0"
      | n where "128 \<le> byte c" "\<not> line_sep s" "utf8_len s = Suc n"
      by (metis linorder_not_less not0_implies_Suc)
    then show ?thesis
    proof cases
      case 1
      with Cons less show ?thesis by (simp add: quote.simps(2) html_escape_ascii)
    next
      case 2
      with Cons less show ?thesis by (simp add: quote.simps(2) html_escape_escape_sep)
    next
      case 3
      with Cons less [of t] fffd [of "quote t"] show ?thesis by (simp add: quote.simps(2))
    next
      case 4
      with Cons less [of "drop n t"] html_escape_multi [of c t n] show ?thesis by (simp add: quote.simps(2))
    qed
  qed simp
qed

section \<open>Integers\<close>

lemma digit_not_exp: "is_digit c \<Longrightarrow> c \<noteq> CHR ''.'' \<and> c \<noteq> CHR ''e'' \<and> c \<noteq> CHR ''E'' \<and> c \<noteq> CHR ''-''"
  by (auto simp: is_digit_def byte_def)

lemma p_frac_Nil [simp]: "p_frac acc [] = Some (acc, [])"
  by (simp add: p_frac_def p_exp_def has_prefix_def)

lemma digit_char_zero: "d < 10 \<Longrightarrow> digit_char d = CHR ''0'' \<Longrightarrow> d = 0"
proof -
  assume d: "d < 10" "digit_char d = CHR ''0''"
  then have "digit_val (digit_char d) = digit_val (CHR ''0'')" by simp
  moreover have "digit_val (CHR ''0'') = 0" by (simp add: digit_val_def byte_def)
  ultimately show "d = 0" using d(1) by simp
qed

lemma show_dec_small: "n < 10 \<Longrightarrow> show_dec n = [digit_char (nat n)]"
  using show_dec.simps [of n] by (rule trans) (rule if_P)

lemma show_dec_large: "\<not> n < 10 \<Longrightarrow> show_dec n = show_dec (n div 10) @ [digit_char (nat (n mod 10))]"
  using show_dec.simps [of n] by (rule trans) (rule if_not_P)

lemma show_dec_head: "0 < n \<Longrightarrow> hd (show_dec n) \<noteq> CHR ''0''"
proof (induction n rule: show_dec.induct)
  case (1 n)
  show ?case
  proof (cases "n < 10")
    case True
    then have "nat n < 10" "nat n \<noteq> 0" using 1(2) by linarith+
    then have "digit_char (nat n) \<noteq> CHR ''0''" using digit_char_zero [OF \<open>nat n < 10\<close>] by (elim contrapos_nn)
    then show ?thesis by (simp add: show_dec_small [OF True])
  next
    case False
    with 1 have "hd (show_dec (n div 10)) \<noteq> CHR ''0''" by simp
    then show ?thesis by (simp add: show_dec_large [OF False])
  qed
qed

lemma p_num_digits:
  assumes "list_all is_digit (c # r)" "c = CHR ''0'' \<Longrightarrow> r = []" "sg = [] \<or> sg = ''-''"
  shows "p_num (sg @ c # r) = Some (sg @ c # r, [])"
proof -
  from assms(1) have d: "is_digit c" "\<forall>x \<in> set r. is_digit x" by (simp_all add: list_all_iff)
  then have span: "takeWhile is_digit (c # r) = c # r" "dropWhile is_digit (c # r) = []"
    by (auto simp: takeWhile_eq_all_conv)
  have "has_prefix (sg @ c # r) ''-'' \<longleftrightarrow> sg = ''-''"
    using assms(3) digit_not_exp [OF d(1)] by (auto simp: has_prefix_def)
  with assms(2,3) d(1) show ?thesis
    unfolding p_num_def by (auto simp: Let_def span simp del: takeWhile.simps dropWhile.simps)
qed

lemma show_dec_form:
  assumes "0 \<le> n"
  obtains c r where "show_dec n = c # r" "list_all is_digit (c # r)" "c = CHR ''0'' \<Longrightarrow> r = []"
proof -
  obtain c r where cr: "show_dec n = c # r" by (cases "show_dec n") auto
  have "r = []" if "c = CHR ''0''"
  proof -
    have "\<not> 0 < n" using show_dec_head [of n] that cr by auto
    with assms have "n = 0" by simp
    with cr show ?thesis by (simp add: show_dec_small)
  qed
  with that cr show_dec_digits [OF assms] show ?thesis by metis
qed

lemma wf_num_show_int [simp]: "wf_num (show_int x)"
proof -
  obtain c r where cr: "show_dec \<bar>x\<bar> = c # r" "list_all is_digit (c # r)" "c = CHR ''0'' \<Longrightarrow> r = []"
    using show_dec_form [OF abs_ge_zero] by metis
  have "show_int x = (if x < 0 then ''-'' else []) @ c # r" using cr(1) by (cases "x < 0") (simp_all add: show_int_def)
  then show ?thesis using p_num_digits [OF cr(2,3), of "''-''"] p_num_digits [OF cr(2,3), of "[]"] by (simp add: wf_num_def)
qed

section \<open>Encoded trees\<close>

text \<open>Well-formed and already compact: printing it escapes nothing.\<close>

definition enc_ok :: "json \<Rightarrow> bool" where
  "enc_ok j \<longleftrightarrow> wf_json j \<and> esc_json j = j"

named_theorems enc_safe \<open>the encoders build well-formed compact trees\<close>

lemma enc_ok_null [enc_safe]: "enc_ok JNull"
  by (simp add: enc_ok_def)

lemma enc_ok_bool [enc_safe]: "enc_ok (JBool b)"
  by (simp add: enc_ok_def)

lemma enc_ok_string [enc_safe]: "enc_ok (enc_string s)"
  by (simp add: enc_ok_def enc_string_def)

lemma enc_ok_int [enc_safe]: "enc_ok (enc_int x)"
  by (simp add: enc_ok_def enc_int_def)

lemma enc_ok_arr [enc_safe]: "list_all enc_ok js \<Longrightarrow> enc_ok (JArr js)"
  by (auto simp: enc_ok_def list_all_iff intro!: map_idI)

lemma enc_ok_slice [enc_safe]: "(\<And>x. enc_ok (e x)) \<Longrightarrow> enc_ok (enc_slice e s)"
  by (auto simp: enc_slice_def list_all_iff enc_safe split: option.split intro!: enc_ok_arr)

lemma enc_ok_members [enc_safe]: "list_all (\<lambda>(k, v). enc_ok v) kvs \<Longrightarrow> enc_ok (enc_members kvs)"
  by (auto simp: enc_ok_def enc_members_def list_all_iff)

lemma list_all_sort_key [simp]: "list_all P (sort_key f xs) = list_all P xs"
  by (simp add: list_all_iff)

lemma enc_ok_map [enc_safe]: "list_all (\<lambda>(k, v). enc_ok v) kvs \<Longrightarrow> enc_ok (enc_map kvs)"
  unfolding enc_map_def by (rule enc_ok_members) simp

lemma time_chars_wf_lit: "list_all time_char s \<Longrightarrow> wf_lit s"
proof (induction s)
  case (Cons c s)
  then have "time_char c" by simp
  then have "32 \<le> byte c" "c \<noteq> dquote" "c \<noteq> backslash"
    by (auto simp: time_char_def is_digit_def byte_def dquote_def backslash_def)
  with Cons show ?case by (simp add: wf_lit_plain_iff)
qed auto

lemma enc_ok_time [enc_safe]: "list_all time_char s \<Longrightarrow> enc_ok (JStr s)"
  by (simp add: enc_ok_def html_escape_time time_chars_wf_lit)

theorem parse_encoded:
  "enc_ok j \<Longrightarrow> json_depth j \<le> 10000 \<Longrightarrow> json_parse (json_print j) = Some j"
  using json_parse_print [of j] by (simp add: enc_ok_def)

end
