(* ===== verification/GoUtf8.thy ===== *)
theory GoUtf8
  imports GoJsonFacts
begin

text \<open>
  What Go decodes from a string literal is well-formed UTF-8 (\<open>valid_utf8_unquote\<close>): invalid
  bytes and lone surrogates come out as U+FFFD. So a decoded string survives being written and
  read again.
\<close>

lemma second_char: "second_ok b (char_of (128 + n)) \<longleftrightarrow>
    (b = 224 \<longrightarrow> 32 \<le> n) \<and> (b = 237 \<longrightarrow> n \<le> 31) \<and> (b = 240 \<longrightarrow> 16 \<le> n) \<and> (b = 244 \<longrightarrow> n \<le> 15)"
  if "n < 64" for n :: nat
proof -
  have "byte (char_of (128 + n)) = 128 + n" using that by simp
  with that show ?thesis unfolding second_ok_def cont_def by auto
qed

lemma cont_char: "n < 64 \<Longrightarrow> cont (char_of (128 + n :: nat))"
  by (simp add: cont_def)

lemma valid_utf8_seq:
  assumes "128 \<le> byte c" "utf8_len (c # w @ s) = Suc (length w)"
  shows "valid_utf8 (c # w @ s) = valid_utf8 s"
  using assms by (simp add: valid_utf8.simps(2))

lemma utf8_rune_valid:
  assumes "r < 1114112" "\<not> (55296 \<le> r \<and> r < 57344)"
  shows "valid_utf8 (utf8_rune r @ s) = valid_utf8 s"
proof -
  consider "r < 128" | "128 \<le> r" "r < 2048" | "2048 \<le> r" "r < 65536" | "65536 \<le> r" by linarith
  then show ?thesis
  proof cases
    case 1
    then show ?thesis by (simp add: utf8_rune_def valid_utf8.simps(2))
  next
    case 2
    then have b: "2 \<le> r div 64" "r div 64 < 32" by linarith+
    have "utf8_rune r = char_of (192 + r div 64) # [char_of (128 + r mod 64)]" using 2 by (simp add: utf8_rune_def)
    moreover have "utf8_len (char_of (192 + r div 64) # [char_of (128 + r mod 64)] @ s) = Suc (length [char_of (128 + r mod 64)])"
      using b by (simp add: second_char Let_def)
    ultimately show ?thesis using valid_utf8_seq [of "char_of (192 + r div 64)" "[char_of (128 + r mod 64)]" s] b by simp
  next
    case 3
    define a where "a = r div 4096"
    define m where "m = r div 64 mod 64"
    have q: "r div 64 = 64 * a + m" "m < 64"
      using div_mult2_eq [of r 64 64] unfolding a_def m_def by simp_all
    have "32 \<le> r div 64" "r div 64 < 1024" "r div 64 < 864 \<or> 896 \<le> r div 64" using 3 assms(2) by linarith+
    with q have a: "a < 16" "a = 0 \<Longrightarrow> 32 \<le> m" "a = 13 \<Longrightarrow> m \<le> 31" "m < 64" by linarith+
    let ?w = "[char_of (128 + m), char_of (128 + r mod 64)]"
    have "utf8_rune r = char_of (224 + a) # ?w" using 3 by (simp add: utf8_rune_def a_def m_def)
    moreover have "utf8_len (char_of (224 + a) # ?w @ s) = Suc (length ?w)"
      using a by (auto simp: second_char cont_char Let_def)
    ultimately show ?thesis using valid_utf8_seq [of "char_of (224 + a)" ?w s] a(1) by simp
  next
    case 4
    define a where "a = r div 262144"
    define m where "m = r div 4096 mod 64"
    have q: "r div 4096 = 64 * a + m" "m < 64"
      using div_mult2_eq [of r 4096 64] unfolding a_def m_def by simp_all
    have "16 \<le> r div 4096" "r div 4096 < 272" using 4 assms(1) by linarith+
    with q have a: "a < 5" "a = 0 \<Longrightarrow> 16 \<le> m" "a = 4 \<Longrightarrow> m \<le> 15" "m < 64" by linarith+
    let ?w = "[char_of (128 + m), char_of (128 + r div 64 mod 64), char_of (128 + r mod 64)]"
    have "utf8_rune r = char_of (240 + a) # ?w" using 4 by (simp add: utf8_rune_def a_def m_def)
    moreover have "utf8_len (char_of (240 + a) # ?w @ s) = Suc (length ?w)"
      using a by (auto simp: second_char cont_char Let_def)
    ultimately show ?thesis using valid_utf8_seq [of "char_of (240 + a)" ?w s] a(1) by simp
  qed
qed

lemma hex4_less:
  assumes "is_hex a" "is_hex b" "is_hex c" "is_hex d" shows "hex4 a b c d < 65536"
proof -
  have v: "the (hex_val x) < 16" if "is_hex x" for x
    using that by (auto simp: is_hex_def hex_val_def Let_def split: if_splits)
  from v [OF assms(1)] v [OF assms(2)] v [OF assms(3)] v [OF assms(4)] show ?thesis by (simp add: hex4_def)
qed

lemma rune_error_valid: "valid_utf8 (rune_error @ s) = valid_utf8 s"
  unfolding rune_error_def by (rule utf8_rune_valid) simp_all

lemma unescape_ascii: "short_escape e \<Longrightarrow> byte (unescape e) < 128"
proof -
  have "\<forall>e \<in> {dquote, backslash, CHR ''/'', CHR ''b'', CHR ''f'', CHR ''n'', CHR ''r'', CHR ''t''}. byte (unescape e) < 128"
    by code_simp
  then show "short_escape e \<Longrightarrow> byte (unescape e) < 128" unfolding short_escape_def by blast
qed

lemma valid_utf8_take:
  assumes "128 \<le> byte c" "utf8_len (c # s) = Suc n"
  shows "valid_utf8 (c # take n s @ t) = valid_utf8 t"
  using utf8_len_take [OF assms(2), of t] assms(1) valid_utf8_seq [of c "take n s" t] by simp

theorem valid_utf8_unquote: "wf_lit r \<Longrightarrow> valid_utf8 (unquote r)"
proof (induction r rule: measure_induct_rule [where f = length])
  case (less r)
  from less.prems show ?case
  proof cases
    case (short e s)
    then have "e \<noteq> CHR ''u''" by auto
    with short less.IH [of s] unescape_ascii [of e] show ?thesis by (simp add: unquote_short valid_utf8.simps(2))
  next
    case (uni h1 h2 h3 h4 s)
    note h = hex4_less [OF uni(2-5)]
    have s: "valid_utf8 (unquote s)" using less.IH uni by simp
    have "valid_utf8 (utf8_rune ((hex4 h1 h2 h3 h4 - 55296) * 1024 + (x - 56320) + 65536) @ unquote s')"
      if l: "low_surrogate s = Some (x, s')" "hex4 h1 h2 h3 h4 < 56320" for x s'
    proof -
      have "wf_lit s'" "x < 57344" using uni(6) l(1)
        by (cases s rule: low_surrogate.cases; auto split: if_splits elim: wf_lit.cases)+
      with less.IH [of s'] uni low_surrogate_length [OF l(1)] have "valid_utf8 (unquote s')" by simp
      with \<open>x < 57344\<close> l(2) show ?thesis by (subst utf8_rune_valid) auto
    qed
    with s h show ?thesis
      unfolding uni(1) by (auto simp: unquote_uni Let_def rune_error_valid utf8_rune_valid split: option.splits)
  next
    case (plain c s)
    show ?thesis
    proof (cases "byte c < 128")
      case True
      with plain less.IH [of s] show ?thesis by (simp add: unquote_plain valid_utf8.simps(2))
    next
      case False
      show ?thesis
      proof (cases "utf8_len (c # s)")
        case 0
        with False plain less.IH [of s] show ?thesis by (simp add: unquote_bad rune_error_valid)
      next
        case (Suc n)
        with plain have "wf_lit (drop n s)" by (auto intro: wf_lit_multi)
        with Suc False plain less.IH [of "drop n s"] show ?thesis by (simp add: unquote_multi valid_utf8_take)
      qed
    qed
  qed simp
qed

end
