(* ===== verification/GoJsonStruct.thy ===== *)
theory GoJsonStruct
  imports GoJsonEncode GoUtf8
begin

text \<open>
  Facts about decoding into structs that the services share: which values a decoder can yield
  (\<open>yields\<close>), which part of a struct a field leaves alone (\<open>keeps\<close>), and that decoding one
  field of a document by itself gives what decoding the whole struct gives
  (\<open>members_project\<close> of the locale \<open>struct_table\<close>).
\<close>

section \<open>The values a decoder yields\<close>

definition yields :: "('a \<Rightarrow> bool) \<Rightarrow> 'a dec \<Rightarrow> bool" where
  "yields P d \<longleftrightarrow> (\<forall>j a x. wf_json j \<longrightarrow> P a \<longrightarrow> d j a = Some x \<longrightarrow> P x)"

named_theorems yield_rules \<open>what the decoders yield\<close>

lemma yieldsD: "yields P d \<Longrightarrow> wf_json j \<Longrightarrow> P a \<Longrightarrow> d j a = Some x \<Longrightarrow> P x"
  by (auto simp: yields_def)

lemma yields_string [yield_rules]: "yields valid_utf8 dec_string"
  unfolding yields_def
proof (intro allI impI)
  fix j a x assume "wf_json j" "valid_utf8 a" "dec_string j a = Some x"
  then show "valid_utf8 x" by (cases j) (auto intro: valid_utf8_unquote)
qed

lemma yields_int [yield_rules]: "yields in64 dec_int"
  unfolding yields_def
proof (intro allI impI)
  fix j a x assume "wf_json j" "in64 a" "dec_int j a = Some x"
  then show "in64 x" by (cases j) (auto intro: parse_int_in64)
qed

lemma yields_bool [yield_rules]: "yields (\<lambda>_. True) dec_bool"
  by (simp add: yields_def)

lemma dec_elems_yields:
  assumes "yields P d" "P zero"
  shows "list_all wf_json js \<Longrightarrow> list_all P old \<Longrightarrow> dec_elems zero d js old = Some xs \<Longrightarrow> list_all P xs"
proof (induction js arbitrary: old xs)
  case (Cons j js)
  let ?x0 = "case old of [] \<Rightarrow> zero | x # _ \<Rightarrow> x"
  from Cons.prems(3) obtain x ys where x: "d j ?x0 = Some x" "dec_elems zero d js (tl old) = Some ys" "xs = x # ys"
    by (auto split: option.splits)
  have "P ?x0" using assms(2) Cons.prems(2) by (cases old) auto
  then have "P x" using yieldsD [OF assms(1) _ _ x(1)] Cons.prems(1) by simp
  moreover have "list_all P (tl old)" using Cons.prems(2) by (cases old) auto
  ultimately show ?case using Cons.IH [OF _ _ x(2)] Cons.prems(1) x(3) by simp
qed simp

lemma elems_simps [simp]: "elems None = []" "elems (Some xs) = xs"
  by (simp_all add: elems_def)

lemma yields_slice [yield_rules]:
  assumes "yields P d" "P zero" shows "yields (\<lambda>s. list_all P (elems s)) (dec_slice zero d)"
  unfolding yields_def
proof (intro allI impI)
  fix j s x assume "wf_json j" "list_all P (elems s)" "dec_slice zero d j s = Some x"
  then show "list_all P (elems x)"
    using dec_elems_yields [OF assms] by (cases j) (auto simp: dec_slice_def)
qed

lemma yields_fld [yield_rules]:
  assumes "yields Q d" "\<And>a. P a \<Longrightarrow> Q (get a)" "\<And>a v. P a \<Longrightarrow> Q v \<Longrightarrow> P (upd (\<lambda>_. v) a)"
  shows "yields P (snd (fld n get upd d))"
  unfolding yields_def
proof (intro allI impI)
  fix j a x assume j: "wf_json j" "P a" "snd (fld n get upd d) j a = Some x"
  then obtain v where v: "d j (get a) = Some v" "x = upd (\<lambda>_. v) a" by (auto simp: fld_def map_option_eq_Some)
  have "Q v" by (rule yieldsD [OF assms(1) j(1) assms(2) [OF j(2)] v(1)])
  with v(2) assms(3) j(2) show "P x" by simp
qed

lemma dec_members_yields:
  assumes "list_all (\<lambda>f. yields P (snd f)) fs"
  shows "list_all (\<lambda>(k, v). wf_lit k \<and> wf_json v) m \<Longrightarrow> P a \<Longrightarrow> dec_members fs m a = Some x \<Longrightarrow> P x"
proof (induction m arbitrary: a)
  case (Cons kv m)
  obtain k v where kv: "kv = (k, v)" by fastforce
  show ?case
  proof (cases "find_field fs (unquote k)")
    case None
    with Cons kv show ?thesis by simp
  next
    case (Some d)
    have "yields P d" by (rule find_field_all [OF Some]) (use assms in \<open>simp add: list_all_iff split_def\<close>)
    from Cons.prems(3) kv Some obtain b where b: "d v a = Some b" "dec_members fs m b = Some x"
      by (auto simp: bind_eq_Some_conv)
    with yieldsD [OF \<open>yields P d\<close> _ Cons.prems(2) b(1)] Cons.prems(1) kv have "P b" by simp
    with Cons.IH b(2) Cons.prems(1) show ?thesis by simp
  qed
qed simp

lemma yields_struct [yield_rules]:
  assumes "list_all (\<lambda>f. yields P (snd f)) fs" shows "yields P (dec_struct fs)"
  unfolding yields_def
proof (intro allI impI)
  fix j a x assume "wf_json j" "P a" "dec_struct fs j a = Some x"
  then show "P x" using dec_members_yields [OF assms] by (cases j) auto
qed

section \<open>Tables of record fields\<close>

text \<open>A table whose fields pairwise commute; checking it is one step per pair of fields.\<close>

lemma struct_tableI:
  assumes "distinct (map (\<lambda>(n, d). fold_name n) fs)" "sorted_wrt (\<lambda>p q. dec_commute (snd p) (snd q)) fs"
  shows "struct_table fs"
proof
  show "distinct (map (\<lambda>(n, d). fold_name n) fs)" by (rule assms(1))
  fix n1 d1 n2 d2 assume m: "(n1, d1) \<in> set fs" "(n2, d2) \<in> set fs" "fold_name n1 \<noteq> fold_name n2"
  then obtain i k where ik: "i < length fs" "fs ! i = (n1, d1)" "k < length fs" "fs ! k = (n2, d2)"
    by (metis in_set_conv_nth)
  with m(3) have "i < k \<or> k < i" by (metis linorder_neqE_nat prod.inject)
  with assms(2) ik show "dec_commute d1 d2"
    using dec_commute_sym by (metis snd_conv sorted_wrt_nth_less)
qed

lemma fst_fld [simp]: "fst (fld n get upd d) = n"
  by (simp add: fld_def)

lemma fld_lower [simp]: "(case fld n get upd d of (n, d) \<Rightarrow> fold_name n) = fold_name n"
  by (simp add: fld_def)

text \<open>What a field leaves alone.\<close>

definition keeps :: "('a \<Rightarrow> 'b) \<Rightarrow> 'a dec \<Rightarrow> bool" where
  "keeps g d \<longleftrightarrow> (\<forall>j a x. d j a = Some x \<longrightarrow> g x = g a)"

lemma keeps_fld: "(\<And>f a. g (upd f a) = g a) \<Longrightarrow> keeps g (snd (fld n get upd d))"
  by (auto simp: keeps_def fld_def)

definition only_field :: "string \<Rightarrow> 'a dec \<Rightarrow> 'a dec" where
  "only_field n d = dec_struct [fld n (\<lambda>x. x) (\<lambda>f. f) d]"

lemma find_only: "find_field [fld n (\<lambda>x. x) (\<lambda>f. f) d] k = (if fold_name k = fold_name n then Some (\<lambda>j a. d j a) else None)"
  by (auto simp: find_field_def fld_def map_option.identity)

context struct_table
begin

lemma find_cases:
  assumes "find_field fs k = Some d"
  obtains n where "(n, d) \<in> set fs" "fold_name n = fold_name k"
  using assms unfolding find_folded map_of_folded by blast

lemma members_keep:
  assumes "\<And>n d. (n, d) \<in> set fs \<Longrightarrow> fold_name n \<noteq> x \<Longrightarrow> keeps g d"
  shows "x \<notin> mkey ` set m \<Longrightarrow> dec_members fs m a = Some a' \<Longrightarrow> g a' = g a"
proof (induction m arbitrary: a)
  case (Cons kv m)
  obtain k v where kv: "kv = (k, v)" by fastforce
  show ?case
  proof (cases "find_field fs (unquote k)")
    case (Some d)
    then obtain n where n: "(n, d) \<in> set fs" "fold_name n = fold_name (unquote k)" by (rule find_cases)
    with Cons.prems(1) kv have "keeps g d" using assms [OF n(1)] by (auto simp: mkey_def)
    from Cons.prems(2) kv Some obtain b where b: "d v a = Some b" "dec_members fs m b = Some a'"
      by (auto simp: bind_eq_Some_conv)
    with \<open>keeps g d\<close> Cons.IH [OF _ b(2)] Cons.prems(1) show ?thesis by (simp add: keeps_def)
  qed (use Cons kv in simp)
qed simp

text \<open>One field of the document, decoded by itself.\<close>

lemma members_project:
  assumes "\<And>n' d'. (n', d') \<in> set fs \<Longrightarrow> fold_name n' \<noteq> fold_name n \<Longrightarrow> keeps g d'"
    "(n, dn) \<in> set fs" "\<And>j a x. dn j a = Some x \<Longrightarrow> d j (g a) = Some (g x)"
  shows "dec_members fs m a = Some a' \<Longrightarrow> dec_members [fld n (\<lambda>x. x) (\<lambda>f. f) d] m (g a) = Some (g a')"
proof (induction m arbitrary: a)
  case (Cons kv m)
  obtain k v where kv: "kv = (k, v)" by fastforce
  show ?case
  proof (cases "find_field fs (unquote k)")
    case None
    have "fold_name (unquote k) \<noteq> fold_name n"
    proof
      assume "fold_name (unquote k) = fold_name n"
      with None find_name [OF assms(2)] show False by (simp add: find_folded)
    qed
    with Cons kv None show ?thesis by (simp add: find_only)
  next
    case (Some d')
    then obtain n' where n': "(n', d') \<in> set fs" "fold_name n' = fold_name (unquote k)" by (rule find_cases)
    from Cons.prems kv Some obtain b where b: "d' v a = Some b" "dec_members fs m b = Some a'"
      by (auto simp: bind_eq_Some_conv)
    show ?thesis
    proof (cases "fold_name n' = fold_name n")
      case True
      then have "d' = dn" using Some n'(2) find_name [OF assms(2)] by (simp add: find_folded)
      with assms(3) b(1) have "d v (g a) = Some (g b)" by simp
      with Cons.IH [OF b(2)] kv n'(2) True show ?thesis by (simp add: find_only)
    next
      case False
      with assms(1) [OF n'(1)] b(1) have "g b = g a" by (simp add: keeps_def)
      with Cons.IH [OF b(2)] kv n'(2) False show ?thesis by (simp add: find_only)
    qed
  qed
qed simp

lemma struct_project:
  assumes "\<And>n' d'. (n', d') \<in> set fs \<Longrightarrow> fold_name n' \<noteq> fold_name n \<Longrightarrow> keeps g d'"
    "(n, dn) \<in> set fs" "\<And>j a x. dn j a = Some x \<Longrightarrow> d j (g a) = Some (g x)" "dec_struct fs j a = Some a'"
  shows "only_field n d j (g a) = Some (g a')"
proof (cases j)
  case (JObj m)
  with assms(4) have "dec_members fs m a = Some a'" by simp
  then have "dec_members [fld n (\<lambda>x. x) (\<lambda>f. f) d] m (g a) = Some (g a')"
    using assms(1-3) by (intro members_project [where dn = dn])
  with JObj show ?thesis by (simp add: only_field_def)
qed (use assms(4) in \<open>auto simp: only_field_def\<close>)

text \<open>The same for a field of a record, read through a further projection \<open>h\<close>.\<close>

lemma project_fld:
  assumes "list_all (\<lambda>f. fold_name (fst f) \<noteq> fold_name n \<longrightarrow> keeps (\<lambda>a. h (get a)) (snd f)) fs"
    "fld n get upd dn \<in> set fs" "\<And>v a. get (upd (\<lambda>_. v) a) = v"
    "\<And>j b v. dn j b = Some v \<Longrightarrow> d j (h b) = Some (h v)" "dec_struct fs j a = Some a'"
  shows "only_field n d j (h (get a)) = Some (h (get a'))"
proof (rule struct_project [where g = "\<lambda>a. h (get a)" and dn = "snd (fld n get upd dn)"])
  show "keeps (\<lambda>a. h (get a)) d'" if "(n', d') \<in> set fs" "fold_name n' \<noteq> fold_name n" for n' d'
    using assms(1) that by (force simp: list_all_iff)
  show "(n, snd (fld n get upd dn)) \<in> set fs" using assms(2) by (simp add: fld_def)
  show "d j (h (get a)) = Some (h (get x))" if "snd (fld n get upd dn) j a = Some x" for j a x
    using that assms(3,4) by (auto simp: fld_def map_option_eq_Some)
qed (rule assms(5))

end

end
