(* ===== verification/AppAuth.thy ===== *)
theory AppAuth
  imports GoJsonStruct GoCrypto RateLimit
begin

unbundle bit_operations_syntax

text \<open>
  GitHub App authentication (libs/go/githubapp): the credentials and the app JWT (jwt.go) and
  the token source (token.go), as computations that read a clock and exchange HTTP requests.
  PEM, PKCS#1 and PKCS#8 parsing are parameters; the RSA signature is computed.
\<close>

section \<open>HTTP\<close>

text \<open>
  A response's body is what can be read of it before it ends or breaks off: the callers ignore
  the error of \<open>io.ReadAll\<close>. \<open>hr_get\<close> is \<open>Header.Get\<close>.
\<close>

record http_request =
  hq_method :: string
  hq_url :: string
  hq_header :: headers
  hq_body :: bytes

record http_response =
  hr_status :: int
  hr_get :: "string \<Rightarrow> string"
  hr_body :: bytes

text \<open>\<open>io.LimitReader\<close> with a limit in bytes.\<close>

definition limited :: "int \<Rightarrow> bytes \<Rightarrow> bytes" where
  "limited n b = (if int (length b) \<le> n then b else take (nat n) b)"

definition mib :: int where
  "mib = 1048576"

section \<open>jwt.go\<close>

record private_key =
  rk_n :: int
  rk_d :: int

text \<open>What \<open>x509.ParsePKCS8PrivateKey\<close> can find.\<close>

datatype any_key = RSAKey private_key | OtherKey

datatype key_error = ZeroAppID | NoPEMBlock | BadKey | NotRSA

record app_credentials =
  ac_AppID :: int
  ac_privateKey :: private_key

definition parseRSAPrivateKey :: "(bytes \<Rightarrow> bytes option) \<Rightarrow> (bytes \<Rightarrow> private_key option) \<Rightarrow> (bytes \<Rightarrow> any_key option)
    \<Rightarrow> bytes \<Rightarrow> key_error + private_key" where
  "parseRSAPrivateKey pem pkcs1 pkcs8 pemBytes =
     (case pem pemBytes of
        None \<Rightarrow> Inl NoPEMBlock
      | Some block \<Rightarrow>
          (case pkcs1 block of
             Some key \<Rightarrow> Inr key
           | None \<Rightarrow>
               (case pkcs8 block of
                  None \<Rightarrow> Inl BadKey
                | Some (RSAKey key) \<Rightarrow> Inr key
                | Some OtherKey \<Rightarrow> Inl NotRSA)))"

definition NewAppCredentials :: "(bytes \<Rightarrow> bytes option) \<Rightarrow> (bytes \<Rightarrow> private_key option) \<Rightarrow> (bytes \<Rightarrow> any_key option)
    \<Rightarrow> int \<Rightarrow> bytes \<Rightarrow> key_error + app_credentials" where
  "NewAppCredentials pem pkcs1 pkcs8 appID pemBytes =
     (if appID = 0 then Inl ZeroAppID
      else res_bind (parseRSAPrivateKey pem pkcs1 pkcs8 pemBytes)
             (\<lambda>key. Inr \<lparr>ac_AppID = appID, ac_privateKey = key\<rparr>))"

text \<open>
  \<open>rsa.SignPKCS1v15\<close> for SHA-256: the padded digest raised to the private exponent. Keys below
  1024 bits are refused.
\<close>

function pow_mod :: "int \<Rightarrow> int \<Rightarrow> int \<Rightarrow> int" where
  "pow_mod b e n =
     (if e \<le> 0 then 1 mod n
      else let h = pow_mod (b * b mod n) (e div 2) n in if e mod 2 = 1 then b * h mod n else h)"
  by pat_completeness auto
termination
  by (relation "measure (\<lambda>(b, e, n). nat e)") auto

declare pow_mod.simps [simp del]

definition bytes_int :: "bytes \<Rightarrow> int" where
  "bytes_int = foldl (\<lambda>n c. n * 256 + int (byte c)) 0"

fun int_bytes :: "nat \<Rightarrow> int \<Rightarrow> bytes" where
  "int_bytes 0 n = []"
| "int_bytes (Suc k) n = int_bytes k (n div 256) @ [char_of (nat (n mod 256))]"

text \<open>The size in bytes of a modulus.\<close>

function size_bytes :: "int \<Rightarrow> nat" where
  "size_bytes n = (if n \<le> 0 then 0 else Suc (size_bytes (n div 256)))"
  by pat_completeness auto
termination
  by (relation "measure nat") auto

declare size_bytes.simps [simp del]

definition sha256_info :: bytes where
  "sha256_info = map char_of [48, 49, 48, 13, 6, 9, 96, 134, 72, 1, 101, 3, 4, 2, 1, 5, 0, 4, 32 :: nat]"

definition rsa_sign :: "private_key \<Rightarrow> bytes \<Rightarrow> bytes option" where
  "rsa_sign key digest =
     (if rk_n key < 2 ^ 1023 then None
      else
        let k = size_bytes (rk_n key);
            em = map char_of [0, 1 :: nat] @ replicate (k - 54) (char_of (255::nat)) @ [char_of (0::nat)] @ sha256_info @ digest
        in Some (int_bytes k (pow_mod (bytes_int em) (rk_d key) (rk_n key))))"

definition ten_minutes :: int where
  "ten_minutes = 600 * nanos"

definition jwt_header :: json where
  "jwt_header = enc_map [(''alg'', enc_string ''RS256''), (''typ'', enc_string ''JWT'')]"

definition jwt_claims :: "app_credentials \<Rightarrow> gtime \<Rightarrow> int \<Rightarrow> json" where
  "jwt_claims c now ttl =
     enc_map [(''iat'', enc_int (unix_of (time_add now (- 60 * nanos)))),
              (''exp'', enc_int (unix_of (time_add now ttl))), (''iss'', enc_int (ac_AppID c))]"

definition AppJWT :: "app_credentials \<Rightarrow> gtime \<Rightarrow> int \<Rightarrow> string option" where
  "AppJWT c now ttl =
     (let ttl = (if ttl \<le> 0 \<or> ttl > ten_minutes then ten_minutes else ttl);
          signingInput = b64 (json_print jwt_header) @ ''.'' @ b64 (json_print (jwt_claims c now ttl))
      in case rsa_sign (ac_privateKey c) (sha256 signingInput) of
           None \<Rightarrow> None
         | Some sig \<Rightarrow> Some (signingInput @ ''.'' @ b64 sig))"

section \<open>token.go\<close>

record install_token =
  it_Token :: string
  it_ExpiresAt :: gtime
  it_Permissions :: headers

definition expirySkew :: int where
  "expirySkew = 60 * nanos"

definition valid :: "install_token \<Rightarrow> gtime \<Rightarrow> bool" where
  "valid t now \<longleftrightarrow> it_Token t \<noteq> [] \<and> before now (time_add (it_ExpiresAt t) (- expirySkew))"

text \<open>\<open>map[string]string\<close>: a fresh value per member, the last one of a key wins.\<close>

fun dec_map_members :: "(string \<times> json) list \<Rightarrow> headers \<Rightarrow> headers option" where
  "dec_map_members [] h = Some h"
| "dec_map_members ((k, v) # m) h =
     (case dec_string v [] of None \<Rightarrow> None | Some s \<Rightarrow> dec_map_members m (h(unquote k \<mapsto> s)))"

fun dec_string_map :: "headers dec" where
  "dec_string_map JNull h = Some Map.empty"
| "dec_string_map (JObj m) h = dec_map_members m h"
| "dec_string_map _ h = None"

definition zero_token :: install_token where
  "zero_token = \<lparr>it_Token = [], it_ExpiresAt = zero_time, it_Permissions = Map.empty\<rparr>"

definition token_fields :: "install_token fields" where
  "token_fields =
     [fld ''token'' it_Token it_Token_update dec_string,
      fld ''expires_at'' it_ExpiresAt it_ExpiresAt_update dec_time,
      fld ''permissions'' it_Permissions it_Permissions_update dec_string_map]"

text \<open>What the package's operations fail with.\<close>

datatype api_error =
    SignError
  | BadURL
  | TransportError
  | StatusError int bytes
  | DecodeError
  | EmptyToken
  | RateLimitedError resource int
  | GraphQLError "string list"
  | BadRepo string

text \<open>
  The outside world: the clock, what each exchange answers (\<open>None\<close> when it fails), and which
  URLs \<open>net/url\<close> takes. The state: how often the clock was read, the requests sent so far,
  the budgets, and the token cache.
\<close>

record api_env =
  ae_now :: "nat \<Rightarrow> gtime"
  ae_http :: "nat \<Rightarrow> http_request \<Rightarrow> http_response option"
  ae_url_ok :: "string \<Rightarrow> bool"
  ae_creds :: app_credentials
  ae_base :: string

record api_state =
  as_clock :: nat
  as_sent :: "http_request list"
  as_budgets :: registry
  as_cache :: "int \<rightharpoonup> install_token"

type_synonym 'a api = "(api_env, api_state, api_error, 'a) eff"

definition api_now :: "gtime api" where
  "api_now env s = (Inr (ae_now env (as_clock s)), s\<lparr>as_clock := Suc (as_clock s)\<rparr>)"

definition api_send :: "http_request \<Rightarrow> http_response api" where
  "api_send rq env s =
     ((case ae_http env (length (as_sent s)) rq of None \<Rightarrow> Inl TransportError | Some r \<Rightarrow> Inr r),
      s\<lparr>as_sent := as_sent s @ [rq]\<rparr>)"

text \<open>\<open>http.NewRequestWithContext\<close>: only the URL can be refused.\<close>

definition api_request :: "string \<Rightarrow> string \<Rightarrow> headers \<Rightarrow> bytes \<Rightarrow> http_request api" where
  "api_request meth url h body =
     eff_bind (eff_ask ae_url_ok) (\<lambda>ok.
     if ok url then eff_return \<lparr>hq_method = meth, hq_url = url, hq_header = h, hq_body = body\<rparr>
     else eff_fail BadURL)"

definition cached :: "int \<Rightarrow> install_token option api" where
  "cached i env s =
     (case as_cache s i of
        None \<Rightarrow> (Inr None, s)
      | Some tok \<Rightarrow> eff_bind api_now (\<lambda>now. eff_return (if valid tok now then Some tok else None)) env s)"

definition app_jwt :: "string api" where
  "app_jwt =
     eff_bind (eff_ask ae_creds) (\<lambda>creds.
     eff_bind api_now (\<lambda>now.
     case AppJWT creds now ten_minutes of None \<Rightarrow> eff_fail SignError | Some jwt \<Rightarrow> eff_return jwt))"

definition jwt_headers :: "string \<Rightarrow> headers" where
  "jwt_headers jwt =
     [''Authorization'' \<mapsto> ''Bearer '' @ jwt, ''Accept'' \<mapsto> ''application/vnd.github+json'',
      ''X-GitHub-Api-Version'' \<mapsto> ''2022-11-28'']"

definition token_url :: "string \<Rightarrow> int \<Rightarrow> string" where
  "token_url base i = base @ ''/app/installations/'' @ show_int i @ ''/access_tokens''"

definition mint :: "int \<Rightarrow> install_token api" where
  "mint i =
     eff_bind app_jwt (\<lambda>jwt.
     eff_bind (eff_ask ae_base) (\<lambda>base.
     eff_bind (api_request ''POST'' (token_url base i) (jwt_headers jwt) []) (\<lambda>rq.
     eff_bind (api_send rq) (\<lambda>resp.
     let body = limited mib (hr_body resp) in
     if hr_status resp \<noteq> 201 then eff_fail (StatusError (hr_status resp) body)
     else case unmarshal (dec_struct token_fields) zero_token body of
       None \<Rightarrow> eff_fail DecodeError
     | Some out \<Rightarrow> if it_Token out = [] then eff_fail EmptyToken else eff_return out))))"

definition cache_token :: "int \<Rightarrow> install_token \<Rightarrow> unit api" where
  "cache_token i tok env s = (Inr (), s\<lparr>as_cache := (as_cache s)(i \<mapsto> tok)\<rparr>)"

text \<open>
  \<open>Token\<close> for one caller at a time: what it does between waiting for the installation's lock
  and releasing it. Theory TokenLock has the concurrent callers.
\<close>

definition Token :: "int \<Rightarrow> install_token api" where
  "Token i =
     eff_bind (cached i) (\<lambda>c. case c of Some tok \<Rightarrow> eff_return tok | None \<Rightarrow>
     eff_bind (cached i) (\<lambda>c. case c of Some tok \<Rightarrow> eff_return tok | None \<Rightarrow>
     eff_bind (mint i) (\<lambda>tok.
     eff_bind (cache_token i tok) (\<lambda>_. eff_return tok))))"

record installation_info =
  ii_ID :: int
  ii_Account :: string

definition zero_installation_info :: installation_info where
  "zero_installation_info = \<lparr>ii_ID = 0, ii_Account = []\<rparr>"

definition installation_info_fields :: "installation_info fields" where
  "installation_info_fields =
     [fld ''id'' ii_ID ii_ID_update dec_int,
      fld ''account'' ii_Account ii_Account_update
        (only_field ''login'' dec_string)]"

definition ListInstallations :: "installation_info list api" where
  "ListInstallations =
     eff_bind app_jwt (\<lambda>jwt.
     eff_bind (eff_ask ae_base) (\<lambda>base.
     eff_bind (api_request ''GET'' (base @ ''/app/installations?per_page=100'') (jwt_headers jwt) []) (\<lambda>rq.
     eff_bind (api_send rq) (\<lambda>resp.
     let body = limited mib (hr_body resp) in
     if hr_status resp \<noteq> 200 then eff_fail (StatusError (hr_status resp) body)
     else case unmarshal (dec_slice zero_installation_info (dec_struct installation_info_fields)) None body of
       None \<Rightarrow> eff_fail DecodeError
     | Some raw \<Rightarrow> eff_return (elems raw)))))"

section \<open>The app JWT\<close>

lemma jwt_header_text: \<open>json_print jwt_header = ''{"alg":"RS256","typ":"JWT"}''\<close>
  by code_simp

lemma sort_claims: "sort_key fst [(''iat'', a :: json), (''exp'', b), (''iss'', c)] = [(''exp'', b), (''iat'', a), (''iss'', c)]"
  by simp

lemma parse_claims:
  "json_parse (json_print (enc_map [(''iat'', enc_int i), (''exp'', enc_int e), (''iss'', enc_int a)])) =
     Some (JObj [(''exp'', enc_int e), (''iat'', enc_int i), (''iss'', enc_int a)])"
proof -
  have q: "quote ''exp'' = ''exp''" "quote ''iat'' = ''iat''" "quote ''iss'' = ''iss''" by code_simp+
  let ?m = "enc_map [(''iat'', enc_int i), (''exp'', enc_int e), (''iss'', enc_int a)]"
  have m: "?m = JObj [(''exp'', enc_int e), (''iat'', enc_int i), (''iss'', enc_int a)]"
    by (simp add: enc_map_def enc_members_def sort_claims q)
  have "enc_ok ?m" by (intro enc_safe) (simp add: enc_safe)
  moreover have "json_depth ?m \<le> 10000" unfolding m by (simp add: enc_int_def)
  ultimately show ?thesis using parse_encoded unfolding m by blast
qed

text \<open>
  C30. The app JWT is a bearer token as GitHub wants it: three parts of unpadded base64, the
  header naming RS256, the claims of this app issued a minute ago and expiring when the lifetime
  has passed, in whole Unix seconds: the lifetime asked for, or ten minutes when that is longer
  or not positive; and the RSA signature of the SHA-256 of exactly the first two parts. The clock
  reads a time from year 1 on whose seconds fit in 62 bits.
\<close>

theorem AppJWT_claims:
  assumes "AppJWT c now ttl = Some tok" "0 \<le> inst now" "inst now < 2 ^ 62 * nanos"
  shows \<open>\<exists>cl sig expiry. split_on (CHR ''.'') tok = [b64 ''{"alg":"RS256","typ":"JWT"}'', b64 cl, b64 sig] \<and>
    json_parse cl = Some (JObj [(''exp'', enc_int expiry), (''iat'', enc_int (unix_of now - 60)),
                                (''iss'', enc_int (ac_AppID c))]) \<and>
    expiry = (inst now + (if 0 < ttl \<and> ttl \<le> 600 * nanos then ttl else 600 * nanos)) div nanos - unix_epoch_sec \<and>
    unix_of now = inst now div nanos - unix_epoch_sec \<and>
    unix_of now \<le> expiry \<and> expiry \<le> unix_of now + 600 \<and>
    rsa_sign (ac_privateKey c)
      (sha256 (b64 ''{"alg":"RS256","typ":"JWT"}'' @ ''.'' @ b64 cl)) = Some sig\<close>
proof -
  define t where "t = (if ttl \<le> 0 \<or> ttl > ten_minutes then ten_minutes else ttl)"
  have t: "0 < t" "t \<le> 600 * nanos" by (auto simp: t_def ten_minutes_def nanos_def)
  define cl where "cl = json_print (jwt_claims c now t)"
  define expiry where "expiry = unix_of (time_add now t)"
  obtain sig where sig: "rsa_sign (ac_privateKey c) (sha256 (b64 (json_print jwt_header) @ ''.'' @ b64 cl)) = Some sig"
    and tok: "tok = b64 (json_print jwt_header) @ ''.'' @ b64 cl @ ''.'' @ b64 sig"
    using assms(1) unfolding AppJWT_def Let_def by (auto simp: cl_def t_def split: option.splits)
  have sec: "0 \<le> inst now div nanos" "inst now div nanos < 2 ^ 62"
    using assms(2,3) by (simp_all add: nanos_def pos_imp_zdiv_nonneg_iff)
  have late: "inst now div nanos \<le> (inst now + t) div nanos" "(inst now + t) div nanos \<le> inst now div nanos + 600"
    using t zdiv_mono1 [of "inst now" "inst now + t" nanos] zdiv_mono1 [of "inst now + t" "inst now + 600 * nanos" nanos]
    by (simp_all add: nanos_def)
  have now: "unix_of now = inst now div nanos - unix_epoch_sec"
    using sec by (simp add: unix_of_def unix_epoch_sec_def in64_def min64_def max64_def)
  have "(inst now + (- 60) * nanos) div nanos = - 60 + inst now div nanos"
    by (rule div_mult_self1) (simp add: nanos_def)
  then have iat: "unix_of (time_add now (- 60 * nanos)) = unix_of now - 60"
    using sec unfolding now by (simp add: unix_of_def time_add_def unix_epoch_sec_def in64_def min64_def max64_def)
  have "expiry = (inst now + t) div nanos - unix_epoch_sec"
    using sec late by (simp add: expiry_def unix_of_def time_add_def unix_epoch_sec_def in64_def min64_def max64_def)
  with late now have "unix_of now \<le> expiry" "expiry \<le> unix_of now + 600" by simp_all
  moreover have "expiry = (inst now + (if 0 < ttl \<and> ttl \<le> 600 * nanos then ttl else 600 * nanos)) div nanos - unix_epoch_sec"
    unfolding \<open>expiry = (inst now + t) div nanos - unix_epoch_sec\<close> by (simp add: t_def ten_minutes_def nanos_def)
  moreover note now
  moreover have "json_parse cl = Some (JObj [(''exp'', enc_int expiry), (''iat'', enc_int (unix_of now - 60)),
      (''iss'', enc_int (ac_AppID c))])"
    unfolding cl_def jwt_claims_def iat expiry_def by (rule parse_claims)
  moreover have "split_on (CHR ''.'') tok = [b64 (json_print jwt_header), b64 cl, b64 sig]"
    unfolding tok by (simp add: split_on_append split_on_free_self)
  ultimately show ?thesis using sig unfolding jwt_header_text by blast
qed

text \<open>A key with a modulus of 1024 bits and the exponent 3.\<close>

definition sample_key :: private_key where
  "sample_key = \<lparr>rk_n = 2 ^ 1023 + 1155, rk_d = 3\<rparr>"

definition sample_creds :: app_credentials where
  "sample_creds = \<lparr>ac_AppID = 4242, ac_privateKey = sample_key\<rparr>"

lemma rsa_sign_total: "2 ^ 1023 \<le> rk_n key \<Longrightarrow> rsa_sign key digest \<noteq> None"
  unfolding rsa_sign_def Let_def by (simp only: linorder_not_less [symmetric] if_False) simp

lemma AppJWT_total:
  assumes "2 ^ 1023 \<le> rk_n (ac_privateKey c)" shows "AppJWT c now ttl \<noteq> None"
  using rsa_sign_total [OF assms] unfolding AppJWT_def Let_def by (simp only: option.case_eq_if) simp

lemma sample_key_size: "2 ^ 1023 \<le> rk_n (ac_privateKey sample_creds)"
  by (simp add: sample_creds_def sample_key_def)

theorem AppJWT_claims_witness:
  \<open>\<exists>tok cl sig. AppJWT sample_creds (time_unix 1700000000) (60 * nanos) = Some tok \<and>
     split_on (CHR ''.'') tok = [b64 ''{"alg":"RS256","typ":"JWT"}'', b64 cl, b64 sig] \<and>
     json_parse cl = Some (JObj [(''exp'', enc_int 1700000060), (''iat'', enc_int 1699999940), (''iss'', enc_int 4242)])\<close>
proof -
  obtain tok where tok: "AppJWT sample_creds (time_unix 1700000000) (60 * nanos) = Some tok"
    using AppJWT_total [OF sample_key_size] by blast
  have "0 \<le> inst (time_unix 1700000000)" "inst (time_unix 1700000000) < 2 ^ 62 * nanos"
    by (simp_all add: time_unix_def unix_epoch_sec_def nanos_def in64_def min64_def max64_def)
  from AppJWT_claims [OF tok this] obtain cl sig expiry where
    c: \<open>split_on (CHR ''.'') tok = [b64 ''{"alg":"RS256","typ":"JWT"}'', b64 cl, b64 sig]\<close>
    and j: "json_parse cl = Some (JObj [(''exp'', enc_int expiry), (''iat'', enc_int (unix_of (time_unix 1700000000) - 60)),
      (''iss'', enc_int (ac_AppID sample_creds))])"
    and e: "expiry = (inst (time_unix 1700000000) + (if 0 < 60 * nanos \<and> 60 * nanos \<le> 600 * nanos then 60 * nanos else 600 * nanos))
      div nanos - unix_epoch_sec" "unix_of (time_unix 1700000000) = inst (time_unix 1700000000) div nanos - unix_epoch_sec"
    by blast
  have "expiry = 1700000060" "unix_of (time_unix 1700000000) = 1700000000"
    unfolding e by (simp_all add: time_unix_def unix_epoch_sec_def nanos_def in64_def min64_def max64_def)
  with j have "json_parse cl = Some (JObj [(''exp'', enc_int 1700000060), (''iat'', enc_int 1699999940), (''iss'', enc_int 4242)])"
    by (simp add: sample_creds_def)
  with tok c show ?thesis by blast
qed

section \<open>The token source\<close>

lemma api_request_cases:
  "api_request meth url h body env s =
     (if ae_url_ok env url then Inr \<lparr>hq_method = meth, hq_url = url, hq_header = h, hq_body = body\<rparr> else Inl BadURL, s)"
  by (simp add: api_request_def eff_defs)

lemma app_jwt_state: "app_jwt env s = (r, s') \<Longrightarrow> s' = s\<lparr>as_clock := Suc (as_clock s)\<rparr>"
  by (auto simp: app_jwt_def api_now_def eff_defs split: option.splits)

text \<open>What one call of \<open>cached\<close> and of \<open>mint\<close> does to the state.\<close>

lemma cached_cases:
  assumes "cached i env s = (r, s')"
  obtains (hit) tok where "r = Inr (Some tok)" "as_cache s i = Some tok" "valid tok (ae_now env (as_clock s))"
      "s' = s\<lparr>as_clock := Suc (as_clock s)\<rparr>"
    | (miss) "r = Inr None" "s' = s \<or> s' = s\<lparr>as_clock := Suc (as_clock s)\<rparr>"
  using assms by (auto simp: cached_def api_now_def eff_defs split: option.splits if_splits)

lemma mint_cases:
  assumes "mint i env s = (r, s')"
  obtains (early) e where "r = Inl e" "s' = s\<lparr>as_clock := Suc (as_clock s)\<rparr>"
    | (late) e rq where "r = Inl e" "hq_method rq = ''POST''" "hq_url rq = token_url (ae_base env) i"
        "s' = s\<lparr>as_clock := Suc (as_clock s), as_sent := as_sent s @ [rq]\<rparr>"
    | (minted) tok rq resp where "r = Inr tok" "hq_method rq = ''POST''" "hq_url rq = token_url (ae_base env) i"
        "s' = s\<lparr>as_clock := Suc (as_clock s), as_sent := as_sent s @ [rq]\<rparr>"
        "ae_http env (length (as_sent s)) rq = Some resp" "hr_status resp = 201"
        "unmarshal (dec_struct token_fields) zero_token (limited mib (hr_body resp)) = Some tok" "it_Token tok \<noteq> []"
proof -
  obtain r0 s0 where j: "app_jwt env s = (r0, s0)" by fastforce
  note s0 = app_jwt_state [OF j]
  show ?thesis
  proof (cases "r0")
    case (Inl e)
    with assms j s0 early [of e] show ?thesis by (auto simp: mint_def eff_defs)
  next
    case (Inr jwt)
    let ?rq = "\<lparr>hq_method = ''POST'', hq_url = token_url (ae_base env) i, hq_header = jwt_headers jwt, hq_body = []\<rparr>"
    show ?thesis
    proof (cases "ae_url_ok env (token_url (ae_base env) i)")
      case False
      with assms j s0 Inr early [of BadURL] show ?thesis by (auto simp: mint_def eff_defs api_request_cases)
    next
      case ok: True
      have m: "mint i env s = (case ae_http env (length (as_sent s)) ?rq of
          None \<Rightarrow> Inl TransportError
        | Some resp \<Rightarrow>
            if hr_status resp \<noteq> 201 then Inl (StatusError (hr_status resp) (limited mib (hr_body resp)))
            else case unmarshal (dec_struct token_fields) zero_token (limited mib (hr_body resp)) of
              None \<Rightarrow> Inl DecodeError
            | Some out \<Rightarrow> if it_Token out = [] then Inl EmptyToken else Inr out,
          s\<lparr>as_clock := Suc (as_clock s), as_sent := as_sent s @ [?rq]\<rparr>)"
        using j s0 Inr ok
        by (simp add: mint_def eff_defs api_request_cases api_send_def Let_def split: option.split)
      show ?thesis
      proof (cases r)
        case (Inl e)
        with m assms late [of e ?rq] show ?thesis by simp
      next
        case (Inr tok)
        have e: "(r, s') = mint i env s" using assms by simp
        obtain resp where resp: "ae_http env (length (as_sent s)) ?rq = Some resp"
          using e m Inr by (cases "ae_http env (length (as_sent s)) ?rq") simp_all
        have st: "hr_status resp = 201" using e m Inr resp by (simp split: if_splits)
        have un: "unmarshal (dec_struct token_fields) zero_token (limited mib (hr_body resp)) = Some tok" "it_Token tok \<noteq> []"
          using e m Inr resp st by (simp_all split: option.splits if_splits)
        show ?thesis by (rule minted [OF Inr _ _ _ resp st un]) (use e m in simp_all)
      qed
    qed
  qed
qed

text \<open>
  C31. \<open>Token\<close> hands out a cached token only if a clock reading of this very call shows it more
  than a minute from expiry, and then sends nothing; otherwise it sends exactly one request,
  the POST for this installation's token, and returns what a 201 answer holds, never the empty
  token. Either way the token is cached for this installation and no other entry changes.
\<close>

theorem Token_fresh:
  assumes "Token i env s = (Inr tok, s')"
  shows "as_cache s' = (as_cache s)(i \<mapsto> tok) \<and> it_Token tok \<noteq> [] \<and>
    (as_sent s' = as_sent s \<and> as_cache s i = Some tok \<and>
       (\<exists>k. as_clock s \<le> k \<and> k < as_clock s' \<and> before (time_add (ae_now env k) expirySkew) (it_ExpiresAt tok)) \<or>
     (\<exists>rq resp. as_sent s' = as_sent s @ [rq] \<and> hq_method rq = ''POST'' \<and> hq_url rq = token_url (ae_base env) i \<and>
       ae_http env (length (as_sent s)) rq = Some resp \<and> hr_status resp = 201 \<and>
       unmarshal (dec_struct token_fields) zero_token (limited mib (hr_body resp)) = Some tok))"
proof -
  have from_cache: "?thesis" if "as_cache s i = Some tok" "valid tok (ae_now env k)" "as_clock s \<le> k" "k < as_clock s'"
      "as_sent s' = as_sent s" "as_cache s' = as_cache s" for k
    using that by (auto simp: valid_def before_def time_add_def)
  obtain r1 s1 where c1: "cached i env s = (r1, s1)" by fastforce
  then show ?thesis
  proof (cases rule: cached_cases)
    case (hit tok1)
    with assms c1 show ?thesis by (intro from_cache [of "as_clock s"]) (auto simp: Token_def eff_defs)
  next
    case miss1: miss
    obtain r2 s2 where c2: "cached i env s1 = (r2, s2)" by fastforce
    then show ?thesis
    proof (cases rule: cached_cases)
      case (hit tok2)
      with assms c1 c2 miss1 show ?thesis by (intro from_cache [of "as_clock s1"]) (auto simp: Token_def eff_defs)
    next
      case miss2: miss
      obtain r3 s3 where m: "mint i env s2 = (r3, s3)" by fastforce
      have t: "Token i env s = (case r3 of Inl e \<Rightarrow> (Inl e, s3) | Inr tok \<Rightarrow> (Inr tok, s3\<lparr>as_cache := (as_cache s3)(i \<mapsto> tok)\<rparr>))"
        using c1 c2 miss1(1) miss2(1) m by (simp add: Token_def eff_defs cache_token_def split: sum.split)
      have same: "as_sent s2 = as_sent s" "as_cache s2 = as_cache s" using miss1(2) miss2(2) by auto
      from m show ?thesis
        by (cases rule: mint_cases) (use t assms same in auto)
    qed
  qed
qed

text \<open>A GitHub that answers a token exchange, a GraphQL query and any other request.\<close>

definition token_body :: bytes where
  \<open>token_body = ''{"token":"ghs_x","expires_at":"2023-11-15T00:00:00Z","permissions":{"contents":"read"}}''\<close>

definition sample_base :: string where
  "sample_base = ''https://api.github.com''"

definition answer :: "int \<Rightarrow> bytes \<Rightarrow> http_response" where
  "answer status body = \<lparr>hr_status = status, hr_get = (\<lambda>_. []), hr_body = body\<rparr>"

definition routed_env :: "bytes \<Rightarrow> bytes \<Rightarrow> api_env" where
  "routed_env gql get =
     \<lparr>ae_now = (\<lambda>_. time_unix 1700000000),
      ae_http = (\<lambda>_ rq. Some (if hq_method rq = ''GET'' then answer 200 get
                             else if hq_url rq = sample_base @ ''/graphql'' then answer 200 gql
                             else answer 201 token_body)),
      ae_url_ok = (\<lambda>_. True), ae_creds = sample_creds, ae_base = sample_base\<rparr>"

definition idle_state :: api_state where
  "idle_state = \<lparr>as_clock = 0, as_sent = [], as_budgets = Map.empty, as_cache = Map.empty\<rparr>"

lemma routed_env_sel [simp]:
  "ae_now (routed_env gql get) k = time_unix 1700000000" "ae_url_ok (routed_env gql get) u"
  "ae_creds (routed_env gql get) = sample_creds" "ae_base (routed_env gql get) = sample_base"
  by (simp_all add: routed_env_def)

lemma token_body_decodes:
  obtains tok where "unmarshal (dec_struct token_fields) zero_token token_body = Some tok" "it_Token tok = ''ghs_x''"
proof -
  have "map_option it_Token (unmarshal (dec_struct token_fields) zero_token token_body) = Some ''ghs_x''" by code_simp
  with that show ?thesis by (auto simp: map_option_eq_Some)
qed

lemma limited_token_body: "limited mib token_body = token_body"
  by code_simp

lemma token_url_not_graphql: "token_url base i \<noteq> base @ ''/graphql''"
  by (simp add: token_url_def)

lemma Token_routed:
  assumes "as_cache s i = None"
  obtains tok s' where "Token i (routed_env gql get) s = (Inr tok, s')" "it_Token tok = ''ghs_x''" "as_budgets s' = as_budgets s"
proof -
  obtain tok where tok: "unmarshal (dec_struct token_fields) zero_token token_body = Some tok" "it_Token tok = ''ghs_x''"
    by (rule token_body_decodes)
  obtain jwt where jwt: "AppJWT sample_creds (time_unix 1700000000) ten_minutes = Some jwt"
    using AppJWT_total [OF sample_key_size] by blast
  have http: "ae_http (routed_env gql get) n rq = Some (answer 201 token_body)"
    if "hq_method rq = ''POST''" "hq_url rq = token_url sample_base i" for n rq
    using that token_url_not_graphql by (simp add: routed_env_def)
  have "\<exists>s'. mint i (routed_env gql get) s = (Inr tok, s') \<and> as_budgets s' = as_budgets s"
    using tok jwt
    by (simp add: mint_def app_jwt_def api_now_def api_send_def api_request_cases eff_defs http answer_def limited_token_body)
  moreover have "cached i (routed_env gql get) s = (Inr None, s)"
    using assms by (simp add: cached_def)
  ultimately have "\<exists>s'. Token i (routed_env gql get) s = (Inr tok, s') \<and> as_budgets s' = as_budgets s"
    by (auto simp: Token_def eff_defs cache_token_def)
  with that tok(2) show ?thesis by blast
qed

theorem Token_fresh_witness:
  "\<exists>tok s'. Token 7 (routed_env [] []) idle_state = (Inr tok, s') \<and> it_Token tok \<noteq> [] \<and> as_cache s' = [7 \<mapsto> tok]"
proof -
  have "as_cache idle_state 7 = None" by (simp add: idle_state_def)
  then obtain tok s' where t: "Token 7 (routed_env [] []) idle_state = (Inr tok, s')" by (rule Token_routed)
  note f = Token_fresh [OF t]
  have "as_cache s' = [7 \<mapsto> tok]" using conjunct1 [OF f] by (simp add: idle_state_def)
  with t conjunct1 [OF conjunct2 [OF f]] show ?thesis by (intro exI conjI)
qed

text \<open>A token that expires an hour after the zero time.\<close>

definition sample_token :: install_token where
  "sample_token = \<lparr>it_Token = ''ghs_x'', it_ExpiresAt = GTime (3600 * nanos) 0, it_Permissions = Map.empty\<rparr>"

lemma sample_token_valid [simp]: "valid sample_token zero_time"
  by (simp add: valid_def sample_token_def before_def time_add_def zero_time_def expirySkew_def nanos_def)

end
