(* ===== verification/TokenLock.thy ===== *)
theory TokenLock
  imports AppAuth
begin

text \<open>
  Concurrent callers of \<open>TokenSource.Token\<close> (libs/go/githubapp/token.go): every caller is a
  thread at one of the points of the function, and the steps of all threads interleave. The
  cache is read and written under \<open>ts.mu\<close>, so each access is one step; the per-installation
  lock of \<open>installLock\<close> is held from \<open>lock.Lock()\<close> to the return.
\<close>

section \<open>Threads\<close>

datatype pc =
    Start int
  | Waiting int
  | Locked int
  | Minting int gtime
  | Done int install_token
  | Failed int

text \<open>
  The cache, the holder of each installation's lock, the threads, the clock, and the tokens
  minted so far, newest first, each with its installation and the time of the check before it.
\<close>

record token_state =
  tk_cache :: "int \<rightharpoonup> install_token"
  tk_lock :: "int \<rightharpoonup> nat"
  tk_pc :: "nat \<Rightarrow> pc"
  tk_clock :: gtime
  tk_minted :: "(int \<times> gtime \<times> install_token) list"

definition cached_at :: "token_state \<Rightarrow> int \<Rightarrow> install_token option" where
  "cached_at s i =
     (case tk_cache s i of None \<Rightarrow> None | Some tok \<Rightarrow> if valid tok (tk_clock s) then Some tok else None)"

definition at_pc :: "token_state \<Rightarrow> nat \<Rightarrow> pc \<Rightarrow> token_state" where
  "at_pc s t p = s\<lparr>tk_pc := (tk_pc s)(t := p)\<rparr>"

definition release :: "token_state \<Rightarrow> int \<Rightarrow> token_state" where
  "release s i = s\<lparr>tk_lock := (tk_lock s)(i := None)\<rparr>"

inductive token_step :: "token_state \<Rightarrow> token_state \<Rightarrow> bool" where
  hit: "tk_pc s t = Start i \<Longrightarrow> cached_at s i = Some tok \<Longrightarrow> token_step s (at_pc s t (Done i tok))"
| miss: "tk_pc s t = Start i \<Longrightarrow> cached_at s i = None \<Longrightarrow> token_step s (at_pc s t (Waiting i))"
| lock: "tk_pc s t = Waiting i \<Longrightarrow> tk_lock s i = None \<Longrightarrow>
    token_step s (at_pc (s\<lparr>tk_lock := (tk_lock s)(i \<mapsto> t)\<rparr>) t (Locked i))"
| recheck_hit: "tk_pc s t = Locked i \<Longrightarrow> cached_at s i = Some tok \<Longrightarrow>
    token_step s (release (at_pc s t (Done i tok)) i)"
| recheck_miss: "tk_pc s t = Locked i \<Longrightarrow> cached_at s i = None \<Longrightarrow>
    token_step s (at_pc s t (Minting i (tk_clock s)))"
| minted: "tk_pc s t = Minting i since \<Longrightarrow>
    token_step s (release (at_pc (s\<lparr>tk_cache := (tk_cache s)(i \<mapsto> tok), tk_minted := (i, since, tok) # tk_minted s\<rparr>) t (Done i tok)) i)"
| mint_failed: "tk_pc s t = Minting i since \<Longrightarrow> token_step s (release (at_pc s t (Failed i)) i)"
| tick: "token_step s (s\<lparr>tk_clock := now\<rparr>)"

text \<open>A cold source: nothing cached, every thread about to call.\<close>

definition cold :: "(nat \<Rightarrow> int) \<Rightarrow> gtime \<Rightarrow> token_state" where
  "cold want now =
     \<lparr>tk_cache = Map.empty, tk_lock = Map.empty, tk_pc = (\<lambda>t. Start (want t)), tk_clock = now, tk_minted = []\<rparr>"

inductive token_reach :: "token_state \<Rightarrow> bool" where
  start: "token_reach (cold want now)"
| step: "token_reach s \<Longrightarrow> token_step s s' \<Longrightarrow> token_reach s'"

section \<open>Invariants\<close>

definition holding :: "pc \<Rightarrow> int option" where
  "holding p = (case p of Locked i \<Rightarrow> Some i | Minting i _ \<Rightarrow> Some i | _ \<Rightarrow> None)"

lemma holding_simps [simp]:
  "holding (Start i) = None" "holding (Waiting i) = None" "holding (Locked i) = Some i"
  "holding (Minting i since) = Some i" "holding (Done i tok) = None" "holding (Failed i) = None"
  by (simp_all add: holding_def)

text \<open>The lock is held by exactly the thread between \<open>Lock\<close> and the return.\<close>

definition lock_inv :: "token_state \<Rightarrow> bool" where
  "lock_inv s \<longleftrightarrow> (\<forall>t i. tk_lock s i = Some t \<longleftrightarrow> holding (tk_pc s t) = Some i)"

lemma lock_keep: "lock_inv s \<Longrightarrow> holding p = holding (tk_pc s t) \<Longrightarrow> lock_inv (at_pc s t p)"
  by (simp add: lock_inv_def at_pc_def)

lemma lock_take:
  assumes "lock_inv s" "tk_lock s i = None" "holding (tk_pc s t) = None" "holding p = Some i"
  shows "lock_inv (at_pc (s\<lparr>tk_lock := (tk_lock s)(i \<mapsto> t)\<rparr>) t p)"
  using assms by (simp add: lock_inv_def at_pc_def) (metis option.distinct(1))

lemma lock_drop:
  assumes "lock_inv s" "holding (tk_pc s t) = Some i" "holding p = None"
  shows "lock_inv (release (at_pc s t p) i)"
  using assms by (simp add: lock_inv_def at_pc_def release_def) (metis option.inject)

lemma lock_inv_cache: "lock_inv (s\<lparr>tk_cache := c, tk_minted := m\<rparr>) = lock_inv s" "lock_inv (s\<lparr>tk_clock := now\<rparr>) = lock_inv s"
  by (simp_all add: lock_inv_def)

lemma lock_inv_step: "token_step s s' \<Longrightarrow> lock_inv s \<Longrightarrow> lock_inv s'"
  by (induction rule: token_step.induct)
    (simp_all add: lock_inv_cache lock_keep lock_take lock_drop)

text \<open>
  The last token minted for an installation is the cached one, and was no longer valid when
  the mint after it was decided on.
\<close>

fun newest :: "(int \<times> gtime \<times> install_token) list \<Rightarrow> int \<Rightarrow> install_token option" where
  "newest [] i = None"
| "newest ((j, since, tok) # ms) i = (if j = i then Some tok else newest ms i)"

fun spaced :: "(int \<times> gtime \<times> install_token) list \<Rightarrow> bool" where
  "spaced [] \<longleftrightarrow> True"
| "spaced ((i, since, tok) # ms) \<longleftrightarrow>
     (case newest ms i of None \<Rightarrow> True | Some old \<Rightarrow> \<not> valid old since) \<and> spaced ms"

definition mint_inv :: "token_state \<Rightarrow> bool" where
  "mint_inv s \<longleftrightarrow>
     (\<forall>i. tk_cache s i = newest (tk_minted s) i) \<and> spaced (tk_minted s) \<and>
     (\<forall>t i since. tk_pc s t = Minting i since \<longrightarrow>
        (case tk_cache s i of None \<Rightarrow> True | Some old \<Rightarrow> \<not> valid old since))"

lemma cached_at_None: "cached_at s i = None \<Longrightarrow> tk_cache s i = Some old \<Longrightarrow> \<not> valid old (tk_clock s)"
  by (auto simp: cached_at_def split: if_splits)

lemma mint_inv_step:
  assumes "token_step s s'" "lock_inv s" "mint_inv s"
  shows "mint_inv s'"
  using assms
proof (induction rule: token_step.induct)
  case (minted s t i since tok)
  have "i' \<noteq> i" if "t' \<noteq> t" "tk_pc s t' = Minting i' since'" for t' i' since'
  proof
    assume "i' = i"
    with minted that have "tk_lock s i = Some t" "tk_lock s i = Some t'" by (simp_all add: lock_inv_def)
    with that show False by simp
  qed
  with minted show ?case by (auto simp: mint_inv_def at_pc_def release_def split: option.splits)
next
  case (recheck_miss s t i)
  then show ?case using cached_at_None by (auto simp: mint_inv_def at_pc_def split: option.splits)
qed (auto simp: mint_inv_def at_pc_def release_def)

lemma token_inv: "token_reach s \<Longrightarrow> lock_inv s \<and> mint_inv s"
proof (induction rule: token_reach.induct)
  case (start want now)
  show ?case by (simp add: lock_inv_def mint_inv_def cold_def)
next
  case (step s s')
  then show ?case using lock_inv_step mint_inv_step by blast
qed

section \<open>Properties\<close>

text \<open>
  Mutual exclusion and no deadlock: in every reachable interleaving at most one caller is
  between taking an installation's lock and returning, so at most one mint per installation is
  in flight, and whenever a caller waits for a lock, either it can take it now or the caller
  that holds it can take a step.
\<close>

theorem token_lock_sound:
  assumes "token_reach s"
  shows "(\<forall>t t' i. holding (tk_pc s t) = Some i \<and> holding (tk_pc s t') = Some i \<longrightarrow> t = t') \<and>
    (\<forall>t i. tk_pc s t = Waiting i \<longrightarrow>
       (\<exists>t' s'. token_step s s' \<and> tk_pc s' t' \<noteq> tk_pc s t' \<and> (t' = t \<or> tk_lock s i = Some t')))"
proof (intro conjI allI impI)
  note inv = token_inv [OF assms, THEN conjunct1]
  show "t = t'" if "holding (tk_pc s t) = Some i \<and> holding (tk_pc s t') = Some i" for t t' i
    using inv that by (metis lock_inv_def option.inject)
  show "\<exists>t' s'. token_step s s' \<and> tk_pc s' t' \<noteq> tk_pc s t' \<and> (t' = t \<or> tk_lock s i = Some t')"
    if w: "tk_pc s t = Waiting i" for t i
  proof (cases "tk_lock s i")
    case None
    from token_step.lock [OF w this] w show ?thesis by (intro exI [of _ t] exI conjI) (auto simp: at_pc_def)
  next
    case (Some t')
    with inv have "holding (tk_pc s t') = Some i" by (simp add: lock_inv_def)
    then consider "tk_pc s t' = Locked i" | since where "tk_pc s t' = Minting i since"
      by (cases "tk_pc s t'") auto
    then have "\<exists>s'. token_step s s' \<and> tk_pc s' t' \<noteq> tk_pc s t'"
    proof cases
      case 1
      then show ?thesis
        by (cases "cached_at s i")
          (fastforce dest: token_step.recheck_miss token_step.recheck_hit simp: at_pc_def release_def)+
    next
      case 2
      from token_step.mint_failed [OF this] 2 show ?thesis by (intro exI conjI) (auto simp: at_pc_def release_def)
    qed
    with Some show ?thesis by blast
  qed
qed

text \<open>Every token of the log is valid at the times of its installation's checks.\<close>

definition steady :: "(int \<times> gtime \<times> install_token) list \<Rightarrow> bool" where
  "steady ms \<longleftrightarrow> (\<forall>m \<in> set ms. \<forall>m' \<in> set ms. fst m' = fst m \<longrightarrow> valid (snd (snd m)) (fst (snd m')))"

lemma newest_mem: "newest ms i = Some old \<Longrightarrow> \<exists>since. (i, since, old) \<in> set ms"
  by (induction ms) (auto split: if_splits)

lemma newest_none: "newest ms i = None \<Longrightarrow> filter (\<lambda>m. fst m = i) ms = []"
  by (induction ms) (auto split: if_splits)

lemma spaced_steady_one: "spaced ms \<Longrightarrow> steady ms \<Longrightarrow> length (filter (\<lambda>m. fst m = i) ms) \<le> 1"
proof (induction ms)
  case (Cons m ms)
  obtain j since tok where m: "m = (j, since, tok)" by (cases m)
  have "steady ms" using Cons.prems(2) by (simp add: steady_def)
  with Cons m have IH: "length (filter (\<lambda>m. fst m = i) ms) \<le> 1" by simp
  have "newest ms j = None" if "j = i"
  proof (rule ccontr)
    assume "newest ms j \<noteq> None"
    then obtain old s0 where o: "newest ms j = Some old" "(j, s0, old) \<in> set ms" using newest_mem by blast
    with Cons.prems(1) m have "\<not> valid old since" by simp
    moreover have "valid old since" using Cons.prems(2) m o(2) by (force simp: steady_def)
    ultimately show False ..
  qed
  with IH newest_none m show ?case by simp
qed simp

text \<open>
  C32. Concurrent callers coalesce: in every reachable interleaving of any number of callers
  from a cold cache, as long as the tokens minted for an installation are valid at the times
  of its checks, at most one token has been minted for it, however many callers asked.
\<close>

theorem token_burst_coalesces:
  assumes "token_reach s" "steady (tk_minted s)"
  shows "length (filter (\<lambda>m. fst m = i) (tk_minted s)) \<le> 1"
  using spaced_steady_one [OF _ assms(2)] token_inv [OF assms(1)] by (simp add: mint_inv_def)

text \<open>
  No caller gets another installation's token: whatever a caller returns was minted for the
  installation it asked for, in every reachable interleaving.
\<close>

theorem token_done_minted:
  assumes "token_reach s" "tk_pc s t = Done i tok"
  shows "\<exists>since. (i, since, tok) \<in> set (tk_minted s)"
  using assms
proof (induction arbitrary: t i tok rule: token_reach.induct)
  case (start want now)
  then show ?case by (simp add: cold_def)
next
  case (step s s')
  have hit: "\<exists>since. (i, since, tok) \<in> set (tk_minted s)" if "cached_at s i = Some tok" for i tok
    using that token_inv [OF step.hyps(1)] newest_mem
    by (auto simp: cached_at_def mint_inv_def split: option.splits if_splits)
  from step.hyps(2) step.prems show ?case
    by (cases rule: token_step.cases)
      (auto simp: at_pc_def release_def split: if_splits dest: step.IH hit)
qed

section \<open>A run\<close>

text \<open>
  Threads 0 and 1 want installation 7; both miss, 0 takes the lock and checks again; then it
  mints, and 1 takes the lock and finds the token.
\<close>

definition run0 :: token_state where
  "run0 = at_pc (at_pc (cold (\<lambda>_. 7) zero_time) 0 (Waiting 7)) 1 (Waiting 7)"

definition run1 :: token_state where
  "run1 = at_pc (at_pc (run0\<lparr>tk_lock := (tk_lock run0)(7 \<mapsto> 0)\<rparr>) 0 (Locked 7)) 0 (Minting 7 zero_time)"

definition run2 :: token_state where
  "run2 = release (at_pc (run1\<lparr>tk_cache := (tk_cache run1)(7 \<mapsto> sample_token),
     tk_minted := (7, zero_time, sample_token) # tk_minted run1\<rparr>) 0 (Done 7 sample_token)) 7"

definition run3 :: token_state where
  "run3 = release (at_pc (at_pc (run2\<lparr>tk_lock := (tk_lock run2)(7 \<mapsto> 1)\<rparr>) 1 (Locked 7)) 1 (Done 7 sample_token)) 7"

lemma run0_reach: "token_reach run0"
  unfolding run0_def
  by (intro token_reach.step [OF _ token_step.miss] token_reach.start) (simp_all add: cold_def at_pc_def cached_at_def)

lemma run1_reach: "token_reach run1"
proof -
  let ?s = "at_pc (run0\<lparr>tk_lock := (tk_lock run0)(7 \<mapsto> 0)\<rparr>) 0 (Locked 7)"
  have "token_step run0 ?s" by (rule token_step.lock) (simp_all add: run0_def cold_def at_pc_def)
  moreover have "token_step ?s (at_pc ?s 0 (Minting 7 (tk_clock ?s)))"
    by (rule token_step.recheck_miss) (simp_all add: run0_def cold_def at_pc_def cached_at_def)
  moreover have "tk_clock ?s = zero_time" by (simp add: run0_def cold_def at_pc_def)
  ultimately show ?thesis unfolding run1_def using run0_reach token_reach.step by metis
qed

lemma run3_reach: "token_reach run3"
proof -
  let ?s = "at_pc (run2\<lparr>tk_lock := (tk_lock run2)(7 \<mapsto> 1)\<rparr>) 1 (Locked 7)"
  have "token_step run1 run2"
    unfolding run2_def by (rule token_step.minted) (simp add: run1_def at_pc_def)
  moreover have "token_step run2 ?s"
    by (rule token_step.lock) (simp_all add: run2_def run1_def run0_def cold_def at_pc_def release_def)
  moreover have "token_step ?s (release (at_pc ?s 1 (Done 7 sample_token)) 7)"
    by (rule token_step.recheck_hit)
      (simp_all add: run2_def run1_def run0_def cold_def at_pc_def release_def cached_at_def)
  ultimately show ?thesis unfolding run3_def using run1_reach token_reach.step by metis
qed

theorem token_lock_sound_witness:
  "holding (tk_pc run1 0) = Some 7 \<and> tk_pc run1 1 = Waiting 7 \<and>
   (\<exists>t' s'. token_step run1 s' \<and> tk_pc s' t' \<noteq> tk_pc run1 t')"
proof -
  have r: "holding (tk_pc run1 0) = Some 7" "tk_pc run1 1 = Waiting 7" by (simp_all add: run1_def run0_def at_pc_def)
  from token_lock_sound [OF run1_reach] r(2) have "\<exists>t' s'. token_step run1 s' \<and> tk_pc s' t' \<noteq> tk_pc run1 t'" by blast
  with r show ?thesis by blast
qed

lemma run3_minted: "tk_minted run3 = [(7, zero_time, sample_token)]"
  by (simp add: run3_def run2_def run1_def run0_def cold_def at_pc_def release_def)

theorem token_burst_coalesces_witness:
  "tk_pc run3 0 = Done 7 sample_token \<and> tk_pc run3 1 = Done 7 sample_token \<and>
   length (filter (\<lambda>m. fst m = 7) (tk_minted run3)) \<le> 1"
proof -
  have "tk_pc run3 0 = Done 7 sample_token" "tk_pc run3 1 = Done 7 sample_token"
    by (simp_all add: run3_def run2_def at_pc_def release_def)
  moreover have "steady (tk_minted run3)" by (simp add: run3_minted steady_def)
  ultimately show ?thesis using token_burst_coalesces [OF run3_reach] by simp
qed

theorem token_done_minted_witness:
  "\<exists>since. (7, since, sample_token) \<in> set (tk_minted run3)"
  by (rule token_done_minted [OF run3_reach, of 1]) (simp add: run3_def at_pc_def release_def)

end
