(* ===== verification/Mutexes.thy ===== *)
theory Mutexes
  imports TokenLock
begin

text \<open>
  The mutexes behind \<open>TokenSource.Token\<close> (libs/go/githubapp/token.go): \<open>installLock\<close> looks the
  mutex of an installation up in a map under \<open>ts.mu\<close>, and makes it on first use. Theory TokenLock
  has one lock per installation; here a caller holds a mutex object, and the interleavings of
  these callers are shown to be interleavings of those.
\<close>

section \<open>The code\<close>

text \<open>
  A mutex is its address. The token source with its callers, whose \<open>tk_lock\<close> tells who holds the
  mutex at an address here; the map, the next address, and each caller's variable \<open>lock\<close>.
\<close>

record mutex_state =
  mx_ts :: token_state
  mx_single :: "int \<rightharpoonup> int"
  mx_next :: int
  mx_var :: "nat \<rightharpoonup> int"

definition installLock :: "int \<Rightarrow> mutex_state \<Rightarrow> int \<times> mutex_state" where
  "installLock i s =
     (case mx_single s i of
        Some m \<Rightarrow> (m, s)
      | None \<Rightarrow> (mx_next s, s\<lparr>mx_single := (mx_single s)(i \<mapsto> mx_next s), mx_next := mx_next s + 1\<rparr>))"

abbreviation pc_of :: "mutex_state \<Rightarrow> nat \<Rightarrow> pc" where
  "pc_of s \<equiv> tk_pc (mx_ts s)"

inductive mutex_step :: "mutex_state \<Rightarrow> mutex_state \<Rightarrow> bool" where
  hit: "pc_of s t = Start i \<Longrightarrow> cached_at (mx_ts s) i = Some tok \<Longrightarrow>
    mutex_step s (s\<lparr>mx_ts := at_pc (mx_ts s) t (Done i tok)\<rparr>)"
| miss: "pc_of s t = Start i \<Longrightarrow> cached_at (mx_ts s) i = None \<Longrightarrow>
    mutex_step s (s\<lparr>mx_ts := at_pc (mx_ts s) t (Waiting i)\<rparr>)"
| install: "pc_of s t = Waiting i \<Longrightarrow> mx_var s t = None \<Longrightarrow> installLock i s = (m, s1) \<Longrightarrow>
    mutex_step s (s1\<lparr>mx_var := (mx_var s1)(t \<mapsto> m)\<rparr>)"
| lock: "pc_of s t = Waiting i \<Longrightarrow> mx_var s t = Some m \<Longrightarrow> tk_lock (mx_ts s) m = None \<Longrightarrow>
    mutex_step s (s\<lparr>mx_ts := at_pc ((mx_ts s)\<lparr>tk_lock := (tk_lock (mx_ts s))(m \<mapsto> t)\<rparr>) t (Locked i)\<rparr>)"
| recheck_hit: "pc_of s t = Locked i \<Longrightarrow> mx_var s t = Some m \<Longrightarrow> cached_at (mx_ts s) i = Some tok \<Longrightarrow>
    mutex_step s (s\<lparr>mx_ts := release (at_pc (mx_ts s) t (Done i tok)) m\<rparr>)"
| recheck_miss: "pc_of s t = Locked i \<Longrightarrow> cached_at (mx_ts s) i = None \<Longrightarrow>
    mutex_step s (s\<lparr>mx_ts := at_pc (mx_ts s) t (Minting i (tk_clock (mx_ts s)))\<rparr>)"
| minted: "pc_of s t = Minting i since \<Longrightarrow> mx_var s t = Some m \<Longrightarrow>
    mutex_step s (s\<lparr>mx_ts := release (at_pc ((mx_ts s)\<lparr>tk_cache := (tk_cache (mx_ts s))(i \<mapsto> tok),
      tk_minted := (i, since, tok) # tk_minted (mx_ts s)\<rparr>) t (Done i tok)) m\<rparr>)"
| mint_failed: "pc_of s t = Minting i since \<Longrightarrow> mx_var s t = Some m \<Longrightarrow>
    mutex_step s (s\<lparr>mx_ts := release (at_pc (mx_ts s) t (Failed i)) m\<rparr>)"
| tick: "mutex_step s (s\<lparr>mx_ts := (mx_ts s)\<lparr>tk_clock := now\<rparr>\<rparr>)"

definition mutex_start :: "(nat \<Rightarrow> int) \<Rightarrow> gtime \<Rightarrow> mutex_state" where
  "mutex_start want now = \<lparr>mx_ts = cold want now, mx_single = Map.empty, mx_next = 0, mx_var = Map.empty\<rparr>"

inductive mutex_reach :: "mutex_state \<Rightarrow> bool" where
  start: "mutex_reach (mutex_start want now)"
| step: "mutex_reach s \<Longrightarrow> mutex_step s s' \<Longrightarrow> mutex_reach s'"

section \<open>The map\<close>

fun wants :: "pc \<Rightarrow> int" where
  "wants (Start i) = i" | "wants (Waiting i) = i" | "wants (Locked i) = i" | "wants (Minting i _) = i"
| "wants (Done i _) = i" | "wants (Failed i) = i"

text \<open>
  No two installations share a mutex, no mutex in use has an address still to be given out, and a
  caller's mutex is that of the installation it wants.
\<close>

definition mutex_inv :: "mutex_state \<Rightarrow> bool" where
  "mutex_inv s \<longleftrightarrow>
     (\<forall>i j m. mx_single s i = Some m \<longrightarrow> mx_single s j = Some m \<longrightarrow> i = j) \<and>
     (\<forall>i m. mx_single s i = Some m \<longrightarrow> m < mx_next s) \<and>
     (\<forall>m. tk_lock (mx_ts s) m \<noteq> None \<longrightarrow> m < mx_next s) \<and>
     (\<forall>t m. mx_var s t = Some m \<longrightarrow> mx_single s (wants (pc_of s t)) = Some m)"

lemma mutex_inv_step: "mutex_step s s' \<Longrightarrow> mutex_inv s \<Longrightarrow> mutex_inv s'"
proof (induction rule: mutex_step.induct)
  case (install s t i m s1)
  show ?case
  proof (cases "mx_single s i")
    case None
    with install(3) have s1: "m = mx_next s" "s1 = s\<lparr>mx_single := (mx_single s)(i \<mapsto> m), mx_next := m + 1\<rparr>"
      by (auto simp: installLock_def)
    have inv: "mx_single s k = Some m1 \<Longrightarrow> mx_single s l = Some m1 \<Longrightarrow> k = l" "mx_single s k = Some m1 \<Longrightarrow> m1 < m"
      "tk_lock (mx_ts s) m1 = Some t1 \<Longrightarrow> m1 < m" "mx_var s t1 = Some m1 \<Longrightarrow> mx_single s (wants (pc_of s t1)) = Some m1"
      for k l m1 t1 using install(4) unfolding mutex_inv_def s1(1) by blast+
    have "((mx_single s)(i \<mapsto> m)) k = Some m1 \<Longrightarrow> ((mx_single s)(i \<mapsto> m)) l = Some m1 \<Longrightarrow> k = l" for k l m1
      using inv(1) inv(2) [of _ m] by (auto split: if_splits)
    moreover have "((mx_single s)(i \<mapsto> m)) k = Some m1 \<Longrightarrow> m1 < m + 1" for k m1
      using inv(2) [of k m1] by (auto split: if_splits)
    moreover have "tk_lock (mx_ts s) m1 \<noteq> None \<Longrightarrow> m1 < m + 1" for m1 using inv(3) [of m1] by fastforce
    moreover have "((mx_var s)(t \<mapsto> m)) t1 = Some m1 \<Longrightarrow> ((mx_single s)(i \<mapsto> m)) (wants (pc_of s t1)) = Some m1" for t1 m1
      using inv(4) [of t1 m1] install(1) None by (auto split: if_splits)
    moreover have "mx_single (s1\<lparr>mx_var := (mx_var s1)(t \<mapsto> m)\<rparr>) = (mx_single s)(i \<mapsto> m)"
      "mx_next (s1\<lparr>mx_var := (mx_var s1)(t \<mapsto> m)\<rparr>) = m + 1" "mx_ts (s1\<lparr>mx_var := (mx_var s1)(t \<mapsto> m)\<rparr>) = mx_ts s"
      "mx_var (s1\<lparr>mx_var := (mx_var s1)(t \<mapsto> m)\<rparr>) = (mx_var s)(t \<mapsto> m)"
      by (simp_all add: s1(2))
    ultimately show ?thesis unfolding mutex_inv_def by metis
  next
    case (Some m')
    with install show ?thesis unfolding mutex_inv_def installLock_def by auto
  qed
next
  case (lock s t i m)
  then have "mx_single s i = Some m" unfolding mutex_inv_def by (metis wants.simps(2))
  with lock show ?case unfolding mutex_inv_def at_pc_def by auto
qed (auto simp: mutex_inv_def at_pc_def release_def, (metis wants.simps)+)

section \<open>The simulation\<close>

text \<open>The lock of an installation is the mutex the map has for it, if any.\<close>

definition lock_view :: "(int \<rightharpoonup> int) \<Rightarrow> (int \<rightharpoonup> nat) \<Rightarrow> int \<rightharpoonup> nat" where
  "lock_view single locks i = (case single i of None \<Rightarrow> None | Some m \<Rightarrow> locks m)"

definition per_installation :: "mutex_state \<Rightarrow> token_state" where
  "per_installation s = (mx_ts s)\<lparr>tk_lock := lock_view (mx_single s) (tk_lock (mx_ts s))\<rparr>"

lemma lock_view_upd:
  assumes "single i = Some m" "\<forall>j. single j = Some m \<longrightarrow> j = i"
  shows "lock_view single (locks(m := h)) = (lock_view single locks)(i := h)"
proof
  fix j
  show "lock_view single (locks(m := h)) j = ((lock_view single locks)(i := h)) j"
  proof (cases "j = i")
    case True
    with assms(1) show ?thesis by (simp add: lock_view_def)
  next
    case False
    with assms(2) have "single j \<noteq> Some m" by blast
    with False show ?thesis by (cases "single j") (simp_all add: lock_view_def)
  qed
qed

lemma mutex_unshared: "mutex_inv s \<Longrightarrow> mx_single s i = Some m \<Longrightarrow> \<forall>j. mx_single s j = Some m \<longrightarrow> j = i"
  unfolding mutex_inv_def by blast

lemma per_installation_simps [simp]:
  "tk_pc (per_installation s) = pc_of s" "tk_cache (per_installation s) = tk_cache (mx_ts s)"
  "tk_clock (per_installation s) = tk_clock (mx_ts s)" "tk_minted (per_installation s) = tk_minted (mx_ts s)"
  by (simp_all add: per_installation_def)

lemma per_installation_cached [simp]: "cached_at (per_installation s) i = cached_at (mx_ts s) i"
  unfolding cached_at_def per_installation_simps ..

lemma per_installation_at: "per_installation (s\<lparr>mx_ts := at_pc (mx_ts s) t p\<rparr>) = at_pc (per_installation s) t p"
  by (rule token_state.equality) (simp_all add: per_installation_def at_pc_def)

lemma per_installation_release:
  assumes "mutex_inv s" "mx_single s i = Some m" "x = (mx_ts s)\<lparr>tk_cache := c, tk_minted := ms\<rparr>"
  shows "per_installation (s\<lparr>mx_ts := release (at_pc x t p) m\<rparr>) =
    release (at_pc ((per_installation s)\<lparr>tk_cache := c, tk_minted := ms\<rparr>) t p) i"
  using lock_view_upd [OF assms(2) mutex_unshared [OF assms(1,2)], of "tk_lock (mx_ts s)" None]
  by (intro token_state.equality) (simp_all add: per_installation_def release_def at_pc_def assms(3))

lemma per_installation_done:
  assumes "mutex_inv s" "mx_single s i = Some m"
  shows "per_installation (s\<lparr>mx_ts := release (at_pc (mx_ts s) t p) m\<rparr>) = release (at_pc (per_installation s) t p) i"
  using lock_view_upd [OF assms(2) mutex_unshared [OF assms], of "tk_lock (mx_ts s)" None]
  by (intro token_state.equality) (simp_all add: per_installation_def release_def at_pc_def)

lemma var_single: "mutex_inv s \<Longrightarrow> mx_var s t = Some m \<Longrightarrow> mx_single s (wants (pc_of s t)) = Some m"
  unfolding mutex_inv_def by blast

lemma mutex_step_refines:
  assumes "mutex_step s s'" "mutex_inv s"
  shows "token_step (per_installation s) (per_installation s') \<or> per_installation s' = per_installation s"
  using assms
proof (induction rule: mutex_step.induct)
  case (hit s t i tok)
  then show ?case unfolding per_installation_at by (intro disjI1 token_step.hit) simp_all
next
  case (miss s t i)
  then show ?case unfolding per_installation_at by (intro disjI1 token_step.miss) simp_all
next
  case (install s t i m s1)
  have "tk_lock (mx_ts s) (mx_next s) = None" using install(4) unfolding mutex_inv_def by blast
  with install(3) show ?case
    by (auto simp: installLock_def per_installation_def lock_view_def fun_eq_iff intro!: token_state.equality split: option.splits)
next
  case (lock s t i m)
  have m: "mx_single s i = Some m" using var_single [OF lock(4,2)] lock(1) by simp
  have "per_installation (s\<lparr>mx_ts := at_pc ((mx_ts s)\<lparr>tk_lock := (tk_lock (mx_ts s))(m \<mapsto> t)\<rparr>) t (Locked i)\<rparr>) =
      at_pc ((per_installation s)\<lparr>tk_lock := (tk_lock (per_installation s))(i \<mapsto> t)\<rparr>) t (Locked i)"
    using lock_view_upd [OF m mutex_unshared [OF lock(4) m], of "tk_lock (mx_ts s)" "Some t"]
    by (intro token_state.equality) (simp_all add: per_installation_def at_pc_def)
  moreover have "tk_lock (per_installation s) i = None" using m lock(3) by (simp add: per_installation_def lock_view_def)
  ultimately show ?case using token_step.lock [of "per_installation s" t i] lock(1) by simp
next
  case (recheck_hit s t i m tok)
  have m: "mx_single s i = Some m" using var_single [OF recheck_hit(4,2)] recheck_hit(1) by simp
  from recheck_hit show ?case
    unfolding per_installation_done [OF recheck_hit(4) m] by (intro disjI1 token_step.recheck_hit) simp_all
next
  case (recheck_miss s t i)
  then show ?case unfolding per_installation_at
    using token_step.recheck_miss [of "per_installation s" t i] by simp
next
  case (minted s t i since m tok)
  have m: "mx_single s i = Some m" using var_single [OF minted(3,2)] minted(1) by simp
  from minted show ?case
    using token_step.minted [of "per_installation s" t i since tok]
    by (simp add: per_installation_release [OF minted(3) m refl])
next
  case (mint_failed s t i since m)
  have m: "mx_single s i = Some m" using var_single [OF mint_failed(3,2)] mint_failed(1) by simp
  from mint_failed show ?case
    unfolding per_installation_done [OF mint_failed(3) m] by (intro disjI1 token_step.mint_failed) simp_all
next
  case (tick s now)
  have "per_installation (s\<lparr>mx_ts := (mx_ts s)\<lparr>tk_clock := now\<rparr>\<rparr>) = (per_installation s)\<lparr>tk_clock := now\<rparr>"
    by (intro token_state.equality) (simp_all add: per_installation_def)
  then show ?case using token_step.tick [of "per_installation s" now] by simp
qed

lemma mutex_reach_inv: "mutex_reach s \<Longrightarrow> mutex_inv s \<and> token_reach (per_installation s)"
proof (induction rule: mutex_reach.induct)
  case (start want now)
  have "per_installation (mutex_start want now) = cold want now"
    by (simp add: per_installation_def mutex_start_def cold_def lock_view_def fun_eq_iff)
  then show ?case using token_reach.start by (simp add: mutex_inv_def mutex_start_def cold_def)
next
  case (step s s')
  then show ?case using mutex_inv_step mutex_step_refines token_reach.step by metis
qed

section \<open>Properties\<close>

text \<open>
  C18. The map of mutexes does its work: whatever the interleaving, no two installations ever
  share a mutex, and seen with one lock per installation the callers only do what they could do
  there. So at most one caller per installation is between the lock and the return, and while the
  tokens minted for an installation stay valid, at most one is minted.
\<close>

theorem mutex_sound:
  assumes "mutex_reach s"
  shows "token_reach (per_installation s) \<and>
    (\<forall>i j m. mx_single s i = Some m \<and> mx_single s j = Some m \<longrightarrow> i = j) \<and>
    (\<forall>t t' i. holding (pc_of s t) = Some i \<and> holding (pc_of s t') = Some i \<longrightarrow> t = t') \<and>
    (steady (tk_minted (mx_ts s)) \<longrightarrow> (\<forall>i. length (filter (\<lambda>m. fst m = i) (tk_minted (mx_ts s))) \<le> 1))"
proof -
  note inv = mutex_reach_inv [OF assms]
  have l: "lock_inv (per_installation s)" "spaced (tk_minted (mx_ts s))"
    using token_inv [of "per_installation s"] inv by (simp_all add: mint_inv_def)
  have "t = t'" if "holding (pc_of s t) = Some i \<and> holding (pc_of s t') = Some i" for t t' i
    using l(1) that unfolding lock_inv_def by (metis option.inject per_installation_simps(1))
  with inv spaced_steady_one [OF l(2)] mutex_unshared show ?thesis by metis
qed

section \<open>A run\<close>

text \<open>Two callers want installation 7: both miss, both get the same mutex, and the second takes it.\<close>

definition two_missed :: mutex_state where
  "two_missed = (mutex_start (\<lambda>_. 7) zero_time)
     \<lparr>mx_ts := at_pc (at_pc (cold (\<lambda>_. 7) zero_time) 0 (Waiting 7)) 1 (Waiting 7)\<rparr>"

definition two_installed :: mutex_state where
  "two_installed = two_missed\<lparr>mx_single := [7 \<mapsto> 0], mx_next := 1, mx_var := [0 \<mapsto> 0, 1 \<mapsto> 0]\<rparr>"

definition one_locked :: mutex_state where
  "one_locked = two_installed
     \<lparr>mx_ts := at_pc ((mx_ts two_installed)\<lparr>tk_lock := (tk_lock (mx_ts two_installed))(0 \<mapsto> 1)\<rparr>) 1 (Locked 7)\<rparr>"

lemmas mutex_run_defs = mutex_start_def cold_def at_pc_def two_missed_def two_installed_def

lemma reach_two_missed: "mutex_reach two_missed"
proof -
  let ?s0 = "mutex_start (\<lambda>_. 7) zero_time"
  let ?s1 = "?s0\<lparr>mx_ts := at_pc (mx_ts ?s0) 0 (Waiting 7)\<rparr>"
  have "mutex_step ?s0 ?s1" by (rule mutex_step.miss) (simp_all add: mutex_run_defs cached_at_def)
  moreover have "mutex_step ?s1 (?s1\<lparr>mx_ts := at_pc (mx_ts ?s1) 1 (Waiting 7)\<rparr>)"
    by (rule mutex_step.miss) (simp_all add: mutex_run_defs cached_at_def)
  moreover have "?s1\<lparr>mx_ts := at_pc (mx_ts ?s1) 1 (Waiting 7)\<rparr> = two_missed" by (simp add: mutex_run_defs)
  ultimately show ?thesis using mutex_reach.step mutex_reach.start by metis
qed

lemma reach_one_locked: "mutex_reach one_locked"
proof -
  let ?s1 = "two_missed\<lparr>mx_single := [7 \<mapsto> 0], mx_next := 1\<rparr>"
  have i: "installLock 7 two_missed = (0, ?s1)" "installLock 7 (?s1\<lparr>mx_var := [0 \<mapsto> 0]\<rparr>) = (0, ?s1\<lparr>mx_var := [0 \<mapsto> 0]\<rparr>)"
    by (simp_all add: installLock_def mutex_run_defs)
  have "mutex_step two_missed (?s1\<lparr>mx_var := (mx_var ?s1)(0 \<mapsto> 0)\<rparr>)"
    by (rule mutex_step.install [OF _ _ i(1)]) (simp_all add: mutex_run_defs)
  moreover have "mx_var ?s1 = Map.empty" by (simp add: mutex_run_defs)
  ultimately have 1: "mutex_reach (?s1\<lparr>mx_var := [0 \<mapsto> 0]\<rparr>)" using mutex_reach.step [OF reach_two_missed] by simp
  have "mutex_step (?s1\<lparr>mx_var := [0 \<mapsto> 0]\<rparr>) (?s1\<lparr>mx_var := [0 \<mapsto> 0]\<rparr>\<lparr>mx_var := (mx_var (?s1\<lparr>mx_var := [0 \<mapsto> 0]\<rparr>))(1 \<mapsto> 0)\<rparr>)"
    by (rule mutex_step.install [OF _ _ i(2)]) (simp_all add: mutex_run_defs)
  from mutex_reach.step [OF 1 this] have "mutex_reach two_installed" by (simp add: two_installed_def)
  moreover have "mutex_step two_installed one_locked"
    unfolding one_locked_def by (rule mutex_step.lock) (simp_all add: mutex_run_defs)
  ultimately show ?thesis by (rule mutex_reach.step)
qed

theorem mutex_sound_witness:
  "mx_var one_locked 0 = mx_var one_locked 1 \<and> holding (pc_of one_locked 1) = Some 7 \<and> holding (pc_of one_locked 0) = None \<and>
   token_reach (per_installation one_locked)"
  using mutex_sound [OF reach_one_locked] by (simp add: one_locked_def mutex_run_defs)

end
