(* ===== verification/Kafka.thy ===== *)
theory Kafka
  imports GoText
begin

text \<open>
  The Kafka wrapper (libs/go/kafka/kafka.go): how the clients are configured, what a write hands
  to the client and what a fetch makes of what the client delivers. A message's headers are a
  list of pairs on the wire and a map in Go: writing ranges over the map, in an order Go does
  not fix and that is an argument here; fetching fills a map in which a later pair wins.
\<close>

record message =
  msg_Key :: string
  msg_Value :: bytes
  msg_Headers :: headers

section \<open>The clients\<close>

text \<open>
  The settings the wrapper gives kafka-go; every writer balances by the hash of the key. A
  writer without a topic takes it from the message. Durations are in nanoseconds.
\<close>

record kafka_writer =
  wr_brokers :: "string list"
  wr_topic :: string
  wr_auto_create :: bool
  wr_require_all :: bool

record kafka_reader =
  rd_brokers :: "string list"
  rd_group :: string
  rd_topic :: string
  rd_min_bytes :: int
  rd_max_bytes :: int
  rd_commit_interval :: int
  rd_max_wait :: int

definition NewWriter :: "string list \<Rightarrow> string \<Rightarrow> kafka_writer" where
  "NewWriter brokers topic = \<lparr>wr_brokers = brokers, wr_topic = topic, wr_auto_create = True, wr_require_all = True\<rparr>"

definition NewTopicWriter :: "string list \<Rightarrow> kafka_writer" where
  "NewTopicWriter brokers = \<lparr>wr_brokers = brokers, wr_topic = [], wr_auto_create = True, wr_require_all = True\<rparr>"

definition NewReader :: "string list \<Rightarrow> string \<Rightarrow> string \<Rightarrow> kafka_reader" where
  "NewReader brokers groupID topic =
     \<lparr>rd_brokers = brokers, rd_group = groupID, rd_topic = topic, rd_min_bytes = 1, rd_max_bytes = 10000000,
      rd_commit_interval = 0, rd_max_wait = 500000000\<rparr>"

section \<open>Messages on the wire\<close>

type_synonym wire_header = "string \<times> bytes"

record wire_message =
  wm_topic :: string
  wm_key :: bytes
  wm_value :: bytes
  wm_headers :: "wire_header list"

text \<open>The loop over the map, which visits its keys in some order.\<close>

definition header_list :: "string list \<Rightarrow> headers \<Rightarrow> wire_header list" where
  "header_list order h = map (\<lambda>k. (k, hget h k)) order"

definition ranges_over :: "string list \<Rightarrow> headers \<Rightarrow> bool" where
  "ranges_over order h \<longleftrightarrow> distinct order \<and> set order = dom h"

definition Writer_Write :: "string list \<Rightarrow> string \<Rightarrow> bytes \<Rightarrow> headers \<Rightarrow> wire_message" where
  "Writer_Write order key v h = \<lparr>wm_topic = [], wm_key = key, wm_value = v, wm_headers = header_list order h\<rparr>"

definition TopicWriter_Write :: "string list \<Rightarrow> string \<Rightarrow> string \<Rightarrow> bytes \<Rightarrow> headers \<Rightarrow> wire_message" where
  "TopicWriter_Write order topic key v h =
     \<lparr>wm_topic = topic, wm_key = key, wm_value = v, wm_headers = header_list order h\<rparr>"

text \<open>Where the client sends a message.\<close>

definition destination :: "kafka_writer \<Rightarrow> wire_message \<Rightarrow> string" where
  "destination w m = (if wr_topic w \<noteq> [] then wr_topic w else wm_topic m)"

text \<open>\<open>Reader.Fetch\<close>: the map built from the wire's headers.\<close>

definition fetch_headers :: "wire_header list \<Rightarrow> headers" where
  "fetch_headers hs = foldl (\<lambda>m (k, v). m(k \<mapsto> v)) Map.empty hs"

definition Reader_Fetch :: "wire_message \<Rightarrow> message" where
  "Reader_Fetch m = \<lparr>msg_Key = wm_key m, msg_Value = wm_value m, msg_Headers = fetch_headers (wm_headers m)\<rparr>"

text \<open>What the broker does with one write: takes it, refuses it, or takes it and the answer is lost.\<close>

datatype write_outcome = WriteOk | WriteFail | WriteLost

text \<open>
  The keys the propagators of \<open>observability.Init\<close> (W3C trace context and baggage) can inject
  into a message's headers.
\<close>

definition w3c_keys :: "string set" where
  "w3c_keys = {''traceparent'', ''tracestate'', ''baggage''}"

section \<open>The round trip\<close>

lemma foldl_upd_map_of: "foldl (\<lambda>m (k, v). m(k \<mapsto> v)) m hs = m ++ map_of (rev hs)"
proof (induction hs arbitrary: m)
  case (Cons kv hs)
  then show ?case by (cases kv) (simp add: map_add_def fun_eq_iff split: option.split)
qed simp

lemma fetch_written:
  assumes "ranges_over order h"
  shows "fetch_headers (header_list order h) = h"
proof
  fix k
  have "distinct (map fst (rev (header_list order h)))"
    using assms by (simp add: header_list_def ranges_over_def rev_map [symmetric] comp_def)
  then have "map_of (rev (header_list order h)) k = Some v \<longleftrightarrow> (k, v) \<in> set (header_list order h)" for v
    by (simp add: map_of_eq_Some_iff)
  moreover have "(k, v) \<in> set (header_list order h) \<longleftrightarrow> h k = Some v" for v
    using assms by (auto simp: header_list_def ranges_over_def hget_def domIff split: option.splits)
  ultimately have "map_of (rev (header_list order h)) k = h k"
    by (cases "h k"; cases "map_of (rev (header_list order h)) k") auto
  then show "fetch_headers (header_list order h) k = h k" by (simp add: fetch_headers_def foldl_upd_map_of)
qed

text \<open>
  C19. What a service writes is what the next one fetches: through either writer, and whatever
  order the map of headers was ranged over, fetching the message gives back the key, the bytes
  and every header, no header lost, doubled or swapped; a bound writer sends it to its topic,
  the other to the topic named in the call.
\<close>

theorem write_fetch:
  assumes "ranges_over order h"
  shows "Reader_Fetch (Writer_Write order key v h) = \<lparr>msg_Key = key, msg_Value = v, msg_Headers = h\<rparr> \<and>
    Reader_Fetch (TopicWriter_Write order topic key v h) = \<lparr>msg_Key = key, msg_Value = v, msg_Headers = h\<rparr> \<and>
    destination (NewTopicWriter brokers) (TopicWriter_Write order topic key v h) = topic \<and>
    (bound \<noteq> [] \<longrightarrow> destination (NewWriter brokers bound) (Writer_Write order key v h) = bound)"
  using fetch_written [OF assms]
  by (simp add: Reader_Fetch_def Writer_Write_def TopicWriter_Write_def destination_def NewTopicWriter_def NewWriter_def)

theorem write_fetch_witness:
  "Reader_Fetch (Writer_Write [''b'', ''a''] ''k'' ''v'' [''a'' \<mapsto> ''1'', ''b'' \<mapsto> ''2'']) =
     \<lparr>msg_Key = ''k'', msg_Value = ''v'', msg_Headers = [''a'' \<mapsto> ''1'', ''b'' \<mapsto> ''2'']\<rparr> \<and>
   destination (NewWriter [''kafka:9092''] ''raw.github'') (Writer_Write [''b'', ''a''] ''k'' ''v'' [''a'' \<mapsto> ''1'', ''b'' \<mapsto> ''2'']) = ''raw.github''"
proof -
  have "ranges_over [''b'', ''a''] [''a'' \<mapsto> ''1'', ''b'' \<mapsto> ''2'']" by (auto simp: ranges_over_def)
  from write_fetch [OF this] show ?thesis by simp
qed

end
