(* ===== verification/Backoff.thy ===== *)
theory Backoff
  imports Prelude
begin

unbundle bit_operations_syntax

text \<open>
  The capped exponential backoff the three consumers share (\<open>backoff\<close> in
  services/normalizer/main.go, services/connector-github/main.go and
  services/archiver/main.go). A \<open>time.Duration\<close> is an \<open>int64\<close> of nanoseconds, and the
  delay is computed by a left shift that loses bits for large attempts, so it is modelled
  on 64-bit words.
\<close>

section \<open>The code\<close>

type_synonym duration = "64 word"

definition millisecond :: duration where
  "millisecond = 1000000"

definition second :: duration where
  "second = 1000000000"

definition baseBackoff :: duration where
  "baseBackoff = 250 * millisecond"

definition maxBackoff :: duration where
  "maxBackoff = 30 * second"

text \<open>
  The shift-and-cap both versions end with. A Go shift by 64 or more gives 0, which is what
  \<open>push_bit\<close> on words does; the comparisons are signed.
\<close>

definition backoff_cap :: "duration \<Rightarrow> duration" where
  "backoff_cap d = (if maxBackoff <s d \<or> d \<le>s 0 then maxBackoff else d)"

text \<open>\<open>backoff\<close> of the normalizer clamps the attempt to 1, and so does the enrichment stage's copy.\<close>

definition backoff :: "int \<Rightarrow> duration" where
  "backoff attempt =
     (let attempt = (if attempt < 1 then 1 else attempt);
          d = push_bit (nat (attempt - 1)) baseBackoff
      in backoff_cap d)"

definition connector_backoff :: "int \<Rightarrow> duration" where
  "connector_backoff attempt =
     (let attempt = (if attempt < 1 then 1 else attempt);
          d = push_bit (nat (attempt - 1)) baseBackoff
      in backoff_cap d)"

text \<open>
  The archiver's \<open>backoff\<close> has no clamp: a shift by a negative count panics (\<open>None\<close>).
\<close>

definition archiver_backoff :: "int \<Rightarrow> duration option" where
  "archiver_backoff attempt =
     (if attempt - 1 < 0 then None
      else Some (backoff_cap (push_bit (nat (attempt - 1)) baseBackoff)))"

section \<open>Its behaviour\<close>

lemmas backoff_consts = baseBackoff_def maxBackoff_def millisecond_def second_def

lemma backoff_clamp: "attempt < 1 \<Longrightarrow> backoff attempt = backoff 1"
  by (simp add: backoff_def)

lemma archiver_backoff_eq: "1 \<le> attempt \<Longrightarrow> archiver_backoff attempt = Some (backoff attempt)"
  by (simp add: archiver_backoff_def backoff_def Let_def)

text \<open>
  The shifted word, read as a signed number, is the product wrapped to 64 bits.
\<close>

definition shifted :: "nat \<Rightarrow> int" where
  "shifted k = sint (push_bit k baseBackoff)"

lemma shifted_wrap: "shifted k = wrap64 (250000000 * 2 ^ k)"
proof -
  have "push_bit k baseBackoff = word_of_int (250000000 * 2 ^ k)"
    by (simp add: push_bit_eq_mult backoff_consts)
  then show ?thesis by (simp add: shifted_def wrap64_sint)
qed

text \<open>Up to a shift of 27 nothing is lost.\<close>

lemma shifted_small: "k < 28 \<Longrightarrow> shifted k = 250000000 * 2 ^ k"
proof -
  have le: "- 72057594037927936 \<le> 1953125 * (2::int) ^ k" for k
    by (rule order_trans [of _ 0]) simp_all
  assume "k < 28"
  then have "(2::int) ^ k \<le> 2 ^ 28" by (intro power_increasing) auto
  then have "in64 (250000000 * 2 ^ k)"
    using le [of k] by (simp add: in64_def min64_def max64_def)
  then show ?thesis by (simp add: shifted_wrap)
qed

text \<open>
  From 28 on the result is a multiple of \<open>2 ^ 35\<close>, so it cannot lie strictly between 0 and
  30 seconds, whatever bits were lost.
\<close>

lemma shifted_dvd: "28 \<le> k \<Longrightarrow> 2 ^ 35 dvd shifted k"
proof -
  assume "28 \<le> k"
  then have "(2::int) ^ k = 2 ^ 28 * 2 ^ (k - 28)"
    by (metis le_add_diff_inverse power_add)
  then have "(250000000::int) * 2 ^ k = 2 ^ 35 * (1953125 * 2 ^ (k - 28))" by simp
  then have x: "(2::int) ^ 35 dvd 250000000 * 2 ^ k" by (metis dvd_triv_left)
  have "(2::int) ^ 35 dvd 2 ^ 63" "(2::int) ^ 35 dvd 2 ^ 64"
    by (simp_all only: le_imp_power_dvd)
  with x show ?thesis
    unfolding shifted_wrap wrap64_def by (simp only: dvd_diff dvd_mod dvd_add)
qed

lemma shifted_large: "28 \<le> k \<Longrightarrow> 30000000000 < shifted k \<or> shifted k \<le> 0"
proof -
  assume "28 \<le> k"
  then obtain q where "shifted k = 2 ^ 35 * q" using shifted_dvd by (auto elim: dvdE)
  then show ?thesis by (cases "q \<le> 0") auto
qed

lemma sint_backoff_cap:
  "sint (backoff_cap d) = (if 30000000000 < sint d \<or> sint d \<le> 0 then 30000000000 else sint d)"
  by (simp add: backoff_cap_def backoff_consts word_sless_alt word_sle_eq)

lemma sint_backoff_cap_shift:
  "sint (backoff_cap (push_bit k baseBackoff)) = min (250000000 * 2 ^ k) 30000000000"
proof (cases "k < 28")
  case True
  have "(0::int) < 2 ^ k" by simp
  with True show ?thesis using shifted_small [OF True]
    by (auto simp: sint_backoff_cap shifted_def)
next
  case False
  then have "(2::int) ^ 28 \<le> 2 ^ k" by (intro power_increasing) auto
  with False show ?thesis using shifted_large [of k]
    by (auto simp: sint_backoff_cap shifted_def)
qed

text \<open>
  C25. The delay, as a signed number of nanoseconds, is exactly
  \<open>min (250ms * 2 ^ (attempt - 1)) 30s\<close> for every attempt number from 1 up: the bits the
  shift loses for large attempts never produce a delay below the cap. The copies of the
  enrichment stage and of the archiver, whose shift by a negative count would panic, give the
  same delays.
\<close>

theorem backoff_exact:
  assumes "1 \<le> attempt"
  shows "sint (backoff attempt) = min (250000000 * 2 ^ nat (attempt - 1)) 30000000000 \<and>
    connector_backoff attempt = backoff attempt \<and> archiver_backoff attempt = Some (backoff attempt)"
  using assms by (simp add: backoff_def connector_backoff_def archiver_backoff_def sint_backoff_cap_shift Let_def)

theorem backoff_exact_witness:
  "sint (backoff 3) = 1000000000 \<and> sint (backoff 100) = 30000000000 \<and> archiver_backoff 3 = Some (connector_backoff 3)"
proof -
  have "nat 99 = 3 + 96" by simp
  then have "(2::int) ^ 3 * 250000000 \<le> 250000000 * 2 ^ nat 99"
    by (simp only: power_add) simp
  then show ?thesis using backoff_exact [of 3] backoff_exact [of 100] by simp
qed

end
