(* ===== verification/Consumer.thy ===== *)
theory Consumer
  imports Kafka Backoff
begin

text \<open>
  The loop the three consumers share (\<open>main\<close> of services/normalizer, services/archiver and
  services/connector-github): fetch, process, commit. The broker and its client are not part of
  the code; what the loop relies on is what kafka-go documents: \<open>FetchMessage\<close> returns the next
  message of the partition whether or not the last one was committed, committing a message
  commits every message before it, and a member that joins the group starts at the committed
  offset. A run is over one partition, whose messages are a list.
\<close>

section \<open>The loop\<close>

text \<open>
  What the loop does after processing: commit the message, or go on without. \<open>body\<close> relates
  a message and the service's world to what the service can decide and leave behind.
\<close>

datatype verdict = Commit | Retry

type_synonym 'w loop_body = "message \<Rightarrow> 'w \<Rightarrow> verdict \<Rightarrow> 'w \<Rightarrow> bool"

text \<open>
  The offset fetched next, the committed offset, the attempt counter, the service's world, and
  which offsets the loop has decided to commit, and failed to process, so far.
\<close>

record 'w consumer =
  cn_next :: nat
  cn_committed :: nat
  cn_attempt :: int
  cn_world :: 'w
  cn_done :: "nat set"
  cn_failed :: "nat set"

definition consumer_start :: "'w \<Rightarrow> 'w consumer" where
  "consumer_start w =
     \<lparr>cn_next = 0, cn_committed = 0, cn_attempt = 0, cn_world = w, cn_done = {}, cn_failed = {}\<rparr>"

text \<open>A round that ends in a commit, which may itself fail (that is only logged).\<close>

definition committing :: "bool \<Rightarrow> 'w \<Rightarrow> 'w consumer \<Rightarrow> 'w consumer" where
  "committing ok w c =
     c\<lparr>cn_next := Suc (cn_next c),
       cn_committed := (if ok then max (cn_committed c) (Suc (cn_next c)) else cn_committed c),
       cn_attempt := 0, cn_world := w, cn_done := insert (cn_next c) (cn_done c)\<rparr>"

text \<open>A round that ends in the backoff and \<open>continue\<close>.\<close>

definition retrying :: "'w \<Rightarrow> 'w consumer \<Rightarrow> 'w consumer" where
  "retrying w c =
     c\<lparr>cn_next := Suc (cn_next c), cn_attempt := cn_attempt c + 1, cn_world := w,
       cn_failed := insert (cn_next c) (cn_failed c)\<rparr>"

inductive consumer_step :: "'w loop_body \<Rightarrow> message list \<Rightarrow> 'w consumer \<Rightarrow> 'w consumer \<Rightarrow> bool"
  for body :: "'w loop_body" and log :: "message list" where
  commit: "cn_next c < length log \<Longrightarrow> body (log ! cn_next c) (cn_world c) Commit w \<Longrightarrow>
    consumer_step body log c (committing ok w c)"
| retry: "cn_next c < length log \<Longrightarrow> body (log ! cn_next c) (cn_world c) Retry w \<Longrightarrow>
    consumer_step body log c (retrying w c)"
| restart: "consumer_step body log c (c\<lparr>cn_next := cn_committed c, cn_attempt := 0\<rparr>)"

inductive consumer_reach :: "'w loop_body \<Rightarrow> message list \<Rightarrow> 'w \<Rightarrow> 'w consumer \<Rightarrow> bool"
  for body :: "'w loop_body" and log :: "message list" and w :: 'w where
  start: "consumer_reach body log w (consumer_start w)"
| step: "consumer_reach body log w c \<Longrightarrow> consumer_step body log c c' \<Longrightarrow> consumer_reach body log w c'"

abbreviation consumer_steps :: "'w loop_body \<Rightarrow> message list \<Rightarrow> 'w consumer \<Rightarrow> 'w consumer \<Rightarrow> bool" where
  "consumer_steps body log \<equiv> (consumer_step body log)\<^sup>*\<^sup>*"

section \<open>What the loop keeps\<close>

lemmas round_defs = committing_def retrying_def

definition consumer_inv :: "message list \<Rightarrow> 'w consumer \<Rightarrow> bool" where
  "consumer_inv log c \<longleftrightarrow> cn_committed c \<le> cn_next c \<and> cn_next c \<le> length log \<and> 0 \<le> cn_attempt c \<and>
     (\<forall>k < cn_next c. k \<in> cn_done c \<union> cn_failed c)"

lemma consumer_inv_step: "consumer_step body log c c' \<Longrightarrow> consumer_inv log c \<Longrightarrow> consumer_inv log c'"
  by (induction rule: consumer_step.induct) (auto simp: consumer_inv_def round_defs less_Suc_eq)

lemma consumer_inv_reach: "consumer_reach body log w c \<Longrightarrow> consumer_inv log c"
proof (induction rule: consumer_reach.induct)
  case start
  show ?case by (simp add: consumer_inv_def consumer_start_def)
qed (rule consumer_inv_step)

text \<open>So the archiver's \<open>backoff\<close>, which panics on a negative shift, is never called with one.\<close>

lemma consumer_backoff: "consumer_reach body log w c \<Longrightarrow> archiver_backoff (cn_attempt c + 1) \<noteq> None"
  using consumer_inv_reach [of body log w c] by (simp add: consumer_inv_def archiver_backoff_eq)

text \<open>
  A consumer whose body leaves an effect of every message it decides to commit, and destroys no
  effect: then the effect of every committed message is there, but for those that failed.
\<close>

locale at_least_once =
  fixes body :: "'w loop_body" and effect :: "message \<Rightarrow> 'w \<Rightarrow> bool"
  assumes commit_effect: "body msg w Commit w' \<Longrightarrow> effect msg w'"
    and keeps_effect: "effect m w \<Longrightarrow> body msg w v w' \<Longrightarrow> effect m w'"
begin

lemma done_effect: "consumer_reach body log w c \<Longrightarrow> k \<in> cn_done c \<Longrightarrow> effect (log ! k) (cn_world c)"
proof (induction arbitrary: k rule: consumer_reach.induct)
  case (step c c')
  from step.hyps(2) step.IH step.prems show ?case
    by (induction rule: consumer_step.induct) (auto simp: round_defs intro: commit_effect keeps_effect)
qed (simp add: consumer_start_def)

lemma committed_effect:
  assumes "consumer_reach body log w c" "k < cn_committed c" "k \<notin> cn_failed c"
  shows "effect (log ! k) (cn_world c)"
proof -
  have "k < cn_next c" using consumer_inv_reach [OF assms(1)] assms(2) by (simp add: consumer_inv_def)
  then have "k \<in> cn_done c" using consumer_inv_reach [OF assms(1)] assms(3) by (auto simp: consumer_inv_def)
  with assms(1) show ?thesis by (rule done_effect)
qed

end

section \<open>A failed message is not fetched again\<close>

lemma consumer_passed:
  assumes "consumer_steps body log c c'" "consumer_inv log c" "k < cn_committed c" "k \<notin> cn_done c"
  shows "k \<notin> cn_done c' \<and> k < cn_committed c' \<and> consumer_inv log c'"
  using assms
proof (induction rule: rtranclp_induct)
  case (step c1 c2)
  then have i: "consumer_inv log c1" "k < cn_committed c1" "k \<notin> cn_done c1" by auto
  have "consumer_inv log c2" using step.hyps(2) i(1) by (rule consumer_inv_step)
  moreover from step.hyps(2) i have "k \<notin> cn_done c2 \<and> k < cn_committed c2"
    by (induction rule: consumer_step.induct) (auto simp: round_defs consumer_inv_def)
  ultimately show ?case by simp
qed simp

lemma retry_then_commit:
  assumes "consumer_reach body log w c" "cn_next c = k" "k \<notin> cn_done c" "Suc k < length log"
    "body (log ! k) (cn_world c) Retry w1" "body (log ! Suc k) w1 Commit w2"
  shows "\<exists>c'. consumer_steps body log c c' \<and> cn_committed c' = Suc (Suc k) \<and>
    (\<forall>c''. consumer_steps body log c' c'' \<longrightarrow> k \<notin> cn_done c'')"
proof -
  have inv: "consumer_inv log c" by (rule consumer_inv_reach [OF assms(1)])
  let ?c1 = "retrying w1 c"
  let ?c2 = "committing True w2 ?c1"
  have 1: "consumer_step body log c ?c1" using assms(2,4,5) by (intro consumer_step.retry) simp_all
  have 2: "consumer_step body log ?c1 ?c2" using assms(2,4,6) by (intro consumer_step.commit) (simp_all add: retrying_def)
  have "consumer_inv log ?c2" using inv 1 2 consumer_inv_step by blast
  moreover have "cn_committed ?c2 = Suc (Suc k)" "k \<notin> cn_done ?c2"
    using inv assms(2,3) by (simp_all add: round_defs consumer_inv_def)
  ultimately have "\<forall>c''. consumer_steps body log ?c2 c'' \<longrightarrow> k \<notin> cn_done c''"
    using consumer_passed by (metis lessI less_SucI)
  with 1 2 \<open>cn_committed ?c2 = Suc (Suc k)\<close> show ?thesis
    by (intro exI [of _ ?c2]) (meson converse_rtranclp_into_rtranclp r_into_rtranclp)
qed

end
