(* ===== verification/Tables.thy ===== *)
theory Tables
  imports Main
begin

text \<open>
  SQL tables as lists of rows, and the two forms of \<open>INSERT ... ON CONFLICT\<close> the services
  issue: \<open>DO UPDATE\<close> (\<open>upsert\<close>) and \<open>DO NOTHING\<close> (\<open>insert_new\<close>), each against the unique key
  its conflict target names. The locales state what a merge of the stored and the new row has
  to promise and what the client of a table may rely on.
\<close>

section \<open>The operations\<close>

definition find_row :: "('r \<Rightarrow> 'k) \<Rightarrow> 'k \<Rightarrow> 'r list \<Rightarrow> 'r option" where
  "find_row key k rows = find (\<lambda>r. key r = k) rows"

definition upsert :: "('r \<Rightarrow> 'k) \<Rightarrow> ('r \<Rightarrow> 'r \<Rightarrow> 'r) \<Rightarrow> 'r \<Rightarrow> 'r list \<Rightarrow> 'r list" where
  "upsert key merge new rows =
     (if key new \<in> key ` set rows then map (\<lambda>r. if key r = key new then merge r new else r) rows
      else rows @ [new])"

text \<open>The new table and the number of rows affected.\<close>

definition insert_new :: "('r \<Rightarrow> 'k) \<Rightarrow> 'r \<Rightarrow> 'r list \<Rightarrow> 'r list \<times> nat" where
  "insert_new key new rows = (if key new \<in> key ` set rows then (rows, 0) else (rows @ [new], 1))"

section \<open>Their laws\<close>

lemma find_row_Nil [simp]: "find_row key k [] = None"
  by (simp add: find_row_def)

lemma find_row_Cons: "find_row key k (r # rows) = (if key r = k then Some r else find_row key k rows)"
  by (simp add: find_row_def)

lemma find_row_None: "find_row key k rows = None \<longleftrightarrow> k \<notin> key ` set rows"
  by (auto simp: find_row_def find_None_iff)

lemma find_row_Some: "find_row key k rows = Some r \<Longrightarrow> r \<in> set rows \<and> key r = k"
  by (auto simp: find_row_def find_Some_iff)

lemma find_row_append:
  "find_row key k (rows @ rows') =
     (case find_row key k rows of None \<Rightarrow> find_row key k rows' | Some r \<Rightarrow> Some r)"
  by (induction rows) (auto simp: find_row_Cons)

lemma find_row_map:
  "(\<And>r. key (f r) = key r) \<Longrightarrow> find_row key k (map f rows) = map_option f (find_row key k rows)"
  by (induction rows) (auto simp: find_row_Cons)

lemma find_row_distinct:
  "distinct (map key rows) \<Longrightarrow> r \<in> set rows \<Longrightarrow> find_row key (key r) rows = Some r"
  by (induction rows) (auto simp: find_row_Cons)

lemma insert_new_distinct: "distinct (map key rows) \<Longrightarrow> distinct (map key (fst (insert_new key new rows)))"
  by (simp add: insert_new_def)

lemma insert_new_find:
  "find_row key k (fst (insert_new key new rows)) =
     (if k = key new \<and> find_row key k rows = None then Some new else find_row key k rows)"
proof (cases "find_row key (key new) rows")
  case None
  then have "key new \<notin> key ` set rows" unfolding find_row_None .
  with None show ?thesis
    by (cases "find_row key k rows") (auto simp: insert_new_def find_row_append find_row_Cons)
next
  case (Some r)
  then have "key new \<in> key ` set rows" using find_row_None [of key "key new" rows] by simp
  with Some show ?thesis by (auto simp: insert_new_def)
qed

lemma insert_new_twice: "fst (insert_new key new (fst (insert_new key new rows))) = fst (insert_new key new rows)"
  by (simp add: insert_new_def)

lemma insert_new_fresh: "snd (insert_new key new rows) = 1 \<longleftrightarrow> find_row key (key new) rows = None"
  by (simp add: insert_new_def find_row_None)

lemma insert_new_filter:
  "\<not> P new \<Longrightarrow> filter P (fst (insert_new key new rows)) = filter P rows"
  by (simp add: insert_new_def)

locale keyed_upsert =
  fixes key :: "'r \<Rightarrow> 'k" and merge :: "'r \<Rightarrow> 'r \<Rightarrow> 'r"
  assumes merge_key: "key (merge old new) = key old"
begin

lemma upsert_keys:
  "map key (upsert key merge new rows) =
     (if key new \<in> key ` set rows then map key rows else map key rows @ [key new])"
  by (simp add: upsert_def comp_def merge_key cong: if_cong)

lemma upsert_distinct: "distinct (map key rows) \<Longrightarrow> distinct (map key (upsert key merge new rows))"
  by (simp add: upsert_keys)

lemma upsert_find:
  "find_row key k (upsert key merge new rows) =
     (if k = key new
      then Some (case find_row key k rows of None \<Rightarrow> new | Some old \<Rightarrow> merge old new)
      else find_row key k rows)"
proof (cases "key new \<in> key ` set rows")
  case True
  then obtain old where old: "find_row key (key new) rows = Some old"
    using find_row_None [of key "key new" rows] by fastforce
  have "find_row key k (upsert key merge new rows) =
      map_option (\<lambda>r. if key r = key new then merge r new else r) (find_row key k rows)"
    using True by (simp add: upsert_def find_row_map merge_key)
  with old show ?thesis
    by (cases "find_row key k rows") (auto dest: find_row_Some)
next
  case False
  then have "find_row key (key new) rows = None" by (simp add: find_row_None)
  with False show ?thesis
    by (cases "find_row key k rows") (auto simp: upsert_def find_row_append find_row_Cons)
qed

lemma upsert_filter:
  assumes "\<And>r. key r = key new \<Longrightarrow> \<not> P r"
  shows "filter P (upsert key merge new rows) = filter P rows"
proof -
  have "\<not> P (merge r new)" if "key r = key new" for r
    using assms that merge_key by metis
  then have "filter P (map (\<lambda>r. if key r = key new then merge r new else r) rows) = filter P rows"
    using assms by (induction rows) auto
  then show ?thesis using assms by (auto simp: upsert_def)
qed

lemma upsert_row:
  "r \<in> set (upsert key merge new rows) \<Longrightarrow>
   r = new \<or> r \<in> set rows \<or> (\<exists>old \<in> set rows. key old = key new \<and> r = merge old new)"
  by (auto simp: upsert_def split: if_splits)

end

text \<open>Writing the same row twice is writing it once, if the merge does not accumulate.\<close>

locale idempotent_upsert = keyed_upsert +
  assumes merge_idem: "merge (merge old new) new = merge old new"
    and merge_self: "merge new new = new"
begin

lemma upsert_twice:
  "upsert key merge new (upsert key merge new rows) = upsert key merge new rows"
proof -
  have "key new \<in> key ` set (upsert key merge new rows)"
    using upsert_keys [of new rows] by (metis list.set_map set_append UnI2 list.set_intros(1))
  then have "upsert key merge new (upsert key merge new rows) =
      map (\<lambda>r. if key r = key new then merge r new else r) (upsert key merge new rows)"
    by (simp add: upsert_def [of key merge new "upsert key merge new rows"])
  also have "\<dots> = upsert key merge new rows"
  proof (rule map_idI)
    fix r assume "r \<in> set (upsert key merge new rows)"
    then have "r = new \<or> key r \<noteq> key new \<or> (\<exists>old. r = merge old new)"
      by (cases "key new \<in> key ` set rows") (auto simp: upsert_def image_iff)
    then show "(if key r = key new then merge r new else r) = r"
      by (auto simp: merge_idem merge_self)
  qed
  finally show ?thesis .
qed

end

text \<open>A merge that keeps the stored row changes no stored row at all.\<close>

locale keeping_upsert = keyed_upsert +
  assumes merge_keeps: "merge old new = old"
begin

lemma keep_all: "map (\<lambda>r. if key r = key new then merge r new else r) rows = rows"
  by (rule map_idI) (simp add: merge_keeps)

lemma upsert_keeps: "take (length rows) (upsert key merge new rows) = rows"
  by (simp add: upsert_def keep_all)

lemma upsert_existing: "key new \<in> key ` set rows \<Longrightarrow> upsert key merge new rows = rows"
  by (simp add: upsert_def keep_all)

end

end
