(* ===== verification/WriteModel.thy ===== *)
theory WriteModel
  imports Tables GoTime GoJsonFacts
begin

text \<open>
  The Postgres write model (db/migrations): one record per row type the services write, the
  tables of a database, the values a column accepts, row-level security, and the statements
  the services issue, each as a function on the tables. A statement that a constraint or a
  column type refuses is an error.
\<close>

section \<open>Rows\<close>

record work_item_row =
  w_tenant :: string
  w_id :: string
  w_type :: string
  w_repo :: string
  w_node :: string
  w_number :: int
  w_title :: string
  w_status :: string
  w_stage :: string
  w_author :: string
  w_changed :: int
  w_additions :: int
  w_deletions :: int
  w_created :: gtime
  w_merged :: "gtime option"
  w_closed :: "gtime option"
  w_updated :: gtime

record review_row =
  v_tenant :: string
  v_id :: string
  v_work_item :: string
  v_reviewer :: string
  v_source :: string
  v_state :: string
  v_comments :: int
  v_submitted :: gtime

record check_run_row =
  k_tenant :: string
  k_id :: string
  k_source :: string
  k_head_sha :: string
  k_name :: string
  k_conclusion :: "string option"
  k_started :: "gtime option"
  k_completed :: "gtime option"

record contributor_row =
  c_tenant :: string
  c_id :: string
  c_name :: string
  c_is_bot :: bool

record identity_row =
  i_tenant :: string
  i_id :: string
  i_contributor :: string
  i_kind :: string
  i_hash :: string

record delivery_row =
  d_tenant :: string
  d_delivery :: string
  d_event :: string

record outbox_row =
  o_id :: int
  o_tenant :: string
  o_event_id :: string
  o_topic :: string
  o_key :: string
  o_trace :: string
  o_traceparent :: string
  o_payload :: bytes
  o_published :: "gtime option"

record capability_row =
  y_tenant :: string
  y_repo :: string
  y_deployments :: bool
  y_releases :: bool
  y_detected :: gtime

record tables =
  t_items :: "work_item_row list"
  t_reviews :: "review_row list"
  t_checks :: "check_run_row list"
  t_contributors :: "contributor_row list"
  t_links :: "identity_row list"
  t_deliveries :: "delivery_row list"
  t_outbox :: "outbox_row list"
  t_capabilities :: "capability_row list"

section \<open>Column types\<close>

text \<open>
  A \<open>text\<close> is valid UTF-8 without the byte 0; an \<open>int\<close> column has 32 bits; a \<open>timestamptz\<close>
  keeps microseconds and no zone.
\<close>

definition pg_text :: "string \<Rightarrow> bool" where
  "pg_text s \<longleftrightarrow> valid_utf8 s \<and> list_all (\<lambda>c. byte c \<noteq> 0) s"

definition pg_int4 :: "int \<Rightarrow> bool" where
  "pg_int4 x \<longleftrightarrow> - (2 ^ 31) \<le> x \<and> x < 2 ^ 31"

definition pg_time :: "gtime \<Rightarrow> gtime" where
  "pg_time t = GTime (inst t div 1000 * 1000) 0"

lemma pg_time_idem [simp]: "pg_time (pg_time t) = pg_time t"
  by (simp add: pg_time_def)

definition item_row_ok :: "work_item_row \<Rightarrow> bool" where
  "item_row_ok w \<longleftrightarrow>
     w_type w \<in> {''pr'', ''issue'', ''commit''} \<and>
     list_all pg_text [w_repo w, w_node w, w_title w, w_status w, w_stage w, w_author w] \<and>
     list_all pg_int4 [w_number w, w_changed w, w_additions w, w_deletions w]"

definition review_row_ok :: "review_row \<Rightarrow> bool" where
  "review_row_ok v \<longleftrightarrow> list_all pg_text [v_source v, v_state v] \<and> pg_int4 (v_comments v)"

definition check_row_ok :: "check_run_row \<Rightarrow> bool" where
  "check_row_ok k \<longleftrightarrow>
     list_all pg_text [k_source k, k_head_sha k, k_name k] \<and>
     (case k_conclusion k of None \<Rightarrow> True | Some c \<Rightarrow> pg_text c)"

section \<open>Keys and merges\<close>

definition item_key :: "work_item_row \<Rightarrow> string \<times> string \<times> string \<times> string" where
  "item_key w = (w_tenant w, w_repo w, w_type w, w_node w)"

definition review_key :: "review_row \<Rightarrow> string \<times> string" where
  "review_key v = (v_tenant v, v_source v)"

definition check_key :: "check_run_row \<Rightarrow> string \<times> string" where
  "check_key k = (k_tenant k, k_source k)"

definition link_key :: "identity_row \<Rightarrow> string \<times> string \<times> string" where
  "link_key i = (i_tenant i, i_kind i, i_hash i)"

definition delivery_key :: "delivery_row \<Rightarrow> string \<times> string" where
  "delivery_key d = (d_tenant d, d_delivery d)"

definition capability_key :: "capability_row \<Rightarrow> string \<times> string" where
  "capability_key y = (y_tenant y, y_repo y)"

text \<open>The \<open>DO UPDATE SET\<close> clauses.\<close>

definition item_update :: "work_item_row \<Rightarrow> work_item_row \<Rightarrow> work_item_row" where
  "item_update old new =
     old\<lparr>w_title := w_title new, w_status := w_status new, w_stage := w_stage new,
         w_changed := w_changed new, w_additions := w_additions new, w_deletions := w_deletions new,
         w_merged := w_merged new, w_closed := w_closed new, w_updated := w_updated new\<rparr>"

definition item_ensure :: "work_item_row \<Rightarrow> work_item_row \<Rightarrow> work_item_row" where
  "item_ensure old new = old\<lparr>w_updated := w_updated old\<rparr>"

definition review_update :: "review_row \<Rightarrow> review_row \<Rightarrow> review_row" where
  "review_update old new =
     old\<lparr>v_state := v_state new, v_comments := v_comments new, v_submitted := v_submitted new\<rparr>"

definition check_update :: "check_run_row \<Rightarrow> check_run_row \<Rightarrow> check_run_row" where
  "check_update old new =
     old\<lparr>k_conclusion := k_conclusion new, k_started := k_started new, k_completed := k_completed new\<rparr>"

definition capability_update :: "capability_row \<Rightarrow> capability_row \<Rightarrow> capability_row" where
  "capability_update old new =
     old\<lparr>y_deployments := y_deployments new, y_releases := y_releases new, y_detected := y_detected new\<rparr>"

interpretation items: idempotent_upsert item_key item_update
  by unfold_locales (simp_all add: item_key_def item_update_def)

interpretation ensured: keeping_upsert item_key item_ensure
  by unfold_locales (simp_all add: item_key_def item_ensure_def)

interpretation reviews: idempotent_upsert review_key review_update
  by unfold_locales (simp_all add: review_key_def review_update_def)

interpretation checks: idempotent_upsert check_key check_update
  by unfold_locales (simp_all add: check_key_def check_update_def)

interpretation capabilities: idempotent_upsert capability_key capability_update
  by unfold_locales (simp_all add: capability_key_def capability_update_def)

section \<open>Statements\<close>

text \<open>
  Every policy is \<open>tenant_id = current_setting('app.tenant_id')\<close>, as \<open>USING\<close> and as
  \<open>WITH CHECK\<close>: \<open>app\<close> is the tenant the transaction runs under. A statement gives \<open>None\<close> on
  an error, else its result and the new tables.
\<close>

type_synonym 'a statement = "tables \<Rightarrow> ('a \<times> tables) option"

definition stmt_item :: "string \<Rightarrow> (work_item_row \<Rightarrow> work_item_row \<Rightarrow> work_item_row) \<Rightarrow> work_item_row \<Rightarrow> string statement" where
  "stmt_item app merge new t =
     (if w_tenant new = app \<and> item_row_ok new then
        let rows = upsert item_key merge new (t_items t)
        in Some (w_id (the (find_row item_key (item_key new) rows)), t\<lparr>t_items := rows\<rparr>)
      else None)"

definition stmt_review :: "string \<Rightarrow> review_row \<Rightarrow> unit statement" where
  "stmt_review app new t =
     (if v_tenant new = app \<and> review_row_ok new
      then Some ((), t\<lparr>t_reviews := upsert review_key review_update new (t_reviews t)\<rparr>) else None)"

definition stmt_check :: "string \<Rightarrow> check_run_row \<Rightarrow> unit statement" where
  "stmt_check app new t =
     (if k_tenant new = app \<and> check_row_ok new
      then Some ((), t\<lparr>t_checks := upsert check_key check_update new (t_checks t)\<rparr>) else None)"

definition stmt_contributor :: "string \<Rightarrow> contributor_row \<Rightarrow> string statement" where
  "stmt_contributor app new t =
     (if c_tenant new = app \<and> pg_text (c_name new)
      then Some (c_id new, t\<lparr>t_contributors := t_contributors t @ [new]\<rparr>) else None)"

definition stmt_select_link :: "string \<Rightarrow> string \<Rightarrow> string \<Rightarrow> string \<Rightarrow> string option statement" where
  "stmt_select_link app tenant kind hash t =
     Some (map_option i_contributor
             (find_row link_key (tenant, kind, hash) (filter (\<lambda>i. i_tenant i = app) (t_links t))), t)"

definition stmt_link :: "string \<Rightarrow> identity_row \<Rightarrow> nat statement" where
  "stmt_link app new t =
     (if i_tenant new = app \<and> pg_text (i_hash new) then
        let (rows, n) = insert_new link_key new (t_links t) in Some (n, t\<lparr>t_links := rows\<rparr>)
      else None)"

definition stmt_delivery :: "string \<Rightarrow> delivery_row \<Rightarrow> nat statement" where
  "stmt_delivery app new t =
     (if d_tenant new = app \<and> pg_text (d_delivery new) \<and> pg_text (d_event new) then
        let (rows, n) = insert_new delivery_key new (t_deliveries t)
        in Some (n, t\<lparr>t_deliveries := rows\<rparr>)
      else None)"

definition stmt_outbox :: "string \<Rightarrow> outbox_row \<Rightarrow> unit statement" where
  "stmt_outbox app new t =
     (if o_tenant new = app \<and> list_all pg_text [o_topic new, o_key new, o_trace new, o_traceparent new]
      then Some ((), t\<lparr>t_outbox := t_outbox t @ [new]\<rparr>) else None)"

definition stmt_capability :: "string \<Rightarrow> capability_row \<Rightarrow> unit statement" where
  "stmt_capability app new t =
     (if y_tenant new = app \<and> pg_text (y_repo new)
      then Some ((), t\<lparr>t_capabilities := upsert capability_key capability_update new (t_capabilities t)\<rparr>)
      else None)"

lemmas stmt_defs =
  stmt_item_def stmt_review_def stmt_check_def stmt_contributor_def stmt_select_link_def
  stmt_link_def stmt_delivery_def stmt_outbox_def stmt_capability_def

end
