(* ===== verification/Tenancy.thy ===== *)
theory Tenancy
  imports WriteModel
begin

text \<open>
  Transactions and the tenant scope (libs/go/tenancy/tenancy.go). A computation inside a
  transaction reads an environment (which statement fails, what other transactions commit in
  between, the supply of fresh ids, the clock, the trace) and threads a state; \<open>WithTenant\<close>
  runs one under a tenant and commits or rolls back. The locale \<open>frame\<close> carries a relation
  between the tables before and after through every computation.
\<close>

section \<open>Errors\<close>

text \<open>
  What a transaction's function can fail with: the database (a fault, or a value a column
  refuses: the services do not tell them apart), a value that cannot be marshalled, a
  duplicate delivery, or a permanent error with its message.
\<close>

datatype tx_error = DbError | MarshalError | Duplicate | Permanent string

section \<open>Computations\<close>

datatype commit_outcome = CommitOk | CommitLost | CommitUnknown

record tx_env =
  env_tenant :: string
  env_now :: gtime
  env_fails :: "nat \<Rightarrow> bool"
  env_rival :: "nat \<Rightarrow> tables \<Rightarrow> tables"
  env_uuid :: "nat \<Rightarrow> string"
  env_commit :: commit_outcome
  env_traceid :: string
  env_traceparent :: string

text \<open>
  \<open>tx_tabs\<close> is what the transaction sees, its own writes included; \<open>tx_others\<close> what is there
  without them, and what a rollback leaves. \<open>tx_seq\<close> is the sequence of \<open>outbox_id\<close>, which
  a rollback does not rewind; then the statement and the fresh-id counters.
\<close>

record tx_state =
  tx_tabs :: tables
  tx_others :: tables
  tx_seq :: int
  tx_stmt :: nat
  tx_uuid :: nat

type_synonym 'a tx = "(tx_env, tx_state, tx_error, 'a) eff"

text \<open>A fresh uuid, of the database's \<open>gen_random_uuid()\<close> or of \<open>uuid.NewString\<close>.\<close>

definition tx_fresh :: "string tx" where
  "tx_fresh env s = (Inr (env_uuid env (tx_uuid s)), s\<lparr>tx_uuid := Suc (tx_uuid s)\<rparr>)"

text \<open>The next value of the identity column, taken even if the insert then fails.\<close>

definition tx_nextval :: "int tx" where
  "tx_nextval env s = (Inr (tx_seq s), s\<lparr>tx_seq := tx_seq s + 1\<rparr>)"

text \<open>
  A statement: first what other transactions committed meanwhile becomes visible, then it
  fails or runs.
\<close>

definition tx_step :: "tx_env \<Rightarrow> tx_state \<Rightarrow> tx_state" where
  "tx_step env s =
     s\<lparr>tx_tabs := env_rival env (tx_stmt s) (tx_tabs s),
       tx_others := env_rival env (tx_stmt s) (tx_others s), tx_stmt := Suc (tx_stmt s)\<rparr>"

definition tx_exec :: "(string \<Rightarrow> 'a statement) \<Rightarrow> 'a tx" where
  "tx_exec f env s =
     (let s' = tx_step env s in
      if env_fails env (tx_stmt s) then (Inl DbError, s')
      else case f (env_tenant env) (tx_tabs s') of
        None \<Rightarrow> (Inl DbError, s')
      | Some (x, t) \<Rightarrow> (Inr x, s'\<lparr>tx_tabs := t\<rparr>))"

lemmas tx_defs [go_simps] = eff_defs tx_fresh_def tx_nextval_def

section \<open>The store\<close>

text \<open>
  The database as the services see it: the tables, the sequence, and the control plane's
  \<open>github_installation\<close> (no row-level security).
\<close>

record database =
  db_tabs :: tables
  db_seq :: int
  db_installations :: "int \<rightharpoonup> string"

datatype resolve_error = UnknownInstallation | ResolveFault

definition ResolveTenant :: "bool \<Rightarrow> database \<Rightarrow> int \<Rightarrow> resolve_error + string" where
  "ResolveTenant fault db installation =
     (if fault then Inl ResolveFault
      else case db_installations db installation of
        None \<Rightarrow> Inl UnknownInstallation
      | Some tenant \<Rightarrow> Inr tenant)"

text \<open>
  \<open>WithTenant\<close>: statements 0 and 1 are \<open>BEGIN\<close> and \<open>set_config\<close>. On an error of the function
  the deferred rollback leaves the others' tables; a commit can fail with or without having
  taken effect.
\<close>

definition tx_begin :: "tx_env \<Rightarrow> database \<Rightarrow> tx_state" where
  "tx_begin env db =
     \<lparr>tx_tabs = db_tabs db, tx_others = db_tabs db, tx_seq = db_seq db, tx_stmt = 2, tx_uuid = 0\<rparr>"

definition WithTenant :: "tx_env \<Rightarrow> string \<Rightarrow> unit tx \<Rightarrow> database \<Rightarrow> (tx_error + unit) \<times> database" where
  "WithTenant env tenant fn db =
     (if env_fails env 0 \<or> env_fails env 1 then (Inl DbError, db)
      else
        case fn (env\<lparr>env_tenant := tenant\<rparr>) (tx_begin env db) of
          (Inl e, s) \<Rightarrow> (Inl e, db\<lparr>db_tabs := tx_others s, db_seq := tx_seq s\<rparr>)
        | (Inr _, s) \<Rightarrow>
            (case env_commit env of
               CommitOk \<Rightarrow> (Inr (), db\<lparr>db_tabs := tx_tabs s, db_seq := tx_seq s\<rparr>)
             | CommitLost \<Rightarrow> (Inl DbError, db\<lparr>db_tabs := tx_others s, db_seq := tx_seq s\<rparr>)
             | CommitUnknown \<Rightarrow> (Inl DbError, db\<lparr>db_tabs := tx_tabs s, db_seq := tx_seq s\<rparr>)))"

section \<open>Carrying a relation through a computation\<close>

definition frames :: "string \<Rightarrow> (tables \<Rightarrow> tables \<Rightarrow> bool) \<Rightarrow> 'a tx \<Rightarrow> bool" where
  "frames tenant R m \<longleftrightarrow>
     (\<forall>env s. env_tenant env = tenant \<longrightarrow> (\<forall>n t. R t (env_rival env n t)) \<longrightarrow>
        R (tx_tabs s) (tx_tabs (snd (m env s))))"

named_theorems frame_rules \<open>how a relation on the tables passes through a computation\<close>

locale frame =
  fixes R :: "tables \<Rightarrow> tables \<Rightarrow> bool"
  assumes R_refl: "R t t"
    and R_trans: "R t u \<Longrightarrow> R u v \<Longrightarrow> R t v"
begin

lemma frame_return: "frames tenant R (eff_return x)"
  by (simp add: frames_def eff_return_def R_refl)

lemma frame_fail: "frames tenant R (eff_fail e)"
  by (simp add: frames_def eff_fail_def R_refl)

lemma frame_fresh: "frames tenant R tx_fresh"
  by (simp add: frames_def tx_fresh_def R_refl)

lemma frame_ask: "frames tenant R (eff_ask f)"
  by (simp add: frames_def eff_ask_def R_refl)

lemma frame_nextval: "frames tenant R tx_nextval"
  by (simp add: frames_def tx_nextval_def R_refl)

lemma frame_bind:
  assumes "frames tenant R m" "\<And>x. frames tenant R (f x)"
  shows "frames tenant R (eff_bind m f)"
  unfolding frames_def
proof (intro allI impI)
  fix env :: tx_env and s assume e: "env_tenant env = tenant" "\<forall>n t. R t (env_rival env n t)"
  obtain r s' where m: "m env s = (r, s')" by fastforce
  with assms(1) e have 1: "R (tx_tabs s) (tx_tabs s')" unfolding frames_def by (metis snd_conv)
  show "R (tx_tabs s) (tx_tabs (snd (eff_bind m f env s)))"
  proof (cases r)
    case (Inr x)
    with assms(2) [of x] e have "R (tx_tabs s') (tx_tabs (snd (f x env s')))" by (simp add: frames_def)
    with 1 have "R (tx_tabs s) (tx_tabs (snd (f x env s')))" by (rule R_trans)
    with m Inr show ?thesis by (simp add: eff_bind_def)
  qed (use m 1 in \<open>simp add: eff_bind_def\<close>)
qed

lemma frame_exec:
  assumes "\<And>t x t'. f tenant t = Some (x, t') \<Longrightarrow> R t t'"
  shows "frames tenant R (tx_exec f)"
  unfolding frames_def
proof (intro allI impI)
  fix env :: tx_env and s assume e: "env_tenant env = tenant" "\<forall>n t. R t (env_rival env n t)"
  then have 1: "R (tx_tabs s) (tx_tabs (tx_step env s))" by (simp add: tx_step_def)
  have "R (tx_tabs s) t'" if "f tenant (tx_tabs (tx_step env s)) = Some (x, t')" for x t'
    using assms [OF that] 1 R_trans by blast
  with 1 e show "R (tx_tabs s) (tx_tabs (snd (tx_exec f env s)))"
    by (auto simp: tx_exec_def Let_def split: option.split)
qed

lemma frame_if: "(b \<Longrightarrow> frames tenant R m) \<Longrightarrow> (\<not> b \<Longrightarrow> frames tenant R m') \<Longrightarrow> frames tenant R (if b then m else m')"
  by simp

lemma frame_option:
  "(\<And>x. o' = Some x \<Longrightarrow> frames tenant R (f x)) \<Longrightarrow> (o' = None \<Longrightarrow> frames tenant R m) \<Longrightarrow>
   frames tenant R (case o' of None \<Rightarrow> m | Some x \<Rightarrow> f x)"
  by (cases o') simp_all

lemmas frame_intros = frame_return frame_fail frame_fresh frame_ask frame_nextval frame_bind frame_if frame_option

end

lemma frames_run:
  assumes "frames tenant R m" "m env s = (r, s')" "env_tenant env = tenant" "\<And>n t. R t (env_rival env n t)"
  shows "R (tx_tabs s) (tx_tabs s')"
  using assms unfolding frames_def by (metis snd_conv)

text \<open>What the others leave does not depend on the computation: a rollback undoes it all.\<close>

definition quiet :: "tx_env \<Rightarrow> bool" where
  "quiet env \<longleftrightarrow> (\<forall>n t. env_rival env n t = t)"

definition keeps_others :: "'a tx \<Rightarrow> bool" where
  "keeps_others m \<longleftrightarrow> (\<forall>env s. quiet env \<longrightarrow> tx_others (snd (m env s)) = tx_others s)"

named_theorems others_rules \<open>computations keep what the other transactions left\<close>

lemma keeps_others_basic [others_rules]:
  "keeps_others (eff_return x)" "keeps_others (eff_fail e)" "keeps_others tx_fresh"
  "keeps_others (eff_ask f)" "keeps_others tx_nextval" "keeps_others (tx_exec g)"
  by (auto simp: keeps_others_def quiet_def tx_exec_def tx_step_def tx_defs Let_def split: option.split)

lemma keeps_others_bind [others_rules]:
  assumes "keeps_others m" "\<And>x. keeps_others (f x)"
  shows "keeps_others (eff_bind m f)"
  unfolding keeps_others_def
proof (intro allI impI)
  fix env :: tx_env and s assume q: "quiet env"
  obtain r s' where m: "m env s = (r, s')" by fastforce
  with assms(1) q have 1: "tx_others s' = tx_others s" unfolding keeps_others_def by (metis snd_conv)
  with assms(2) q m show "tx_others (snd (eff_bind m f env s)) = tx_others s"
    by (cases r) (auto simp: eff_bind_def keeps_others_def)
qed

lemma keeps_others_if [others_rules]:
  "(b \<Longrightarrow> keeps_others m) \<Longrightarrow> (\<not> b \<Longrightarrow> keeps_others m') \<Longrightarrow> keeps_others (if b then m else m')"
  by simp

lemma keeps_others_option [others_rules]:
  "(\<And>x. o' = Some x \<Longrightarrow> keeps_others (f x)) \<Longrightarrow> (o' = None \<Longrightarrow> keeps_others m) \<Longrightarrow>
   keeps_others (case o' of None \<Rightarrow> m | Some x \<Rightarrow> f x)"
  by (cases o') simp_all

lemma WithTenant_atomic:
  assumes "keeps_others fn" "quiet env" "env_commit env \<noteq> CommitUnknown" "WithTenant env tenant fn db = (Inl e, db')"
  shows "db_tabs db' = db_tabs db"
proof -
  have q: "quiet (env\<lparr>env_tenant := tenant\<rparr>)" using assms(2) by (simp add: quiet_def)
  obtain r s where fn: "fn (env\<lparr>env_tenant := tenant\<rparr>) (tx_begin env db) = (r, s)" by fastforce
  then have "tx_others s = db_tabs db"
    using assms(1) q unfolding keeps_others_def by (metis snd_conv tx_begin_def tx_state.select_convs(2))
  with assms(3,4) fn show ?thesis
    by (cases r) (auto simp: WithTenant_def split: if_splits commit_outcome.splits)
qed

lemma WithTenant_rollback:
  assumes "keeps_others fn" "quiet env" "WithTenant env tenant fn db = (Inl e, db')" "e \<noteq> DbError"
  shows "db_tabs db' = db_tabs db"
proof -
  have q: "quiet (env\<lparr>env_tenant := tenant\<rparr>)" using assms(2) by (simp add: quiet_def)
  obtain r s where fn: "fn (env\<lparr>env_tenant := tenant\<rparr>) (tx_begin env db) = (r, s)" by fastforce
  then have "tx_others s = db_tabs db"
    using assms(1) q unfolding keeps_others_def by (metis snd_conv tx_begin_def tx_state.select_convs(2))
  with assms(3,4) fn show ?thesis
    by (cases r) (auto simp: WithTenant_def split: if_splits commit_outcome.splits)
qed

lemma WithTenant_frame:
  assumes "frames tenant R fn" "\<And>n t. R t (env_rival env n t)" "keeps_others fn" "quiet env" "R (db_tabs db) (db_tabs db)"
    "WithTenant env tenant fn db = (r, db')"
  shows "R (db_tabs db) (db_tabs db')"
proof -
  have q: "quiet (env\<lparr>env_tenant := tenant\<rparr>)" using assms(4) by (simp add: quiet_def)
  obtain r' s where fn: "fn (env\<lparr>env_tenant := tenant\<rparr>) (tx_begin env db) = (r', s)" by fastforce
  then have o: "tx_others s = db_tabs db"
    using assms(3) q unfolding keeps_others_def by (metis snd_conv tx_begin_def tx_state.select_convs(2))
  have "R (tx_tabs (tx_begin env db)) (tx_tabs s)"
    by (rule frames_run [OF assms(1) fn]) (simp_all add: assms(2))
  then have "R (db_tabs db) (tx_tabs s)" by (simp add: tx_begin_def)
  with assms(5,6) fn o show ?thesis
    by (cases r') (auto simp: WithTenant_def split: if_splits commit_outcome.splits)
qed

lemma WithTenant_ok:
  assumes "WithTenant env tenant fn db = (Inr (), db')"
  obtains s where "fn (env\<lparr>env_tenant := tenant\<rparr>) (tx_begin env db) = (Inr (), s)" "db_tabs db' = tx_tabs s"
    "db_seq db' = tx_seq s" "db_installations db' = db_installations db" "env_commit env = CommitOk"
proof -
  obtain r s where fn: "fn (env\<lparr>env_tenant := tenant\<rparr>) (tx_begin env db) = (r, s)" by fastforce
  with assms that show ?thesis
    by (cases r) (auto simp: WithTenant_def split: if_splits commit_outcome.splits)
qed

end
