(* ===== verification/Events.thy ===== *)
theory Events
  imports GoJsonCodec
begin

text \<open>
  The canonical domain event (libs/go/events/event.go): topics, header names, event types,
  the envelope, its constructor and the bytes \<open>json.Marshal\<close> makes of it, with the contract
  of record (schemas/events/canonical_event.schema.json) as a predicate on trees.
\<close>

section \<open>Names\<close>

definition TopicRawGitHub :: string where "TopicRawGitHub = ''raw.github''"
definition TopicEnrichedGitHub :: string where "TopicEnrichedGitHub = ''enriched.github''"
definition TopicCanonical :: string where "TopicCanonical = ''canonical.events''"
definition TopicDeadLetter :: string where "TopicDeadLetter = ''raw.github.dlq''"

definition HeaderTraceParent :: string where "HeaderTraceParent = ''traceparent''"
definition HeaderTraceID :: string where "HeaderTraceID = ''trace-id''"
definition HeaderGitHubEvent :: string where "HeaderGitHubEvent = ''x-github-event''"
definition HeaderGitHubDeliv :: string where "HeaderGitHubDeliv = ''x-github-delivery''"
definition HeaderDLQReason :: string where "HeaderDLQReason = ''dlq-reason''"
definition HeaderEnrichStatus :: string where "HeaderEnrichStatus = ''enrich-status''"
definition HeaderOccurredAt :: string where "HeaderOccurredAt = ''occurred-at''"

lemmas header_names =
  HeaderTraceParent_def HeaderTraceID_def HeaderGitHubEvent_def HeaderGitHubDeliv_def
  HeaderDLQReason_def HeaderEnrichStatus_def HeaderOccurredAt_def

text \<open>\<open>EventType\<close> is a named string type; its zero value is the empty string.\<close>

type_synonym event_type = string

definition WorkItemCreated :: event_type where "WorkItemCreated = ''work_item.created''"
definition WorkItemUpdated :: event_type where "WorkItemUpdated = ''work_item.updated''"
definition WorkItemStateChanged :: event_type where "WorkItemStateChanged = ''work_item.state_changed''"
definition WorkItemClosed :: event_type where "WorkItemClosed = ''work_item.closed''"
definition ReviewSubmitted :: event_type where "ReviewSubmitted = ''review.submitted''"
definition CommentAdded :: event_type where "CommentAdded = ''comment.added''"
definition CommitObserved :: event_type where "CommitObserved = ''commit.observed''"
definition CheckCompleted :: event_type where "CheckCompleted = ''check.completed''"

definition event_types :: "event_type list" where
  "event_types = [WorkItemCreated, WorkItemUpdated, WorkItemStateChanged, WorkItemClosed,
     ReviewSubmitted, CommentAdded, CommitObserved, CheckCompleted]"

lemmas event_type_names =
  WorkItemCreated_def WorkItemUpdated_def WorkItemStateChanged_def WorkItemClosed_def
  ReviewSubmitted_def CommentAdded_def CommitObserved_def CheckCompleted_def

definition SourceGitHub :: string where "SourceGitHub = ''github''"

section \<open>The envelope\<close>

text \<open>
  The payload is a Go \<open>map[string]any\<close>: distinct keys, each value held as the tree
  \<open>json.Marshal\<close> makes of it.
\<close>

type_synonym payload = "(string \<times> json) list"

record canonical_event =
  ev_id :: string
  ev_tenant :: string
  ev_type :: event_type
  ev_source :: string
  ev_source_id :: string
  ev_occurred :: gtime
  ev_version :: int
  ev_payload :: payload

text \<open>\<open>events.New\<close>; the fresh id of \<open>uuid.NewString\<close> is the first argument.\<close>

definition event_new :: "string \<Rightarrow> string \<Rightarrow> event_type \<Rightarrow> string \<Rightarrow> gtime \<Rightarrow> payload \<Rightarrow> canonical_event" where
  "event_new uuid tenant t sid occurred p =
     \<lparr>ev_id = uuid, ev_tenant = tenant, ev_type = t, ev_source = SourceGitHub, ev_source_id = sid,
      ev_occurred = occurred, ev_version = 1, ev_payload = p\<rparr>"

text \<open>\<open>json.Marshal\<close> of an event: an error (\<open>None\<close>) when the time cannot be written.\<close>

definition enc_event :: "canonical_event \<Rightarrow> json option" where
  "enc_event ev =
     map_option (\<lambda>t. enc_members
       [(''event_id'', enc_string (ev_id ev)),
        (''tenant_id'', enc_string (ev_tenant ev)),
        (''type'', enc_string (ev_type ev)),
        (''source'', enc_string (ev_source ev)),
        (''source_event_id'', enc_string (ev_source_id ev)),
        (''occurred_at'', JStr t),
        (''version'', enc_int (ev_version ev)),
        (''payload'', enc_map (ev_payload ev))])
     (marshal_time (ev_occurred ev))"

definition marshal_event :: "canonical_event \<Rightarrow> bytes option" where
  "marshal_event ev = map_option json_print (enc_event ev)"

section \<open>The contract of record\<close>

text \<open>The \<open>format\<close> uuid: hexadecimal digits in groups of 8, 4, 4, 4 and 12.\<close>

definition is_uuid :: "string \<Rightarrow> bool" where
  "is_uuid s \<longleftrightarrow> map length (split_on (CHR ''-'') s) = [8, 4, 4, 4, 12] \<and>
                list_all (list_all is_hex) (split_on (CHR ''-'') s)"

fun str_member :: "(string \<times> json) list \<Rightarrow> string \<Rightarrow> string option" where
  "str_member m k = (case map_of m k of Some (JStr r) \<Rightarrow> Some (unquote r) | _ \<Rightarrow> None)"

text \<open>
  canonical_event.schema.json: the required members and no others, strings with their
  formats and enumerations, a version from 1, an object as payload.
\<close>

definition schema_keys :: "string list" where
  "schema_keys = [''event_id'', ''tenant_id'', ''type'', ''source'', ''source_event_id'', ''occurred_at'',
     ''version'', ''payload'']"

fun schema_ok :: "json \<Rightarrow> bool" where
  "schema_ok (JObj m) \<longleftrightarrow>
     list_all (\<lambda>k. k \<in> set (map fst m)) schema_keys \<and> list_all (\<lambda>(k, v). k \<in> set schema_keys) m \<and>
     (\<exists>i \<in> set_option (str_member m ''event_id''). is_uuid i) \<and>
     (\<exists>i \<in> set_option (str_member m ''tenant_id''). is_uuid i) \<and>
     (\<exists>t \<in> set_option (str_member m ''type''). t \<in> set event_types) \<and>
     str_member m ''source'' = Some ''github'' \<and>
     str_member m ''source_event_id'' \<noteq> None \<and>
     str_member m ''occurred_at'' \<noteq> None \<and>
     (case map_of m ''version'' of Some (JNum x) \<Rightarrow> (\<exists>v \<in> set_option (parse_int x). 1 \<le> v) | _ \<Rightarrow> False) \<and>
     (case map_of m ''payload'' of Some (JObj _) \<Rightarrow> True | _ \<Rightarrow> False)"
| "schema_ok _ \<longleftrightarrow> False"

section \<open>Laws\<close>

text \<open>ASCII without quotes, backslashes, control or HTML characters is written as it is.\<close>

definition plain :: "char \<Rightarrow> bool" where
  "plain c \<longleftrightarrow> 32 \<le> byte c \<and> byte c < 128 \<and> c \<noteq> dquote \<and> c \<noteq> backslash \<and> \<not> html_char c"

lemma quote_plain: "list_all plain s \<Longrightarrow> quote s = s"
  by (induction s) (auto simp: plain_def quote_ascii_def quote.simps(2) Let_def)

lemma plain_utf8: "list_all plain s \<Longrightarrow> valid_utf8 s"
  by (induction s) (auto simp: plain_def valid_utf8.simps(2))

lemma plain_hex: "is_hex c \<Longrightarrow> plain c"
  by (auto simp: plain_def is_hex_def hex_val_def dquote_def backslash_def byte_def Let_def split: if_splits)

lemma split_on_join: "list_all P (concat (split_on c s)) \<Longrightarrow> P c \<Longrightarrow> list_all P s"
  by (induction s) (auto split: if_splits list.splits)

lemma uuid_plain: "is_uuid s \<Longrightarrow> list_all plain s"
proof -
  assume "is_uuid s"
  then have "list_all (list_all is_hex) (split_on (CHR ''-'') s)" by (simp add: is_uuid_def)
  then have "list_all plain (concat (split_on (CHR ''-'') s))"
    by (induction "split_on (CHR ''-'') s") (auto simp: list_all_iff plain_hex)
  moreover have "plain (CHR ''-'')" by (simp add: plain_def byte_def dquote_def backslash_def)
  ultimately show ?thesis by (rule split_on_join)
qed

lemma uuid_quote [simp]: "is_uuid s \<Longrightarrow> unquote (quote s) = s"
  by (simp add: unquote_quote plain_utf8 uuid_plain)

end
