(* ===== verification/Connector.thy ===== *)
theory Connector
  imports Events
begin

text \<open>
  The source-agnostic ingestion interface (libs/go/connector/connector.go): the raw event a
  service hands to a source and the entities a source returns. A field keeps its Go name,
  prefixed by its type's.
\<close>

record raw_event =
  re_DeliveryID :: string
  re_EventType :: string
  re_Body :: bytes
  re_TraceID :: string

record file_change =
  fc_Path :: string
  fc_Additions :: int
  fc_Deletions :: int
  fc_Patch :: string
  fc_Truncated :: bool

record work_item =
  wi_Type :: string
  wi_Repo :: string
  wi_NodeID :: string
  wi_Number :: int
  wi_Title :: string
  wi_Status :: string
  wi_CurrentStage :: string
  wi_AuthorLogin :: string
  wi_ChangedFiles :: int
  wi_Additions :: int
  wi_Deletions :: int
  wi_CreatedAt :: gtime
  wi_MergedAt :: "gtime ptr"
  wi_ClosedAt :: "gtime ptr"
  wi_Event :: event_type
  wi_OccurredAt :: gtime
  wi_CommitOIDs :: "string slice"
  wi_Files :: "file_change slice"

text \<open>The zero value a composite literal starts from.\<close>

definition zero_work_item :: work_item where
  "zero_work_item =
     \<lparr>wi_Type = [], wi_Repo = [], wi_NodeID = [], wi_Number = 0, wi_Title = [], wi_Status = [],
      wi_CurrentStage = [], wi_AuthorLogin = [], wi_ChangedFiles = 0, wi_Additions = 0,
      wi_Deletions = 0, wi_CreatedAt = zero_time, wi_MergedAt = None, wi_ClosedAt = None,
      wi_Event = [], wi_OccurredAt = zero_time, wi_CommitOIDs = None, wi_Files = None\<rparr>"

record review =
  rv_SourceID :: string
  rv_Repo :: string
  rv_PRNodeID :: string
  rv_ReviewerLogin :: string
  rv_State :: string
  rv_CommentCount :: int
  rv_SubmittedAt :: gtime

record check_run =
  cr_SourceID :: string
  cr_Repo :: string
  cr_HeadSHA :: string
  cr_Name :: string
  cr_Conclusion :: string
  cr_StartedAt :: "gtime ptr"
  cr_CompletedAt :: "gtime ptr"

record comment =
  cm_SourceID :: string
  cm_Repo :: string
  cm_ParentType :: string
  cm_ParentNumber :: int
  cm_AuthorLogin :: string
  cm_Body :: string
  cm_CreatedAt :: gtime

record result =
  rs_InstallationID :: int
  rs_WorkItems :: "work_item list"
  rs_Reviews :: "review list"
  rs_CheckRuns :: "check_run list"
  rs_Comments :: "comment list"
  rs_Skip :: bool

definition zero_result :: result where
  "zero_result = \<lparr>rs_InstallationID = 0, rs_WorkItems = [], rs_Reviews = [], rs_CheckRuns = [],
     rs_Comments = [], rs_Skip = False\<rparr>"

definition skip_result :: result where
  "skip_result = zero_result\<lparr>rs_Skip := True\<rparr>"

text \<open>\<open>Result.Empty\<close>.\<close>

definition result_empty :: "result \<Rightarrow> bool" where
  "result_empty r \<longleftrightarrow>
     length (rs_WorkItems r) = 0 \<and> length (rs_Reviews r) = 0 \<and> length (rs_CheckRuns r) = 0 \<and>
     length (rs_Comments r) = 0"

text \<open>\<open>FileChange\<close> on the wire, with its two \<open>omitempty\<close> members.\<close>

definition zero_file :: file_change where
  "zero_file = \<lparr>fc_Path = [], fc_Additions = 0, fc_Deletions = 0, fc_Patch = [], fc_Truncated = False\<rparr>"

definition file_fields :: "file_change fields" where
  "file_fields =
     [fld ''path'' fc_Path fc_Path_update dec_string,
      fld ''additions'' fc_Additions fc_Additions_update dec_int,
      fld ''deletions'' fc_Deletions fc_Deletions_update dec_int,
      fld ''patch'' fc_Patch fc_Patch_update dec_string,
      fld ''truncated'' fc_Truncated fc_Truncated_update dec_bool]"

definition enc_file :: "file_change \<Rightarrow> json" where
  "enc_file f =
     enc_members
       ([(''path'', enc_string (fc_Path f)), (''additions'', enc_int (fc_Additions f)),
         (''deletions'', enc_int (fc_Deletions f))] @
        (if fc_Patch f = [] then [] else [(''patch'', enc_string (fc_Patch f))]) @
        (if fc_Truncated f then [(''truncated'', JBool True)] else []))"

text \<open>The vocabularies the comments on the fields of \<open>WorkItem\<close> list.\<close>

definition work_item_types :: "string list" where
  "work_item_types = [''pr'', ''issue'', ''commit'']"

definition statuses :: "string list" where
  "statuses = [''open'', ''closed'', ''merged'']"

definition stages :: "string list" where
  "stages = [''open'', ''in_review'', ''merged'', ''closed'']"

section \<open>The contract of a source\<close>

text \<open>
  What the platform relies on: a work item has one of the three types (a CHECK of the table) and
  either a canonical event type or none; every review comes with the work item of its pull
  request; a skipped result holds nothing.
\<close>

definition item_ok :: "work_item \<Rightarrow> bool" where
  "item_ok wi \<longleftrightarrow> wi_Type wi \<in> set work_item_types \<and> (wi_Event wi = [] \<or> wi_Event wi \<in> set event_types)"

text \<open>What the comments of the struct say beyond that, which nothing checks: the status and the stage.\<close>

definition work_item_wf :: "work_item \<Rightarrow> bool" where
  "work_item_wf wi \<longleftrightarrow> item_ok wi \<and> wi_Status wi \<in> set statuses \<and> wi_CurrentStage wi \<in> set stages"

definition result_wf :: "result \<Rightarrow> bool" where
  "result_wf r \<longleftrightarrow>
     list_all item_ok (rs_WorkItems r) \<and>
     list_all (\<lambda>rv. rv_PRNodeID rv \<in> set (map wi_NodeID (rs_WorkItems r))) (rs_Reviews r) \<and>
     list_all (\<lambda>cm. cm_ParentType cm \<in> {''pr'', ''issue''}) (rs_Comments r) \<and>
     (if rs_Skip r then result_empty r else \<not> result_empty r \<and> rs_InstallationID r \<noteq> 0)"

lemma result_wf_skip [simp]: "result_wf skip_result"
  by (simp add: result_wf_def skip_result_def zero_result_def result_empty_def)

locale source =
  fixes normalize :: "raw_event \<Rightarrow> 'e + result"
  assumes normalize_result_wf: "normalize raw = Inr r \<Longrightarrow> result_wf r"
begin

lemma normalize_item: "normalize raw = Inr r \<Longrightarrow> wi \<in> set (rs_WorkItems r) \<Longrightarrow> item_ok wi"
  using normalize_result_wf by (auto simp: result_wf_def list_all_iff)

lemma normalize_review_parent:
  "normalize raw = Inr r \<Longrightarrow> rv \<in> set (rs_Reviews r) \<Longrightarrow>
   rv_PRNodeID rv \<in> wi_NodeID ` set (rs_WorkItems r)"
  using normalize_result_wf by (auto simp: result_wf_def list_all_iff)

lemma normalize_event:
  "normalize raw = Inr r \<Longrightarrow> wi \<in> set (rs_WorkItems r) \<Longrightarrow> wi_Event wi \<noteq> [] \<Longrightarrow> wi_Event wi \<in> set event_types"
  using normalize_item by (fastforce simp: item_ok_def)

end

end
