(* ===== verification/GitHubPayloads.thy ===== *)
theory GitHubPayloads
  imports Connector
begin

text \<open>
  The webhook payloads libs/go/connector/github/github.go decodes: one record per Go struct,
  anonymous ones included, its zero value, and the table of its JSON members. A \<open>*T\<close> is
  \<open>None\<close> for nil, a slice is \<open>None\<close> when nil.
\<close>

section \<open>Payloads\<close>

text \<open>Shared payload fragments.\<close>

record installation =
  in_ID :: int

definition zero_installation :: installation where
  "zero_installation = \<lparr>in_ID = 0\<rparr>"

definition installation_fields :: "installation fields" where
  "installation_fields =
     [fld ''id'' in_ID in_ID_update dec_int]"

text \<open>The repository a webhook is about.\<close>

record repository =
  rp_FullName :: string

definition zero_repository :: repository where
  "zero_repository = \<lparr>rp_FullName = []\<rparr>"

definition repository_fields :: "repository fields" where
  "repository_fields =
     [fld ''full_name'' rp_FullName rp_FullName_update dec_string]"

text \<open>The account that acted.\<close>

record actor =
  ac_Login :: string

definition zero_actor :: actor where
  "zero_actor = \<lparr>ac_Login = []\<rparr>"

definition actor_fields :: "actor fields" where
  "actor_fields =
     [fld ''login'' ac_Login ac_Login_update dec_string]"

subsection \<open>pull_request\<close>

text \<open>A pull request object.\<close>

record pull_request =
  pr_NodeID :: string
  pr_Number :: int
  pr_Title :: string
  pr_State :: string
  pr_Merged :: bool
  pr_ChangedFiles :: int
  pr_Additions :: int
  pr_Deletions :: int
  pr_CreatedAt :: gtime
  pr_MergedAt :: "gtime ptr"
  pr_ClosedAt :: "gtime ptr"
  pr_User :: actor

definition zero_pull_request :: pull_request where
  "zero_pull_request = \<lparr>pr_NodeID = [], pr_Number = 0, pr_Title = [], pr_State = [], pr_Merged = False, pr_ChangedFiles = 0, pr_Additions = 0, pr_Deletions = 0, pr_CreatedAt = zero_time, pr_MergedAt = None, pr_ClosedAt = None, pr_User = zero_actor\<rparr>"

definition pull_request_fields :: "pull_request fields" where
  "pull_request_fields =
     [fld ''node_id'' pr_NodeID pr_NodeID_update dec_string,
      fld ''number'' pr_Number pr_Number_update dec_int,
      fld ''title'' pr_Title pr_Title_update dec_string,
      fld ''state'' pr_State pr_State_update dec_string,
      fld ''merged'' pr_Merged pr_Merged_update dec_bool,
      fld ''changed_files'' pr_ChangedFiles pr_ChangedFiles_update dec_int,
      fld ''additions'' pr_Additions pr_Additions_update dec_int,
      fld ''deletions'' pr_Deletions pr_Deletions_update dec_int,
      fld ''created_at'' pr_CreatedAt pr_CreatedAt_update dec_time,
      fld ''merged_at'' pr_MergedAt pr_MergedAt_update (dec_ptr zero_time dec_time),
      fld ''closed_at'' pr_ClosedAt pr_ClosedAt_update (dec_ptr zero_time dec_time),
      fld ''user'' pr_User pr_User_update (dec_struct actor_fields)]"

text \<open>The \<open>_enrichment\<close> block the enricher injects.\<close>

record pr_enrichment =
  en_Additions :: "int ptr"
  en_Deletions :: "int ptr"
  en_ChangedFiles :: "int ptr"
  en_CommitOIDs :: "string slice"
  en_Files :: "file_change slice"

definition zero_pr_enrichment :: pr_enrichment where
  "zero_pr_enrichment = \<lparr>en_Additions = None, en_Deletions = None, en_ChangedFiles = None, en_CommitOIDs = None, en_Files = None\<rparr>"

definition pr_enrichment_fields :: "pr_enrichment fields" where
  "pr_enrichment_fields =
     [fld ''additions'' en_Additions en_Additions_update (dec_ptr 0 dec_int),
      fld ''deletions'' en_Deletions en_Deletions_update (dec_ptr 0 dec_int),
      fld ''changed_files'' en_ChangedFiles en_ChangedFiles_update (dec_ptr 0 dec_int),
      fld ''commit_oids'' en_CommitOIDs en_CommitOIDs_update (dec_slice [] dec_string),
      fld ''files'' en_Files en_Files_update (dec_slice zero_file (dec_struct file_fields))]"

text \<open>The event.\<close>

record pr_payload =
  pp_Action :: string
  pp_Number :: int
  pp_PullRequest :: pull_request
  pp_Repository :: repository
  pp_Installation :: installation
  pp_Enrichment :: "pr_enrichment ptr"

definition zero_pr_payload :: pr_payload where
  "zero_pr_payload = \<lparr>pp_Action = [], pp_Number = 0, pp_PullRequest = zero_pull_request, pp_Repository = zero_repository, pp_Installation = zero_installation, pp_Enrichment = None\<rparr>"

definition pr_payload_fields :: "pr_payload fields" where
  "pr_payload_fields =
     [fld ''action'' pp_Action pp_Action_update dec_string,
      fld ''number'' pp_Number pp_Number_update dec_int,
      fld ''pull_request'' pp_PullRequest pp_PullRequest_update (dec_struct pull_request_fields),
      fld ''repository'' pp_Repository pp_Repository_update (dec_struct repository_fields),
      fld ''installation'' pp_Installation pp_Installation_update (dec_struct installation_fields),
      fld ''_enrichment'' pp_Enrichment pp_Enrichment_update (dec_ptr zero_pr_enrichment (dec_struct pr_enrichment_fields))]"

subsection \<open>pull_request_review\<close>

text \<open>The nested review object.\<close>

record review_object =
  ro_NodeID :: string
  ro_State :: string
  ro_SubmittedAt :: gtime
  ro_User :: actor

definition zero_review_object :: review_object where
  "zero_review_object = \<lparr>ro_NodeID = [], ro_State = [], ro_SubmittedAt = zero_time, ro_User = zero_actor\<rparr>"

definition review_object_fields :: "review_object fields" where
  "review_object_fields =
     [fld ''node_id'' ro_NodeID ro_NodeID_update dec_string,
      fld ''state'' ro_State ro_State_update dec_string,
      fld ''submitted_at'' ro_SubmittedAt ro_SubmittedAt_update dec_time,
      fld ''user'' ro_User ro_User_update (dec_struct actor_fields)]"

text \<open>The event.\<close>

record review_payload =
  rw_Action :: string
  rw_Review :: review_object
  rw_PullRequest :: pull_request
  rw_Repository :: repository
  rw_Installation :: installation

definition zero_review_payload :: review_payload where
  "zero_review_payload = \<lparr>rw_Action = [], rw_Review = zero_review_object, rw_PullRequest = zero_pull_request, rw_Repository = zero_repository, rw_Installation = zero_installation\<rparr>"

definition review_payload_fields :: "review_payload fields" where
  "review_payload_fields =
     [fld ''action'' rw_Action rw_Action_update dec_string,
      fld ''review'' rw_Review rw_Review_update (dec_struct review_object_fields),
      fld ''pull_request'' rw_PullRequest rw_PullRequest_update (dec_struct pull_request_fields),
      fld ''repository'' rw_Repository rw_Repository_update (dec_struct repository_fields),
      fld ''installation'' rw_Installation rw_Installation_update (dec_struct installation_fields)]"

subsection \<open>Comments\<close>

text \<open>The comment object (Go's unexported \<open>comment\<close>).\<close>

record comment_object =
  co_NodeID :: string
  co_Body :: string
  co_CreatedAt :: gtime
  co_User :: actor

definition zero_comment_object :: comment_object where
  "zero_comment_object = \<lparr>co_NodeID = [], co_Body = [], co_CreatedAt = zero_time, co_User = zero_actor\<rparr>"

definition comment_object_fields :: "comment_object fields" where
  "comment_object_fields =
     [fld ''node_id'' co_NodeID co_NodeID_update dec_string,
      fld ''body'' co_Body co_Body_update dec_string,
      fld ''created_at'' co_CreatedAt co_CreatedAt_update dec_time,
      fld ''user'' co_User co_User_update (dec_struct actor_fields)]"

text \<open>The part of the pull request a review comment needs.\<close>

record pr_number =
  pn_Number :: int

definition zero_pr_number :: pr_number where
  "zero_pr_number = \<lparr>pn_Number = 0\<rparr>"

definition pr_number_fields :: "pr_number fields" where
  "pr_number_fields =
     [fld ''number'' pn_Number pn_Number_update dec_int]"

text \<open>The pull_request_review_comment event.\<close>

record review_comment_payload =
  rc_Action :: string
  rc_Comment :: comment_object
  rc_PullRequest :: pr_number
  rc_Repository :: repository
  rc_Installation :: installation

definition zero_review_comment_payload :: review_comment_payload where
  "zero_review_comment_payload = \<lparr>rc_Action = [], rc_Comment = zero_comment_object, rc_PullRequest = zero_pr_number, rc_Repository = zero_repository, rc_Installation = zero_installation\<rparr>"

definition review_comment_payload_fields :: "review_comment_payload fields" where
  "review_comment_payload_fields =
     [fld ''action'' rc_Action rc_Action_update dec_string,
      fld ''comment'' rc_Comment rc_Comment_update (dec_struct comment_object_fields),
      fld ''pull_request'' rc_PullRequest rc_PullRequest_update (dec_struct pr_number_fields),
      fld ''repository'' rc_Repository rc_Repository_update (dec_struct repository_fields),
      fld ''installation'' rc_Installation rc_Installation_update (dec_struct installation_fields)]"

text \<open>The issue of an issue_comment; its \<open>pull_request\<close> is a raw message.\<close>

record comment_issue =
  ci_Number :: int
  ci_PullRequest :: "json option"

definition zero_comment_issue :: comment_issue where
  "zero_comment_issue = \<lparr>ci_Number = 0, ci_PullRequest = None\<rparr>"

definition comment_issue_fields :: "comment_issue fields" where
  "comment_issue_fields =
     [fld ''number'' ci_Number ci_Number_update dec_int,
      fld ''pull_request'' ci_PullRequest ci_PullRequest_update dec_raw]"

text \<open>The issue_comment event.\<close>

record issue_comment_payload =
  ic_Action :: string
  ic_Issue :: comment_issue
  ic_Comment :: comment_object
  ic_Repository :: repository
  ic_Installation :: installation

definition zero_issue_comment_payload :: issue_comment_payload where
  "zero_issue_comment_payload = \<lparr>ic_Action = [], ic_Issue = zero_comment_issue, ic_Comment = zero_comment_object, ic_Repository = zero_repository, ic_Installation = zero_installation\<rparr>"

definition issue_comment_payload_fields :: "issue_comment_payload fields" where
  "issue_comment_payload_fields =
     [fld ''action'' ic_Action ic_Action_update dec_string,
      fld ''issue'' ic_Issue ic_Issue_update (dec_struct comment_issue_fields),
      fld ''comment'' ic_Comment ic_Comment_update (dec_struct comment_object_fields),
      fld ''repository'' ic_Repository ic_Repository_update (dec_struct repository_fields),
      fld ''installation'' ic_Installation ic_Installation_update (dec_struct installation_fields)]"

subsection \<open>issues\<close>

text \<open>The issue.\<close>

record issue_object =
  io_NodeID :: string
  io_Number :: int
  io_Title :: string
  io_State :: string
  io_CreatedAt :: gtime
  io_ClosedAt :: "gtime ptr"
  io_User :: actor

definition zero_issue_object :: issue_object where
  "zero_issue_object = \<lparr>io_NodeID = [], io_Number = 0, io_Title = [], io_State = [], io_CreatedAt = zero_time, io_ClosedAt = None, io_User = zero_actor\<rparr>"

definition issue_object_fields :: "issue_object fields" where
  "issue_object_fields =
     [fld ''node_id'' io_NodeID io_NodeID_update dec_string,
      fld ''number'' io_Number io_Number_update dec_int,
      fld ''title'' io_Title io_Title_update dec_string,
      fld ''state'' io_State io_State_update dec_string,
      fld ''created_at'' io_CreatedAt io_CreatedAt_update dec_time,
      fld ''closed_at'' io_ClosedAt io_ClosedAt_update (dec_ptr zero_time dec_time),
      fld ''user'' io_User io_User_update (dec_struct actor_fields)]"

text \<open>The event.\<close>

record issue_payload =
  ip_Action :: string
  ip_Issue :: issue_object
  ip_Repository :: repository
  ip_Installation :: installation

definition zero_issue_payload :: issue_payload where
  "zero_issue_payload = \<lparr>ip_Action = [], ip_Issue = zero_issue_object, ip_Repository = zero_repository, ip_Installation = zero_installation\<rparr>"

definition issue_payload_fields :: "issue_payload fields" where
  "issue_payload_fields =
     [fld ''action'' ip_Action ip_Action_update dec_string,
      fld ''issue'' ip_Issue ip_Issue_update (dec_struct issue_object_fields),
      fld ''repository'' ip_Repository ip_Repository_update (dec_struct repository_fields),
      fld ''installation'' ip_Installation ip_Installation_update (dec_struct installation_fields)]"

subsection \<open>push\<close>

text \<open>A commit's author.\<close>

record commit_author =
  ca_Name :: string
  ca_Email :: string
  ca_Username :: string

definition zero_commit_author :: commit_author where
  "zero_commit_author = \<lparr>ca_Name = [], ca_Email = [], ca_Username = []\<rparr>"

definition commit_author_fields :: "commit_author fields" where
  "commit_author_fields =
     [fld ''name'' ca_Name ca_Name_update dec_string,
      fld ''email'' ca_Email ca_Email_update dec_string,
      fld ''username'' ca_Username ca_Username_update dec_string]"

text \<open>A commit of a push.\<close>

record push_commit =
  pc_ID :: string
  pc_Message :: string
  pc_Timestamp :: gtime
  pc_Author :: commit_author

definition zero_push_commit :: push_commit where
  "zero_push_commit = \<lparr>pc_ID = [], pc_Message = [], pc_Timestamp = zero_time, pc_Author = zero_commit_author\<rparr>"

definition push_commit_fields :: "push_commit fields" where
  "push_commit_fields =
     [fld ''id'' pc_ID pc_ID_update dec_string,
      fld ''message'' pc_Message pc_Message_update dec_string,
      fld ''timestamp'' pc_Timestamp pc_Timestamp_update dec_time,
      fld ''author'' pc_Author pc_Author_update (dec_struct commit_author_fields)]"

text \<open>The event.\<close>

record push_payload =
  pu_Commits :: "push_commit slice"
  pu_Repository :: repository
  pu_Installation :: installation

definition zero_push_payload :: push_payload where
  "zero_push_payload = \<lparr>pu_Commits = None, pu_Repository = zero_repository, pu_Installation = zero_installation\<rparr>"

definition push_payload_fields :: "push_payload fields" where
  "push_payload_fields =
     [fld ''commits'' pu_Commits pu_Commits_update (dec_slice zero_push_commit (dec_struct push_commit_fields)),
      fld ''repository'' pu_Repository pu_Repository_update (dec_struct repository_fields),
      fld ''installation'' pu_Installation pu_Installation_update (dec_struct installation_fields)]"

subsection \<open>check_run and status\<close>

text \<open>The check run.\<close>

record check_run_object =
  ck_NodeID :: string
  ck_Name :: string
  ck_HeadSHA :: string
  ck_Status :: string
  ck_Conclusion :: string
  ck_StartedAt :: "gtime ptr"
  ck_CompletedAt :: "gtime ptr"

definition zero_check_run_object :: check_run_object where
  "zero_check_run_object = \<lparr>ck_NodeID = [], ck_Name = [], ck_HeadSHA = [], ck_Status = [], ck_Conclusion = [], ck_StartedAt = None, ck_CompletedAt = None\<rparr>"

definition check_run_object_fields :: "check_run_object fields" where
  "check_run_object_fields =
     [fld ''node_id'' ck_NodeID ck_NodeID_update dec_string,
      fld ''name'' ck_Name ck_Name_update dec_string,
      fld ''head_sha'' ck_HeadSHA ck_HeadSHA_update dec_string,
      fld ''status'' ck_Status ck_Status_update dec_string,
      fld ''conclusion'' ck_Conclusion ck_Conclusion_update dec_string,
      fld ''started_at'' ck_StartedAt ck_StartedAt_update (dec_ptr zero_time dec_time),
      fld ''completed_at'' ck_CompletedAt ck_CompletedAt_update (dec_ptr zero_time dec_time)]"

text \<open>The event.\<close>

record check_run_payload =
  cp_Action :: string
  cp_CheckRun :: check_run_object
  cp_Repository :: repository
  cp_Installation :: installation

definition zero_check_run_payload :: check_run_payload where
  "zero_check_run_payload = \<lparr>cp_Action = [], cp_CheckRun = zero_check_run_object, cp_Repository = zero_repository, cp_Installation = zero_installation\<rparr>"

definition check_run_payload_fields :: "check_run_payload fields" where
  "check_run_payload_fields =
     [fld ''action'' cp_Action cp_Action_update dec_string,
      fld ''check_run'' cp_CheckRun cp_CheckRun_update (dec_struct check_run_object_fields),
      fld ''repository'' cp_Repository cp_Repository_update (dec_struct repository_fields),
      fld ''installation'' cp_Installation cp_Installation_update (dec_struct installation_fields)]"

text \<open>The legacy commit status event.\<close>

record status_payload =
  sp_ID :: int
  sp_SHA :: string
  sp_Context :: string
  sp_State :: string
  sp_UpdatedAt :: "gtime ptr"
  sp_Repository :: repository
  sp_Installation :: installation

definition zero_status_payload :: status_payload where
  "zero_status_payload = \<lparr>sp_ID = 0, sp_SHA = [], sp_Context = [], sp_State = [], sp_UpdatedAt = None, sp_Repository = zero_repository, sp_Installation = zero_installation\<rparr>"

definition status_payload_fields :: "status_payload fields" where
  "status_payload_fields =
     [fld ''id'' sp_ID sp_ID_update dec_int,
      fld ''sha'' sp_SHA sp_SHA_update dec_string,
      fld ''context'' sp_Context sp_Context_update dec_string,
      fld ''state'' sp_State sp_State_update dec_string,
      fld ''updated_at'' sp_UpdatedAt sp_UpdatedAt_update (dec_ptr zero_time dec_time),
      fld ''repository'' sp_Repository sp_Repository_update (dec_struct repository_fields),
      fld ''installation'' sp_Installation sp_Installation_update (dec_struct installation_fields)]"

end
