(* ===== verification/GitHubSource.thy ===== *)
theory GitHubSource
  imports GitHubPayloads
begin

text \<open>
  The GitHub connector (libs/go/connector/github/github.go): \<open>Normalize\<close> and one normalizer
  per webhook event, each a pure function from the payload's bytes to a \<open>result\<close> or an error.
\<close>

section \<open>The code\<close>

datatype gh_error =
    DecodeError (de_event: string) (de_body: bytes)
  | MissingInstallation

definition decode :: "string \<Rightarrow> 'a dec \<Rightarrow> 'a \<Rightarrow> bytes \<Rightarrow> gh_error + 'a" where
  "decode event d zero body =
     (case unmarshal d zero body of None \<Rightarrow> Inl (DecodeError event body) | Some p \<Rightarrow> Inr p)"

definition workItemEvent :: "string \<Rightarrow> event_type" where
  "workItemEvent action =
     (if action = ''opened'' then WorkItemCreated
      else if action \<in> {''closed'', ''reopened'', ''ready_for_review'', ''converted_to_draft''}
      then WorkItemStateChanged
      else WorkItemUpdated)"

definition workItemOccurredAt :: "work_item \<Rightarrow> gtime" where
  "workItemOccurredAt wi =
     (case wi_MergedAt wi of
        Some t \<Rightarrow> t
      | None \<Rightarrow> (case wi_ClosedAt wi of Some t \<Rightarrow> t | None \<Rightarrow> wi_CreatedAt wi))"

definition firstLine :: "string \<Rightarrow> string" where
  "firstLine s = (if char_of (10::nat) \<in> set s then takeWhile (\<lambda>c. c \<noteq> char_of (10::nat)) s else s)"

definition prStatusAndStage :: "pull_request \<Rightarrow> string \<times> string" where
  "prStatusAndStage pr =
     (if pr_Merged pr then (''merged'', ''merged'')
      else if pr_State pr = ''closed'' then (''closed'', ''closed'')
      else (''open'', ''open''))"

definition prWorkItem :: "pull_request \<Rightarrow> string \<Rightarrow> work_item" where
  "prWorkItem pr repo =
     (case prStatusAndStage pr of
        (status, stage) \<Rightarrow>
          zero_work_item
            \<lparr>wi_Type := ''pr'', wi_Repo := repo, wi_NodeID := pr_NodeID pr, wi_Number := pr_Number pr,
             wi_Title := pr_Title pr, wi_Status := status, wi_CurrentStage := stage,
             wi_AuthorLogin := ac_Login (pr_User pr), wi_ChangedFiles := pr_ChangedFiles pr,
             wi_Additions := pr_Additions pr, wi_Deletions := pr_Deletions pr,
             wi_CreatedAt := pr_CreatedAt pr, wi_MergedAt := pr_MergedAt pr,
             wi_ClosedAt := pr_ClosedAt pr\<rparr>)"

definition applyEnrichment :: "work_item \<Rightarrow> pr_enrichment ptr \<Rightarrow> work_item" where
  "applyEnrichment wi enr =
     (case enr of
        None \<Rightarrow> wi
      | Some e \<Rightarrow>
          (let wi = (case en_ChangedFiles e of None \<Rightarrow> wi | Some n \<Rightarrow> wi\<lparr>wi_ChangedFiles := n\<rparr>);
               wi = (case en_Additions e of None \<Rightarrow> wi | Some n \<Rightarrow> wi\<lparr>wi_Additions := n\<rparr>);
               wi = (case en_Deletions e of None \<Rightarrow> wi | Some n \<Rightarrow> wi\<lparr>wi_Deletions := n\<rparr>)
           in wi\<lparr>wi_CommitOIDs := en_CommitOIDs e, wi_Files := en_Files e\<rparr>))"

text \<open>What \<open>normalizePullRequest\<close> does once the payload is decoded.\<close>

definition pullRequestResult :: "pr_payload \<Rightarrow> gh_error + result" where
  "pullRequestResult p =
     (if in_ID (pp_Installation p) = 0 then Inl MissingInstallation
      else
        let pr = pp_PullRequest p;
            pr = (if pr_Number pr = 0 then pr\<lparr>pr_Number := pp_Number p\<rparr> else pr);
            wi = applyEnrichment (prWorkItem pr (rp_FullName (pp_Repository p))) (pp_Enrichment p);
            wi = wi\<lparr>wi_Event := workItemEvent (pp_Action p)\<rparr>;
            wi = wi\<lparr>wi_OccurredAt := workItemOccurredAt wi\<rparr>
        in Inr (zero_result\<lparr>rs_InstallationID := in_ID (pp_Installation p), rs_WorkItems := [wi]\<rparr>))"

definition normalizePullRequest :: "bytes \<Rightarrow> gh_error + result" where
  "normalizePullRequest body =
     res_bind (decode ''pull_request'' (dec_struct pr_payload_fields) zero_pr_payload body)
       pullRequestResult"

definition normalizeReview :: "bytes \<Rightarrow> gh_error + result" where
  "normalizeReview body =
     res_bind (decode ''pull_request_review'' (dec_struct review_payload_fields) zero_review_payload body) (\<lambda>p.
     if in_ID (rw_Installation p) = 0 then Inl MissingInstallation
     else if rw_Action p \<noteq> ''submitted'' then Inr skip_result
     else
       let repo = rp_FullName (rw_Repository p);
           pr = prWorkItem (rw_PullRequest p) repo;
           rv = \<lparr>rv_SourceID = ro_NodeID (rw_Review p), rv_Repo = repo,
                 rv_PRNodeID = pr_NodeID (rw_PullRequest p),
                 rv_ReviewerLogin = ac_Login (ro_User (rw_Review p)),
                 rv_State = to_lower (ro_State (rw_Review p)), rv_CommentCount = 0,
                 rv_SubmittedAt = ro_SubmittedAt (rw_Review p)\<rparr>
       in Inr (zero_result\<lparr>rs_InstallationID := in_ID (rw_Installation p), rs_WorkItems := [pr],
                 rs_Reviews := [rv]\<rparr>))"

definition mk_comment :: "string \<Rightarrow> string \<Rightarrow> int \<Rightarrow> comment_object \<Rightarrow> comment" where
  "mk_comment repo parent number c =
     \<lparr>cm_SourceID = co_NodeID c, cm_Repo = repo, cm_ParentType = parent, cm_ParentNumber = number,
      cm_AuthorLogin = ac_Login (co_User c), cm_Body = co_Body c, cm_CreatedAt = co_CreatedAt c\<rparr>"

definition normalizeReviewComment :: "bytes \<Rightarrow> gh_error + result" where
  "normalizeReviewComment body =
     res_bind (decode ''pull_request_review_comment'' (dec_struct review_comment_payload_fields)
                 zero_review_comment_payload body) (\<lambda>p.
     if in_ID (rc_Installation p) = 0 then Inl MissingInstallation
     else if rc_Action p \<noteq> ''created'' then Inr skip_result
     else Inr (zero_result\<lparr>rs_InstallationID := in_ID (rc_Installation p),
                 rs_Comments := [mk_comment (rp_FullName (rc_Repository p)) ''pr''
                                   (pn_Number (rc_PullRequest p)) (rc_Comment p)]\<rparr>))"

text \<open>The length of a raw message is that of its text; an absent one is empty.\<close>

definition raw_len :: "json option \<Rightarrow> nat" where
  "raw_len r = (case r of None \<Rightarrow> 0 | Some j \<Rightarrow> length (json_print j))"

definition normalizeIssueComment :: "bytes \<Rightarrow> gh_error + result" where
  "normalizeIssueComment body =
     res_bind (decode ''issue_comment'' (dec_struct issue_comment_payload_fields)
                 zero_issue_comment_payload body) (\<lambda>p.
     if in_ID (ic_Installation p) = 0 then Inl MissingInstallation
     else if ic_Action p \<noteq> ''created'' then Inr skip_result
     else
       let parent = (if raw_len (ci_PullRequest (ic_Issue p)) > 0 then ''pr'' else ''issue'')
       in Inr (zero_result\<lparr>rs_InstallationID := in_ID (ic_Installation p),
                 rs_Comments := [mk_comment (rp_FullName (ic_Repository p)) parent
                                   (ci_Number (ic_Issue p)) (ic_Comment p)]\<rparr>))"

definition normalizeIssue :: "bytes \<Rightarrow> gh_error + result" where
  "normalizeIssue body =
     res_bind (decode ''issues'' (dec_struct issue_payload_fields) zero_issue_payload body) (\<lambda>p.
     if in_ID (ip_Installation p) = 0 then Inl MissingInstallation
     else
       let i = ip_Issue p;
           (status, stage) = (if io_State i = ''closed'' then (''closed'', ''closed'') else (''open'', ''open''));
           wi = zero_work_item
             \<lparr>wi_Type := ''issue'', wi_Repo := rp_FullName (ip_Repository p), wi_NodeID := io_NodeID i,
              wi_Number := io_Number i, wi_Title := io_Title i, wi_Status := status,
              wi_CurrentStage := stage, wi_AuthorLogin := ac_Login (io_User i),
              wi_CreatedAt := io_CreatedAt i, wi_ClosedAt := io_ClosedAt i,
              wi_Event := workItemEvent (ip_Action p)\<rparr>;
           wi = wi\<lparr>wi_OccurredAt := workItemOccurredAt wi\<rparr>
       in Inr (zero_result\<lparr>rs_InstallationID := in_ID (ip_Installation p), rs_WorkItems := [wi]\<rparr>))"

definition commitWorkItem :: "string \<Rightarrow> push_commit \<Rightarrow> work_item" where
  "commitWorkItem repo c =
     zero_work_item
       \<lparr>wi_Type := ''commit'', wi_Repo := repo, wi_NodeID := pc_ID c, wi_Title := firstLine (pc_Message c),
        wi_Status := ''observed'', wi_AuthorLogin := ca_Username (pc_Author c),
        wi_CreatedAt := pc_Timestamp c, wi_OccurredAt := pc_Timestamp c, wi_Event := CommitObserved\<rparr>"

definition normalizePush :: "bytes \<Rightarrow> gh_error + result" where
  "normalizePush body =
     res_bind (decode ''push'' (dec_struct push_payload_fields) zero_push_payload body) (\<lambda>p.
     if in_ID (pu_Installation p) = 0 then Inl MissingInstallation
     else if length (elems (pu_Commits p)) = 0 then Inr skip_result
     else Inr (zero_result\<lparr>rs_InstallationID := in_ID (pu_Installation p),
                 rs_WorkItems := map (commitWorkItem (rp_FullName (pu_Repository p))) (elems (pu_Commits p))\<rparr>))"

definition normalizeCheckRun :: "bytes \<Rightarrow> gh_error + result" where
  "normalizeCheckRun body =
     res_bind (decode ''check_run'' (dec_struct check_run_payload_fields) zero_check_run_payload body) (\<lambda>p.
     let c = cp_CheckRun p in
     if in_ID (cp_Installation p) = 0 then Inl MissingInstallation
     else if ck_Status c \<noteq> ''completed'' then Inr skip_result
     else Inr (zero_result\<lparr>rs_InstallationID := in_ID (cp_Installation p),
                 rs_CheckRuns := [\<lparr>cr_SourceID = ck_NodeID c, cr_Repo = rp_FullName (cp_Repository p),
                    cr_HeadSHA = ck_HeadSHA c, cr_Name = ck_Name c, cr_Conclusion = ck_Conclusion c,
                    cr_StartedAt = ck_StartedAt c, cr_CompletedAt = ck_CompletedAt c\<rparr>]\<rparr>))"

definition statusConclusion :: "string \<Rightarrow> string" where
  "statusConclusion state =
     (if state = ''success'' then ''success''
      else if state = ''failure'' \<or> state = ''error'' then ''failure''
      else state)"

definition normalizeStatus :: "bytes \<Rightarrow> gh_error + result" where
  "normalizeStatus body =
     res_bind (decode ''status'' (dec_struct status_payload_fields) zero_status_payload body) (\<lambda>p.
     if in_ID (sp_Installation p) = 0 then Inl MissingInstallation
     else if sp_State p = ''pending'' then Inr skip_result
     else Inr (zero_result\<lparr>rs_InstallationID := in_ID (sp_Installation p),
                 rs_CheckRuns := [\<lparr>cr_SourceID = ''status:'' @ show_int (sp_ID p),
                    cr_Repo = rp_FullName (sp_Repository p), cr_HeadSHA = sp_SHA p,
                    cr_Name = sp_Context p, cr_Conclusion = statusConclusion (sp_State p),
                    cr_StartedAt = None, cr_CompletedAt = sp_UpdatedAt p\<rparr>]\<rparr>))"

definition Normalize :: "raw_event \<Rightarrow> gh_error + result" where
  "Normalize raw =
     (let t = re_EventType raw; body = re_Body raw in
      if t = ''pull_request'' then normalizePullRequest body
      else if t = ''pull_request_review'' then normalizeReview body
      else if t = ''pull_request_review_comment'' then normalizeReviewComment body
      else if t = ''issue_comment'' then normalizeIssueComment body
      else if t = ''issues'' then normalizeIssue body
      else if t = ''push'' then normalizePush body
      else if t = ''check_run'' then normalizeCheckRun body
      else if t = ''status'' then normalizeStatus body
      else Inr skip_result)"

section \<open>Its laws\<close>

lemma decode_iff: "decode ev d z body = Inr p \<longleftrightarrow> unmarshal d z body = Some p"
  by (simp add: decode_def split: option.split)

lemma firstLine_no_newline: "char_of (10::nat) \<notin> set (firstLine s)"
  by (auto simp: firstLine_def dest: set_takeWhileD)

lemma firstLine_prefix: "has_prefix s (firstLine s)"
  by (auto simp: firstLine_def has_prefix_conv intro: exI [of _ "dropWhile (\<lambda>c. c \<noteq> char_of (10::nat)) s"])

lemma event_conv:
  "workItemEvent a = WorkItemCreated \<longleftrightarrow> a = ''opened''"
  "workItemEvent a = WorkItemStateChanged \<longleftrightarrow>
     a \<in> {''closed'', ''reopened'', ''ready_for_review'', ''converted_to_draft''}"
  by (simp_all add: workItemEvent_def event_type_names)

lemma stage_conv:
  "snd (prStatusAndStage pr) = ''merged'' \<longleftrightarrow> pr_Merged pr"
  "snd (prStatusAndStage pr) = ''closed'' \<longleftrightarrow> \<not> pr_Merged pr \<and> pr_State pr = ''closed''"
  by (simp_all add: prStatusAndStage_def)

lemma workItemEvent_type [simp]: "workItemEvent a \<in> set event_types" "workItemEvent a \<noteq> []"
  by (simp_all add: workItemEvent_def event_types_def) (simp_all add: event_type_names)

lemma prWorkItem_fields [simp]:
  "wi_Type (prWorkItem pr repo) = ''pr''" "wi_Repo (prWorkItem pr repo) = repo"
  "wi_NodeID (prWorkItem pr repo) = pr_NodeID pr" "wi_Event (prWorkItem pr repo) = []"
  "wi_Number (prWorkItem pr repo) = pr_Number pr" "wi_Title (prWorkItem pr repo) = pr_Title pr"
  "wi_Status (prWorkItem pr repo) = fst (prStatusAndStage pr)"
  "wi_CurrentStage (prWorkItem pr repo) = snd (prStatusAndStage pr)"
  "wi_AuthorLogin (prWorkItem pr repo) = ac_Login (pr_User pr)"
  "wi_CreatedAt (prWorkItem pr repo) = pr_CreatedAt pr"
  "wi_MergedAt (prWorkItem pr repo) = pr_MergedAt pr" "wi_ClosedAt (prWorkItem pr repo) = pr_ClosedAt pr"
  by (simp_all add: prWorkItem_def zero_work_item_def split: prod.split)

lemma applyEnrichment_fields [simp]:
  "wi_Number (applyEnrichment wi e) = wi_Number wi" "wi_Title (applyEnrichment wi e) = wi_Title wi"
  "wi_AuthorLogin (applyEnrichment wi e) = wi_AuthorLogin wi"
  "wi_Type (applyEnrichment wi e) = wi_Type wi" "wi_Repo (applyEnrichment wi e) = wi_Repo wi"
  "wi_NodeID (applyEnrichment wi e) = wi_NodeID wi" "wi_Event (applyEnrichment wi e) = wi_Event wi"
  "wi_Status (applyEnrichment wi e) = wi_Status wi"
  "wi_CurrentStage (applyEnrichment wi e) = wi_CurrentStage wi"
  "wi_CreatedAt (applyEnrichment wi e) = wi_CreatedAt wi"
  "wi_MergedAt (applyEnrichment wi e) = wi_MergedAt wi" "wi_ClosedAt (applyEnrichment wi e) = wi_ClosedAt wi"
  by (simp_all add: applyEnrichment_def Let_def split: option.split)

lemma prStatusAndStage_stage [simp]:
  "snd (prStatusAndStage pr) \<in> set statuses" "fst (prStatusAndStage pr) = snd (prStatusAndStage pr)"
  by (simp_all add: prStatusAndStage_def statuses_def)

text \<open>
  What \<open>Normalize\<close> does: only a pull request comes without an event, the status of a pull request
  or an issue is its stage, and a commit has a status of its own and no stage.
\<close>

definition github_item :: "work_item \<Rightarrow> bool" where
  "github_item wi \<longleftrightarrow> item_ok wi \<and> (wi_Event wi = [] \<longrightarrow> wi_Type wi = ''pr'') \<and>
     (if wi_Type wi = ''commit'' then wi_Status wi = ''observed'' \<and> wi_CurrentStage wi = []
      else wi_Status wi \<in> set statuses \<and> wi_CurrentStage wi = wi_Status wi)"

definition github_result :: "result \<Rightarrow> bool" where
  "github_result r \<longleftrightarrow> result_wf r \<and> list_all github_item (rs_WorkItems r)"

lemmas item_defs = github_item_def item_ok_def work_item_types_def

lemmas wf_simps =
  res_bind_Inr_iff Let_def github_result_def result_wf_def zero_result_def skip_result_def result_empty_def mk_comment_def

lemma pr_item: "github_item (prWorkItem pr repo)" "item_ok (prWorkItem pr repo)"
  by (simp_all add: item_defs)

lemma wf_pullRequestResult: "pullRequestResult p = Inr r \<Longrightarrow> github_result r"
  by (auto simp: pullRequestResult_def wf_simps item_defs split: if_splits)

lemma wf_normalizeReview: "normalizeReview body = Inr r \<Longrightarrow> github_result r"
  by (auto simp: normalizeReview_def wf_simps pr_item split: if_splits)

lemma wf_normalizeReviewComment: "normalizeReviewComment body = Inr r \<Longrightarrow> github_result r"
  by (auto simp: normalizeReviewComment_def wf_simps split: if_splits)

lemma wf_normalizeIssueComment: "normalizeIssueComment body = Inr r \<Longrightarrow> github_result r"
  by (auto simp: normalizeIssueComment_def wf_simps split: if_splits)

lemma wf_normalizeIssue: "normalizeIssue body = Inr r \<Longrightarrow> github_result r"
  by (auto simp: normalizeIssue_def wf_simps zero_work_item_def item_defs statuses_def split: if_splits)

lemma commit_item: "github_item (commitWorkItem repo c)" "item_ok (commitWorkItem repo c)"
  by (simp_all add: commitWorkItem_def zero_work_item_def item_defs event_types_def CommitObserved_def)

lemma wf_normalizePush: "normalizePush body = Inr r \<Longrightarrow> github_result r"
  by (auto simp: normalizePush_def wf_simps list_all_iff commit_item split: if_splits)

lemma wf_normalizeCheckRun: "normalizeCheckRun body = Inr r \<Longrightarrow> github_result r"
  by (auto simp: normalizeCheckRun_def wf_simps split: if_splits)

lemma wf_normalizeStatus: "normalizeStatus body = Inr r \<Longrightarrow> github_result r"
  by (auto simp: normalizeStatus_def wf_simps split: if_splits)

lemma github_result_skip: "github_result skip_result"
  by (simp add: wf_simps)

lemma Normalize_github: "Normalize raw = Inr r \<Longrightarrow> github_result r"
  by (auto simp: Normalize_def normalizePullRequest_def res_bind_Inr_iff Let_def github_result_skip
      intro: wf_pullRequestResult wf_normalizeReview wf_normalizeReviewComment
        wf_normalizeIssueComment wf_normalizeIssue wf_normalizePush wf_normalizeCheckRun
        wf_normalizeStatus split: if_splits)

lemma Normalize_result_wf: "Normalize raw = Inr r \<Longrightarrow> result_wf r"
  using Normalize_github by (simp add: github_result_def)

lemma Normalize_items: "Normalize raw = Inr r \<Longrightarrow> wi \<in> set (rs_WorkItems r) \<Longrightarrow> github_item wi"
  using Normalize_github by (auto simp: github_result_def list_all_iff)

text \<open>What only the documentation asks for holds of every item but a commit.\<close>

lemma github_item_wf: "github_item wi \<Longrightarrow> work_item_wf wi \<longleftrightarrow> wi_Type wi \<noteq> ''commit''"
  by (auto simp: github_item_def work_item_wf_def statuses_def stages_def)

interpretation github: source Normalize
  by unfold_locales (rule Normalize_result_wf)

section \<open>Sample payloads\<close>

definition sample_pr :: bytes where
  \<open>sample_pr = ''{"action":"closed","number":99,
     "pull_request":{"node_id":"PR_2","title":"Merge me","state":"closed","merged":true,
       "changed_files":7,"additions":210,"deletions":64,
       "created_at":"2026-06-10T09:00:00Z","merged_at":"2026-06-11T09:00:00Z",
       "closed_at":"2026-06-11T09:00:00Z","user":{"login":"bob"}},
     "repository":{"full_name":"acme/app"},"installation":{"id":42424242}}''\<close>

definition sample_review :: bytes where
  \<open>sample_review = ''{"action":"submitted",
     "review":{"node_id":"PRR_1","state":"APPROVED","submitted_at":"2026-06-11T10:00:00Z",
       "user":{"login":"carol"}},
     "pull_request":{"node_id":"PR_1","number":482,"title":"Add feature","state":"open",
       "created_at":"2026-06-10T10:00:00Z","user":{"login":"alice"}},
     "repository":{"full_name":"acme/app"},"installation":{"id":42424242}}''\<close>

definition sample_push :: bytes where
  \<open>sample_push = ''{"commits":[
     {"id":"aaa111","message":"first line'' @ [backslash] @ ''nbody","timestamp":"2026-06-11T08:00:00Z",
      "author":{"name":"Alice","email":"a@x.com","username":"alice"}},
     {"id":"bbb222","message":"second","timestamp":"2026-06-11T08:05:00Z",
      "author":{"username":"bob"}}],
     "repository":{"full_name":"acme/app"},"installation":{"id":42424242}}''\<close>

definition sample_issue_comment :: bytes where
  \<open>sample_issue_comment = ''{"action":"created","issue":{"number":5,"pull_request":null},
     "comment":{"node_id":"IC_1","body":"hi","created_at":"2026-06-11T12:00:00Z",
       "user":{"login":"erin"}},
     "repository":{"full_name":"acme/app"},"installation":{"id":42}}''\<close>

definition raw_sample :: "string \<Rightarrow> bytes \<Rightarrow> raw_event" where
  "raw_sample t body = \<lparr>re_DeliveryID = ''d-1'', re_EventType = t, re_Body = body, re_TraceID = []\<rparr>"

section \<open>Properties\<close>

text \<open>
  C23. What \<open>Normalize\<close> promises of a result, and what it does not: every work item is a pr, an
  issue or a commit with a canonical event type, or none, only for a pr; every review arrives
  together with its pull request's work item, a comment's parent is a pr or an issue, a result
  is empty exactly when it is a skip, and what is not skipped names an installation. Status and
  stage are the documented ones, and equal, for every pr and issue; every commit breaks the
  documented contract, with the status observed and no stage.
\<close>

theorem Normalize_wf:
  assumes "Normalize raw = Inr r"
  shows "list_all item_ok (rs_WorkItems r) \<and>
    (\<forall>wi \<in> set (rs_WorkItems r). wi_Event wi = [] \<longrightarrow> wi_Type wi = ''pr'') \<and>
    (\<forall>wi \<in> set (rs_WorkItems r). if wi_Type wi = ''commit''
       then \<not> work_item_wf wi \<and> wi_Status wi = ''observed'' \<and> wi_CurrentStage wi = []
       else work_item_wf wi \<and> wi_CurrentStage wi = wi_Status wi) \<and>
    (\<forall>rv \<in> set (rs_Reviews r). rv_PRNodeID rv \<in> wi_NodeID ` set (rs_WorkItems r)) \<and>
    (\<forall>cm \<in> set (rs_Comments r). cm_ParentType cm \<in> {''pr'', ''issue''}) \<and>
    rs_Skip r = result_empty r \<and> (rs_Skip r \<or> rs_InstallationID r \<noteq> 0)"
proof -
  have "if wi_Type wi = ''commit''
       then \<not> work_item_wf wi \<and> wi_Status wi = ''observed'' \<and> wi_CurrentStage wi = []
       else work_item_wf wi \<and> wi_CurrentStage wi = wi_Status wi" if "wi \<in> set (rs_WorkItems r)" for wi
    using Normalize_items [OF assms that] github_item_wf [OF Normalize_items [OF assms that]] by (auto simp: github_item_def)
  moreover have "wi_Type wi = ''pr''" if "wi \<in> set (rs_WorkItems r)" "wi_Event wi = []" for wi
    using Normalize_items [OF assms that(1)] that(2) by (simp add: github_item_def)
  ultimately show ?thesis using github.normalize_result_wf [OF assms]
    by (auto simp: result_wf_def list_all_iff split: if_splits)
qed

text \<open>Evaluating a sample: it normalizes, and what is checked of the result.\<close>

lemma sample_result:
  assumes "(case Normalize raw of Inl _ \<Rightarrow> False | Inr r \<Rightarrow> P r)"
  obtains r where "Normalize raw = Inr r" "P r"
  using assms by (auto split: sum.splits)

theorem Normalize_wf_witness:
  "(\<exists>r. Normalize (raw_sample ''pull_request_review'' sample_review) = Inr r \<and>
     list_all work_item_wf (rs_WorkItems r) \<and> length (rs_Reviews r) = 1) \<and>
   (\<exists>r. Normalize (raw_sample ''push'' sample_push) = Inr r \<and> length (rs_WorkItems r) = 2 \<and>
     list_all (\<lambda>wi. \<not> work_item_wf wi) (rs_WorkItems r))"
proof
  have "(case Normalize (raw_sample ''pull_request_review'' sample_review) of
      Inl _ \<Rightarrow> False | Inr r \<Rightarrow> length (rs_Reviews r) = 1 \<and> list_all (\<lambda>wi. wi_Type wi = ''pr'') (rs_WorkItems r))" by code_simp
  then obtain r where r: "Normalize (raw_sample ''pull_request_review'' sample_review) = Inr r"
    "length (rs_Reviews r) = 1 \<and> list_all (\<lambda>wi. wi_Type wi = ''pr'') (rs_WorkItems r)" by (rule sample_result)
  with Normalize_wf [OF r(1)] show "\<exists>r. Normalize (raw_sample ''pull_request_review'' sample_review) = Inr r \<and>
     list_all work_item_wf (rs_WorkItems r) \<and> length (rs_Reviews r) = 1"
    by (auto simp: list_all_iff)
  have "(case Normalize (raw_sample ''push'' sample_push) of
      Inl _ \<Rightarrow> False | Inr r \<Rightarrow> length (rs_WorkItems r) = 2 \<and> list_all (\<lambda>wi. wi_Type wi = ''commit'') (rs_WorkItems r))" by code_simp
  then obtain r where r: "Normalize (raw_sample ''push'' sample_push) = Inr r"
    "length (rs_WorkItems r) = 2 \<and> list_all (\<lambda>wi. wi_Type wi = ''commit'') (rs_WorkItems r)" by (rule sample_result)
  with Normalize_wf [OF r(1)] show "\<exists>r. Normalize (raw_sample ''push'' sample_push) = Inr r \<and> length (rs_WorkItems r) = 2 \<and>
     list_all (\<lambda>wi. \<not> work_item_wf wi) (rs_WorkItems r)"
    by (auto simp: list_all_iff)
qed

text \<open>
  A push of N commits normalizes to N work items in the order of the payload, one per
  commit: its node id is the commit's sha, its title the first line of the message, and it is
  dated by the commit's own timestamp; every one emits \<open>commit.observed\<close>.
\<close>

theorem Normalize_push:
  assumes "Normalize raw = Inr r" "re_EventType raw = ''push''" "\<not> rs_Skip r"
  shows "\<exists>p. unmarshal (dec_struct push_payload_fields) zero_push_payload (re_Body raw) = Some p \<and>
     map wi_NodeID (rs_WorkItems r) = map pc_ID (elems (pu_Commits p)) \<and>
     map wi_OccurredAt (rs_WorkItems r) = map pc_Timestamp (elems (pu_Commits p)) \<and>
     list_all2 (\<lambda>wi c. has_prefix (pc_Message c) (wi_Title wi)) (rs_WorkItems r) (elems (pu_Commits p)) \<and>
     list_all (\<lambda>wi. wi_Event wi = CommitObserved \<and> char_of (10::nat) \<notin> set (wi_Title wi)) (rs_WorkItems r) \<and>
     rs_Reviews r = [] \<and> rs_CheckRuns r = [] \<and> rs_Comments r = []"
proof -
  from assms obtain p where p: "unmarshal (dec_struct push_payload_fields) zero_push_payload (re_Body raw) = Some p"
    and r: "rs_WorkItems r = map (commitWorkItem (rp_FullName (pu_Repository p))) (elems (pu_Commits p))"
      "rs_Reviews r = []" "rs_CheckRuns r = []" "rs_Comments r = []"
    by (auto simp: Normalize_def normalizePush_def res_bind_Inr_iff decode_iff zero_result_def
        skip_result_def split: if_splits)
  from p r show ?thesis
    by (intro exI [of _ p])
      (simp add: comp_def commitWorkItem_def zero_work_item_def list_all2_map1 list_all2_same
        list_all_iff firstLine_no_newline firstLine_prefix)
qed

theorem Normalize_push_witness:
  "\<exists>r. Normalize (raw_sample ''push'' sample_push) = Inr r \<and>
     map wi_NodeID (rs_WorkItems r) = [''aaa111'', ''bbb222''] \<and>
     list_all (\<lambda>wi. wi_Event wi = CommitObserved \<and> char_of (10::nat) \<notin> set (wi_Title wi)) (rs_WorkItems r)"
proof -
  have "(case Normalize (raw_sample ''push'' sample_push) of Inl _ \<Rightarrow> False
    | Inr r \<Rightarrow> \<not> rs_Skip r \<and> map wi_NodeID (rs_WorkItems r) = [''aaa111'', ''bbb222''])" by code_simp
  then obtain r where r: "Normalize (raw_sample ''push'' sample_push) = Inr r"
    "\<not> rs_Skip r \<and> map wi_NodeID (rs_WorkItems r) = [''aaa111'', ''bbb222'']" by (rule sample_result)
  have "re_EventType (raw_sample ''push'' sample_push) = ''push''" by (simp add: raw_sample_def)
  from Normalize_push [OF r(1) this conjunct1 [OF r(2)]]
  have "list_all (\<lambda>wi. wi_Event wi = CommitObserved \<and> char_of (10::nat) \<notin> set (wi_Title wi)) (rs_WorkItems r)"
    by (elim exE conjE)
  with r show ?thesis by (intro exI [of _ r] conjI) simp_all
qed

text \<open>
  C24. A pull_request event yields exactly one work item whose stage follows the payload
  (merged, else closed, else open), whose event follows the action (opened creates; closed,
  reopened, ready_for_review and converted_to_draft change the state; anything else updates)
  and whose event time is the merge time if there is one, else the close time, else the
  creation time; the number falls back to the event's own when the nested one is missing.
\<close>

theorem Normalize_pull_request:
  assumes "Normalize raw = Inr r" "re_EventType raw = ''pull_request''"
  shows "\<exists>p wi. unmarshal (dec_struct pr_payload_fields) zero_pr_payload (re_Body raw) = Some p \<and>
     rs_WorkItems r = [wi] \<and> rs_Reviews r = [] \<and> rs_CheckRuns r = [] \<and> rs_Comments r = [] \<and> \<not> rs_Skip r \<and>
     (wi_CurrentStage wi = ''merged'') = pr_Merged (pp_PullRequest p) \<and>
     (wi_CurrentStage wi = ''closed'') = (\<not> pr_Merged (pp_PullRequest p) \<and> pr_State (pp_PullRequest p) = ''closed'') \<and>
     (wi_Event wi = WorkItemCreated) = (pp_Action p = ''opened'') \<and>
     (wi_Event wi = WorkItemStateChanged) =
       (pp_Action p \<in> {''closed'', ''reopened'', ''ready_for_review'', ''converted_to_draft''}) \<and>
     wi_OccurredAt wi =
       (case (pr_MergedAt (pp_PullRequest p), pr_ClosedAt (pp_PullRequest p)) of
          (Some t, _) \<Rightarrow> t | (None, Some t) \<Rightarrow> t | (None, None) \<Rightarrow> pr_CreatedAt (pp_PullRequest p)) \<and>
     wi_Number wi = (if pr_Number (pp_PullRequest p) = 0 then pp_Number p else pr_Number (pp_PullRequest p))"
proof -
  from assms obtain p where p: "unmarshal (dec_struct pr_payload_fields) zero_pr_payload (re_Body raw) = Some p"
    and r: "pullRequestResult p = Inr r"
    by (auto simp: Normalize_def normalizePullRequest_def res_bind_Inr_iff decode_iff)
  let ?pr = "if pr_Number (pp_PullRequest p) = 0 then (pp_PullRequest p)\<lparr>pr_Number := pp_Number p\<rparr>
    else pp_PullRequest p"
  define wi0 where "wi0 = applyEnrichment (prWorkItem ?pr (rp_FullName (pp_Repository p))) (pp_Enrichment p)"
  define wi where "wi = wi0\<lparr>wi_Event := workItemEvent (pp_Action p),
    wi_OccurredAt := workItemOccurredAt (wi0\<lparr>wi_Event := workItemEvent (pp_Action p)\<rparr>)\<rparr>"
  have "r = zero_result\<lparr>rs_InstallationID := in_ID (pp_Installation p), rs_WorkItems := [wi]\<rparr>"
    using r unfolding pullRequestResult_def Let_def wi_def wi0_def by (cases "in_ID (pp_Installation p) = 0") simp_all
  then have items: "rs_WorkItems r = [wi]" "rs_Reviews r = []" "rs_CheckRuns r = []" "rs_Comments r = []" "\<not> rs_Skip r"
    by (simp_all add: zero_result_def)
  have num: "wi_Number wi = pr_Number ?pr" by (simp add: wi_def wi0_def)
  have stage: "wi_CurrentStage wi = snd (prStatusAndStage (pp_PullRequest p))"
    by (simp add: wi_def wi0_def prStatusAndStage_def)
  have ev: "wi_Event wi = workItemEvent (pp_Action p)" by (simp add: wi_def)
  have occ: "wi_OccurredAt wi =
       (case (pr_MergedAt (pp_PullRequest p), pr_ClosedAt (pp_PullRequest p)) of
          (Some t, _) \<Rightarrow> t | (None, Some t) \<Rightarrow> t | (None, None) \<Rightarrow> pr_CreatedAt (pp_PullRequest p))"
    by (cases "pr_MergedAt (pp_PullRequest p)"; cases "pr_ClosedAt (pp_PullRequest p)")
      (simp_all add: wi_def wi0_def workItemOccurredAt_def)
  show ?thesis
    by (intro exI [of _ p] exI [of _ wi] conjI items p occ)
      (simp_all add: num stage ev stage_conv event_conv)
qed

theorem Normalize_pull_request_witness:
  "\<exists>r wi. Normalize (raw_sample ''pull_request'' sample_pr) = Inr r \<and> rs_WorkItems r = [wi] \<and>
     wi_CurrentStage wi = ''merged'' \<and> wi_Number wi = 99"
proof -
  have "(case Normalize (raw_sample ''pull_request'' sample_pr) of Inl _ \<Rightarrow> False
    | Inr r \<Rightarrow> map wi_CurrentStage (rs_WorkItems r) = [''merged''] \<and> map wi_Number (rs_WorkItems r) = [99])" by code_simp
  then obtain r where r: "Normalize (raw_sample ''pull_request'' sample_pr) = Inr r"
    "map wi_CurrentStage (rs_WorkItems r) = [''merged''] \<and> map wi_Number (rs_WorkItems r) = [99]" by (rule sample_result)
  have "re_EventType (raw_sample ''pull_request'' sample_pr) = ''pull_request''" by (simp add: raw_sample_def)
  from Normalize_pull_request [OF r(1) this] obtain wi where wi: "rs_WorkItems r = [wi]" by (elim exE conjE)
  with r show ?thesis by (intro exI [of _ r] exI [of _ wi]) simp
qed

text \<open>
  An issue_comment whose issue has the member \<open>"pull_request": null\<close> is filed under a
  pull request, not an issue: the presence test looks at the raw message's length, and
  \<open>null\<close> is four bytes of it.
\<close>

theorem issue_comment_null_is_pr:
  "(case Normalize (raw_sample ''issue_comment'' sample_issue_comment) of
      Inl _ \<Rightarrow> [] | Inr r \<Rightarrow> map cm_ParentType (rs_Comments r)) = [''pr'']"
  by code_simp

end
