(* ===== verification/Normalizer.thy ===== *)
theory Normalizer
  imports Tenancy GitHubSource GoCrypto Kafka
begin

text \<open>
  The normalizer (services/normalizer/main.go): the statements it issues inside one
  tenant-scoped transaction, \<open>persist\<close> over a result, \<open>process\<close> of one message, and the
  dead-letter message.
\<close>

section \<open>Payloads\<close>

definition workItemPayload :: "work_item \<Rightarrow> payload" where
  "workItemPayload wi =
     [(''type'', enc_string (wi_Type wi)), (''repo'', enc_string (wi_Repo wi)),
      (''node_id'', enc_string (wi_NodeID wi)), (''number'', enc_int (wi_Number wi)),
      (''title'', enc_string (wi_Title wi)), (''status'', enc_string (wi_Status wi)),
      (''current_stage'', enc_string (wi_CurrentStage wi)),
      (''author_login'', enc_string (wi_AuthorLogin wi)),
      (''changed_files'', enc_int (wi_ChangedFiles wi)), (''additions'', enc_int (wi_Additions wi)),
      (''deletions'', enc_int (wi_Deletions wi))] @
     (if length (elems (wi_CommitOIDs wi)) > 0
      then [(''commit_oids'', enc_slice enc_string (wi_CommitOIDs wi))] else []) @
     (if length (elems (wi_Files wi)) > 0
      then [(''files'', enc_slice enc_file (wi_Files wi))] else [])"

definition reviewPayload :: "review \<Rightarrow> payload" where
  "reviewPayload rv =
     [(''repo'', enc_string (rv_Repo rv)), (''pr_node_id'', enc_string (rv_PRNodeID rv)),
      (''source_id'', enc_string (rv_SourceID rv)), (''reviewer_login'', enc_string (rv_ReviewerLogin rv)),
      (''state'', enc_string (rv_State rv)), (''comment_count'', enc_int (rv_CommentCount rv))]"

definition checkRunPayload :: "check_run \<Rightarrow> payload" where
  "checkRunPayload cr =
     [(''repo'', enc_string (cr_Repo cr)), (''source_id'', enc_string (cr_SourceID cr)),
      (''head_sha'', enc_string (cr_HeadSHA cr)), (''name'', enc_string (cr_Name cr)),
      (''conclusion'', enc_string (cr_Conclusion cr))]"

definition commentPayload :: "comment \<Rightarrow> payload" where
  "commentPayload cm =
     [(''repo'', enc_string (cm_Repo cm)), (''source_id'', enc_string (cm_SourceID cm)),
      (''parent_type'', enc_string (cm_ParentType cm)), (''parent_number'', enc_int (cm_ParentNumber cm)),
      (''author_login'', enc_string (cm_AuthorLogin cm)), (''body'', enc_string (cm_Body cm))]"

definition deref :: "gtime ptr \<Rightarrow> gtime" where
  "deref t = (case t of None \<Rightarrow> zero_time | Some t \<Rightarrow> t)"

definition nullIfEmpty :: "string \<Rightarrow> string option" where
  "nullIfEmpty s = (if s = [] then None else Some s)"

definition hashIdentifier :: "string \<Rightarrow> string" where
  "hashIdentifier value = hex_encode (sha256 value)"

section \<open>Statements of the transaction\<close>

definition enqueueOutbox :: "string \<Rightarrow> canonical_event \<Rightarrow> unit tx" where
  "enqueueOutbox tenant ev =
     (case marshal_event ev of
        None \<Rightarrow> eff_fail MarshalError
      | Some payload \<Rightarrow>
          eff_bind (eff_ask env_traceid) (\<lambda>trace.
          eff_bind (eff_ask env_traceparent) (\<lambda>parent.
          eff_bind tx_nextval (\<lambda>oid.
          tx_exec (\<lambda>app. stmt_outbox app
            \<lparr>o_id = oid, o_tenant = tenant, o_event_id = ev_id ev, o_topic = TopicCanonical,
             o_key = tenant, o_trace = trace, o_traceparent = parent, o_payload = payload,
             o_published = None\<rparr>)))))"

text \<open>\<open>events.New\<close> followed by \<open>enqueueOutbox\<close>.\<close>

definition emit :: "string \<Rightarrow> event_type \<Rightarrow> string \<Rightarrow> gtime \<Rightarrow> payload \<Rightarrow> unit tx" where
  "emit tenant t sid occurred p =
     eff_bind tx_fresh (\<lambda>uuid. enqueueOutbox tenant (event_new uuid tenant t sid occurred p))"

definition markDelivery :: "string \<Rightarrow> string \<Rightarrow> string \<Rightarrow> bool tx" where
  "markDelivery tenant delivery event =
     (if delivery = [] then eff_return True
      else
        eff_bind (tx_exec (\<lambda>app. stmt_delivery app
                   \<lparr>d_tenant = tenant, d_delivery = delivery, d_event = event\<rparr>))
          (\<lambda>n. eff_return (n = 1)))"

definition item_row :: "string \<Rightarrow> string \<Rightarrow> gtime \<Rightarrow> work_item \<Rightarrow> work_item_row" where
  "item_row tenant uuid now wi =
     \<lparr>w_tenant = tenant, w_id = uuid, w_type = wi_Type wi, w_repo = wi_Repo wi, w_node = wi_NodeID wi,
      w_number = wi_Number wi, w_title = wi_Title wi, w_status = wi_Status wi,
      w_stage = wi_CurrentStage wi, w_author = wi_AuthorLogin wi, w_changed = wi_ChangedFiles wi,
      w_additions = wi_Additions wi, w_deletions = wi_Deletions wi, w_created = pg_time (wi_CreatedAt wi),
      w_merged = map_option pg_time (wi_MergedAt wi), w_closed = map_option pg_time (wi_ClosedAt wi),
      w_updated = pg_time now\<rparr>"

definition upsertWorkItem :: "string \<Rightarrow> work_item \<Rightarrow> string tx" where
  "upsertWorkItem tenant wi =
     eff_bind tx_fresh (\<lambda>uuid. eff_bind (eff_ask env_now) (\<lambda>now.
     tx_exec (\<lambda>app. stmt_item app item_update (item_row tenant uuid now wi))))"

definition ensureWorkItem :: "string \<Rightarrow> work_item \<Rightarrow> string tx" where
  "ensureWorkItem tenant wi =
     eff_bind tx_fresh (\<lambda>uuid. eff_bind (eff_ask env_now) (\<lambda>now.
     tx_exec (\<lambda>app. stmt_item app item_ensure (item_row tenant uuid now wi))))"

definition insertReview :: "string \<Rightarrow> string \<Rightarrow> string \<Rightarrow> review \<Rightarrow> unit tx" where
  "insertReview tenant workItemID reviewerID rv =
     eff_bind tx_fresh (\<lambda>uuid.
     tx_exec (\<lambda>app. stmt_review app
       \<lparr>v_tenant = tenant, v_id = uuid, v_work_item = workItemID, v_reviewer = reviewerID,
        v_source = rv_SourceID rv, v_state = rv_State rv, v_comments = rv_CommentCount rv,
        v_submitted = pg_time (rv_SubmittedAt rv)\<rparr>))"

definition upsertCheckRun :: "string \<Rightarrow> check_run \<Rightarrow> unit tx" where
  "upsertCheckRun tenant cr =
     eff_bind tx_fresh (\<lambda>uuid.
     tx_exec (\<lambda>app. stmt_check app
       \<lparr>k_tenant = tenant, k_id = uuid, k_source = cr_SourceID cr, k_head_sha = cr_HeadSHA cr,
        k_name = cr_Name cr, k_conclusion = nullIfEmpty (cr_Conclusion cr),
        k_started = map_option pg_time (cr_StartedAt cr),
        k_completed = map_option pg_time (cr_CompletedAt cr)\<rparr>))"

text \<open>
  \<open>resolveContributor\<close>: look the hashed login up, else create the contributor and its link;
  a link that is there by then was made by a concurrent delivery, whose contributor wins. The
  re-read failing with no rows is an error.
\<close>

definition github_login :: string where
  "github_login = ''github_login''"

definition resolveContributor :: "string \<Rightarrow> string \<Rightarrow> string tx" where
  "resolveContributor tenant login =
     (let hash = hashIdentifier login;
          select = tx_exec (\<lambda>app. stmt_select_link app tenant github_login hash)
      in
        eff_bind select (\<lambda>found.
        case found of
          Some cid \<Rightarrow> eff_return cid
        | None \<Rightarrow>
            eff_bind tx_fresh (\<lambda>uuid.
            eff_bind (tx_exec (\<lambda>app. stmt_contributor app
              \<lparr>c_tenant = tenant, c_id = uuid, c_name = login, c_is_bot = has_suffix login ''[bot]''\<rparr>)) (\<lambda>cid.
            eff_bind tx_fresh (\<lambda>link.
            eff_bind (tx_exec (\<lambda>app. stmt_link app
              \<lparr>i_tenant = tenant, i_id = link, i_contributor = cid, i_kind = github_login, i_hash = hash\<rparr>)) (\<lambda>n.
            if n = 0 then
              eff_bind select (\<lambda>again. case again of Some winner \<Rightarrow> eff_return winner | None \<Rightarrow> eff_fail DbError)
            else eff_return cid))))))"

section \<open>persist\<close>

text \<open>The work items: the ids by node id are what the reviews look their pull request up in.\<close>

fun persist_items :: "string \<Rightarrow> work_item list \<Rightarrow> (string \<rightharpoonup> string) \<Rightarrow> (string \<rightharpoonup> string) tx" where
  "persist_items tenant [] ids = eff_return ids"
| "persist_items tenant (wi # wis) ids =
     eff_bind (if wi_Event wi = [] then ensureWorkItem tenant wi else upsertWorkItem tenant wi) (\<lambda>i.
     eff_bind (if wi_Event wi = [] then eff_return ()
              else emit tenant (wi_Event wi) (wi_NodeID wi) (wi_OccurredAt wi) (workItemPayload wi)) (\<lambda>_.
     persist_items tenant wis (ids(wi_NodeID wi \<mapsto> i))))"

fun persist_reviews :: "string \<Rightarrow> (string \<rightharpoonup> string) \<Rightarrow> review list \<Rightarrow> unit tx" where
  "persist_reviews tenant ids [] = eff_return ()"
| "persist_reviews tenant ids (rv # rvs) =
     (case ids (rv_PRNodeID rv) of
        None \<Rightarrow> eff_fail (Permanent (''review '' @ rv_SourceID rv @ '': parent PR '' @ rv_PRNodeID rv
                                    @ '' not in delivery''))
      | Some workItemID \<Rightarrow>
          if rv_ReviewerLogin rv = [] then persist_reviews tenant ids rvs
          else
            eff_bind (resolveContributor tenant (rv_ReviewerLogin rv)) (\<lambda>reviewerID.
            eff_bind (insertReview tenant workItemID reviewerID rv) (\<lambda>_.
            eff_bind (emit tenant ReviewSubmitted (rv_SourceID rv) (rv_SubmittedAt rv) (reviewPayload rv)) (\<lambda>_.
            persist_reviews tenant ids rvs))))"

definition occurred :: "check_run \<Rightarrow> gtime" where
  "occurred cr = deref (case cr_CompletedAt cr of None \<Rightarrow> cr_StartedAt cr | Some t \<Rightarrow> Some t)"

fun persist_checks :: "string \<Rightarrow> check_run list \<Rightarrow> unit tx" where
  "persist_checks tenant [] = eff_return ()"
| "persist_checks tenant (cr # crs) =
     eff_bind (upsertCheckRun tenant cr) (\<lambda>_.
     eff_bind (emit tenant CheckCompleted (cr_SourceID cr) (occurred cr) (checkRunPayload cr)) (\<lambda>_.
     persist_checks tenant crs))"

fun persist_comments :: "string \<Rightarrow> comment list \<Rightarrow> unit tx" where
  "persist_comments tenant [] = eff_return ()"
| "persist_comments tenant (cm # cms) =
     eff_bind (emit tenant CommentAdded (cm_SourceID cm) (cm_CreatedAt cm) (commentPayload cm)) (\<lambda>_.
     persist_comments tenant cms)"

definition persist :: "string \<Rightarrow> result \<Rightarrow> unit tx" where
  "persist tenant res =
     eff_bind (persist_items tenant (rs_WorkItems res) Map.empty) (\<lambda>ids.
     eff_bind (persist_reviews tenant ids (rs_Reviews res)) (\<lambda>_.
     eff_bind (persist_checks tenant (rs_CheckRuns res)) (\<lambda>_.
     persist_comments tenant (rs_Comments res))))"

section \<open>process\<close>

text \<open>The transaction \<open>process\<close> runs.\<close>

definition deliver :: "string \<Rightarrow> string \<Rightarrow> string \<Rightarrow> result \<Rightarrow> unit tx" where
  "deliver tenant delivery event res =
     eff_bind (markDelivery tenant delivery event) (\<lambda>fresh.
     if fresh then persist tenant res else eff_fail Duplicate)"

datatype 'e proc_error = SourceError 'e | ResolveError | TxError tx_error

definition isPermanent :: "'e proc_error \<Rightarrow> bool" where
  "isPermanent e \<longleftrightarrow> (case e of SourceError _ \<Rightarrow> True | TxError (Permanent _) \<Rightarrow> True | _ \<Rightarrow> False)"

definition raw_of :: "tx_env \<Rightarrow> message \<Rightarrow> raw_event" where
  "raw_of env msg =
     \<lparr>re_DeliveryID = hget (msg_Headers msg) HeaderGitHubDeliv,
      re_EventType = hget (msg_Headers msg) HeaderGitHubEvent,
      re_Body = msg_Value msg, re_TraceID = env_traceid env\<rparr>"

text \<open>
  \<open>src\<close> is the connector; \<open>fault\<close> says whether the tenant lookup fails.
\<close>

definition process :: "(raw_event \<Rightarrow> 'e + result) \<Rightarrow> tx_env \<Rightarrow> bool \<Rightarrow> message \<Rightarrow> database
    \<Rightarrow> ('e proc_error + unit) \<times> database" where
  "process src env fault msg db =
     (let raw = raw_of env msg in
      case src raw of
        Inl e \<Rightarrow> (Inl (SourceError e), db)
      | Inr res \<Rightarrow>
          if rs_Skip res \<or> result_empty res then (Inr (), db)
          else
            case ResolveTenant fault db (rs_InstallationID res) of
              Inl UnknownInstallation \<Rightarrow> (Inr (), db)
            | Inl ResolveFault \<Rightarrow> (Inl ResolveError, db)
            | Inr tenant \<Rightarrow>
                (case WithTenant env tenant (deliver tenant (re_DeliveryID raw) (re_EventType raw) res) db of
                   (Inl e, db') \<Rightarrow> if e = Duplicate then (Inr (), db') else (Inl (TxError e), db')
                 | (Inr _, db') \<Rightarrow> (Inr (), db')))"

text \<open>The message \<open>deadLetter\<close> writes; \<open>reason\<close> is the error's text.\<close>

definition deadLetter :: "message \<Rightarrow> string \<Rightarrow> message" where
  "deadLetter msg reason =
     \<lparr>msg_Key = msg_Key msg, msg_Value = msg_Value msg,
      msg_Headers = (msg_Headers msg)(HeaderDLQReason \<mapsto> reason)\<rparr>"

end
