(* ===== verification/NormalizerFacts.thy ===== *)
theory NormalizerFacts
  imports Normalizer
begin

text \<open>
  How the normalizer's operations carry a relation on the tables (the locale
  \<open>statement_frame\<close>), that a rollback leaves what was there, and which canonical events each
  operation stages (\<open>emits\<close>): the library the properties of \<open>process\<close> rest on.
\<close>

section \<open>Relations every statement keeps\<close>

text \<open>A relation the statements of one tenant's transaction keep, each on its own.\<close>

locale statement_frame = frame R for R :: "tables \<Rightarrow> tables \<Rightarrow> bool" +
  fixes tenant :: string
  assumes R_item: "stmt_item tenant item_update w t = Some (i, t') \<Longrightarrow> R t t'"
    and R_ensure: "stmt_item tenant item_ensure w t = Some (i, t') \<Longrightarrow> R t t'"
    and R_review: "stmt_review tenant v t = Some (u, t') \<Longrightarrow> R t t'"
    and R_check: "stmt_check tenant k t = Some (u, t') \<Longrightarrow> R t t'"
    and R_contributor: "stmt_contributor tenant c t = Some (i, t') \<Longrightarrow> R t t'"
    and R_link: "stmt_link tenant l t = Some (n, t') \<Longrightarrow> R t t'"
    and R_delivery: "stmt_delivery tenant d t = Some (n, t') \<Longrightarrow> R t t'"
    and R_outbox: "stmt_outbox tenant x t = Some (u, t') \<Longrightarrow> R t t'"
begin

lemma R_select: "stmt_select_link tenant p k h t = Some (x, t') \<Longrightarrow> R t t'"
  by (auto simp: stmt_select_link_def R_refl)

lemmas statement_intros =
  R_item R_ensure R_review R_check R_contributor R_link R_delivery R_outbox R_select

lemma frame_enqueue: "frames tenant R (enqueueOutbox p ev)"
  unfolding enqueueOutbox_def
  by (intro frame_intros frame_exec; erule statement_intros)

lemma frame_emit: "frames tenant R (emit p t sid occ pl)"
  unfolding emit_def by (intro frame_intros frame_enqueue)

lemma frame_mark: "frames tenant R (markDelivery p d e)"
  unfolding markDelivery_def by (intro frame_intros frame_exec; erule statement_intros)

lemma frame_upsertWorkItem: "frames tenant R (upsertWorkItem p wi)"
  unfolding upsertWorkItem_def by (intro frame_intros frame_exec; erule statement_intros)

lemma frame_ensureWorkItem: "frames tenant R (ensureWorkItem p wi)"
  unfolding ensureWorkItem_def by (intro frame_intros frame_exec; erule statement_intros)

lemma frame_insertReview: "frames tenant R (insertReview p i j rv)"
  unfolding insertReview_def by (intro frame_intros frame_exec; erule statement_intros)

lemma frame_upsertCheckRun: "frames tenant R (upsertCheckRun p cr)"
  unfolding upsertCheckRun_def by (intro frame_intros frame_exec; erule statement_intros)

lemma frame_resolve: "frames tenant R (resolveContributor p login)"
  unfolding resolveContributor_def Let_def by (intro frame_intros frame_exec; erule statement_intros)

lemma frame_items: "frames tenant R (persist_items p wis ids)"
  by (induction wis arbitrary: ids)
    (auto intro!: frame_intros frame_upsertWorkItem frame_ensureWorkItem frame_emit)

lemma frame_reviews: "frames tenant R (persist_reviews p ids rvs)"
  by (induction rvs)
    (auto intro!: frame_intros frame_resolve frame_insertReview frame_emit split: option.split)

lemma frame_checks: "frames tenant R (persist_checks p crs)"
  by (induction crs) (auto intro!: frame_intros frame_upsertCheckRun frame_emit)

lemma frame_comments: "frames tenant R (persist_comments p cms)"
  by (induction cms) (auto intro!: frame_intros frame_emit)

lemma frame_persist: "frames tenant R (persist p res)"
  unfolding persist_def
  by (intro frame_intros frame_items frame_reviews frame_checks frame_comments)

lemma frame_deliver: "frames tenant R (deliver p d e res)"
  unfolding deliver_def by (intro frame_intros frame_mark frame_persist)

end

section \<open>The operations keep what others left\<close>

lemma others_enqueue [others_rules]: "keeps_others (enqueueOutbox p ev)"
  unfolding enqueueOutbox_def by (intro others_rules)

lemma others_emit [others_rules]: "keeps_others (emit p t sid occ pl)"
  unfolding emit_def by (intro others_rules)

lemma others_ops [others_rules]:
  "keeps_others (markDelivery p d e)" "keeps_others (upsertWorkItem p wi)"
  "keeps_others (ensureWorkItem p wi)" "keeps_others (insertReview p i j rv)"
  "keeps_others (upsertCheckRun p cr)" "keeps_others (resolveContributor p login)"
  unfolding markDelivery_def upsertWorkItem_def ensureWorkItem_def insertReview_def
    upsertCheckRun_def resolveContributor_def Let_def by (intro others_rules)+

lemma others_items [others_rules]: "keeps_others (persist_items p wis ids)"
  by (induction wis arbitrary: ids) (auto intro!: others_rules)

lemma others_reviews [others_rules]: "keeps_others (persist_reviews p ids rvs)"
  by (induction rvs) (auto intro!: others_rules split: option.split)

lemma others_checks [others_rules]: "keeps_others (persist_checks p crs)"
  by (induction crs) (auto intro!: others_rules)

lemma others_comments [others_rules]: "keeps_others (persist_comments p cms)"
  by (induction cms) (auto intro!: others_rules)

lemma others_deliver: "keeps_others (deliver p d e res)"
  unfolding deliver_def persist_def by (intro others_rules)

section \<open>Tenant isolation\<close>

text \<open>Every row of another tenant is as it was.\<close>

definition same_elsewhere :: "string \<Rightarrow> tables \<Rightarrow> tables \<Rightarrow> bool" where
  "same_elsewhere tenant t t' \<longleftrightarrow>
     filter (\<lambda>r. w_tenant r \<noteq> tenant) (t_items t') = filter (\<lambda>r. w_tenant r \<noteq> tenant) (t_items t) \<and>
     filter (\<lambda>r. v_tenant r \<noteq> tenant) (t_reviews t') = filter (\<lambda>r. v_tenant r \<noteq> tenant) (t_reviews t) \<and>
     filter (\<lambda>r. k_tenant r \<noteq> tenant) (t_checks t') = filter (\<lambda>r. k_tenant r \<noteq> tenant) (t_checks t) \<and>
     filter (\<lambda>r. c_tenant r \<noteq> tenant) (t_contributors t') = filter (\<lambda>r. c_tenant r \<noteq> tenant) (t_contributors t) \<and>
     filter (\<lambda>r. i_tenant r \<noteq> tenant) (t_links t') = filter (\<lambda>r. i_tenant r \<noteq> tenant) (t_links t) \<and>
     filter (\<lambda>r. d_tenant r \<noteq> tenant) (t_deliveries t') = filter (\<lambda>r. d_tenant r \<noteq> tenant) (t_deliveries t) \<and>
     filter (\<lambda>r. o_tenant r \<noteq> tenant) (t_outbox t') = filter (\<lambda>r. o_tenant r \<noteq> tenant) (t_outbox t) \<and>
     filter (\<lambda>r. y_tenant r \<noteq> tenant) (t_capabilities t') = filter (\<lambda>r. y_tenant r \<noteq> tenant) (t_capabilities t)"

lemma item_filter:
  "w_tenant w = tenant \<Longrightarrow>
   filter (\<lambda>r. w_tenant r \<noteq> tenant) (upsert item_key item_update w rows) = filter (\<lambda>r. w_tenant r \<noteq> tenant) rows"
  "w_tenant w = tenant \<Longrightarrow>
   filter (\<lambda>r. w_tenant r \<noteq> tenant) (upsert item_key item_ensure w rows) = filter (\<lambda>r. w_tenant r \<noteq> tenant) rows"
  by (rule items.upsert_filter ensured.upsert_filter, simp add: item_key_def)+

lemma review_filter:
  "v_tenant v = tenant \<Longrightarrow>
   filter (\<lambda>r. v_tenant r \<noteq> tenant) (upsert review_key review_update v rows) = filter (\<lambda>r. v_tenant r \<noteq> tenant) rows"
  by (rule reviews.upsert_filter) (simp add: review_key_def)

lemma check_filter:
  "k_tenant v = tenant \<Longrightarrow>
   filter (\<lambda>r. k_tenant r \<noteq> tenant) (upsert check_key check_update v rows) = filter (\<lambda>r. k_tenant r \<noteq> tenant) rows"
  by (rule checks.upsert_filter) (simp add: check_key_def)

interpretation isolation: statement_frame "same_elsewhere tenant" tenant for tenant
  by unfold_locales
    (auto simp: same_elsewhere_def stmt_defs Let_def insert_new_def item_filter review_filter check_filter
      split: if_splits)

section \<open>The unique keys of the schema\<close>

definition keys_unique :: "tables \<Rightarrow> bool" where
  "keys_unique t \<longleftrightarrow>
     distinct (map item_key (t_items t)) \<and> distinct (map review_key (t_reviews t)) \<and>
     distinct (map check_key (t_checks t)) \<and> distinct (map link_key (t_links t)) \<and>
     distinct (map delivery_key (t_deliveries t)) \<and> distinct (map capability_key (t_capabilities t))"

definition keeps_keys :: "tables \<Rightarrow> tables \<Rightarrow> bool" where
  "keeps_keys t t' \<longleftrightarrow> (keys_unique t \<longrightarrow> keys_unique t')"

interpretation keys: statement_frame keeps_keys tenant for tenant
  by unfold_locales
    (auto simp: keeps_keys_def keys_unique_def stmt_defs Let_def insert_new_def
      items.upsert_distinct ensured.upsert_distinct reviews.upsert_distinct checks.upsert_distinct
      split: if_splits)

section \<open>What only grows\<close>

text \<open>
  Nothing is deleted and no key or id changes: the outbox, the links, the contributors and the
  delivery marks are extended at their end, and a work item keeps its key and its id.
\<close>

definition extends :: "'a list \<Rightarrow> 'a list \<Rightarrow> bool" where
  "extends xs ys \<longleftrightarrow> (\<exists>zs. ys = xs @ zs)"

definition item_ids :: "tables \<Rightarrow> ((string \<times> string \<times> string \<times> string) \<times> string) list" where
  "item_ids t = map (\<lambda>w. (item_key w, w_id w)) (t_items t)"

definition grows :: "tables \<Rightarrow> tables \<Rightarrow> bool" where
  "grows t t' \<longleftrightarrow>
     extends (t_outbox t) (t_outbox t') \<and> extends (t_links t) (t_links t') \<and>
     extends (t_contributors t) (t_contributors t') \<and> extends (t_deliveries t) (t_deliveries t') \<and>
     extends (item_ids t) (item_ids t')"

lemma extends_refl [simp]: "extends xs xs"
  by (simp add: extends_def)

lemma extends_append [simp]: "extends xs (xs @ ys)"
  by (simp add: extends_def)

lemma extends_trans: "extends xs ys \<Longrightarrow> extends ys zs \<Longrightarrow> extends xs zs"
  by (auto simp: extends_def)

lemma extends_set: "extends xs ys \<Longrightarrow> set xs \<subseteq> set ys"
  by (auto simp: extends_def)

lemma item_ids_upsert:
  assumes "\<And>old. item_key (merge old w) = item_key old \<and> w_id (merge old w) = w_id old"
  shows "extends (map (\<lambda>w. (item_key w, w_id w)) rows) (map (\<lambda>w. (item_key w, w_id w)) (upsert item_key merge w rows))"
proof (cases "item_key w \<in> item_key ` set rows")
  case True
  then have "map (\<lambda>w. (item_key w, w_id w)) (upsert item_key merge w rows) = map (\<lambda>w. (item_key w, w_id w)) rows"
    using assms by (simp add: upsert_def)
  then show ?thesis by simp
qed (simp add: upsert_def)

lemma item_ids_update:
  "extends (map (\<lambda>w. (item_key w, w_id w)) rows) (map (\<lambda>w. (item_key w, w_id w)) (upsert item_key item_update w rows))"
  "extends (map (\<lambda>w. (item_key w, w_id w)) rows) (map (\<lambda>w. (item_key w, w_id w)) (upsert item_key item_ensure w rows))"
  by (rule item_ids_upsert, simp add: item_key_def item_update_def item_ensure_def)+

lemmas grows_defs = grows_def item_ids_def

interpretation growth: statement_frame grows tenant for tenant
proof unfold_locales
  show "grows t u \<Longrightarrow> grows u v \<Longrightarrow> grows t v" for t u v
    unfolding grows_def by (elim conjE, intro conjI; erule (1) extends_trans)
  show "grows t t'" if "stmt_item tenant item_update w t = Some (i, t')" for w t i t'
    using that by (auto simp: stmt_item_def Let_def grows_defs item_ids_update split: if_splits)
  show "grows t t'" if "stmt_item tenant item_ensure w t = Some (i, t')" for w t i t'
    using that by (auto simp: stmt_item_def Let_def grows_defs item_ids_update split: if_splits)
qed (auto simp: grows_defs stmt_review_def stmt_check_def stmt_contributor_def stmt_link_def
      stmt_delivery_def stmt_outbox_def Let_def insert_new_def split: if_splits)

section \<open>The events an operation stages\<close>

type_synonym event_spec = "event_type \<times> string \<times> gtime \<times> payload"

text \<open>An outbox row that stages an event: its payload is the event's bytes, under the row's id.\<close>

fun staged :: "string \<Rightarrow> event_spec \<Rightarrow> outbox_row \<Rightarrow> bool" where
  "staged tenant (t, sid, occ, p) row \<longleftrightarrow>
     marshal_event (event_new (o_event_id row) tenant t sid occ p) = Some (o_payload row) \<and>
     o_tenant row = tenant \<and> o_topic row = TopicCanonical \<and> o_key row = tenant \<and> o_published row = None"

text \<open>New rows carry increasing ids drawn from the sequence and event ids from the supply.\<close>

definition fresh_rows :: "tx_env \<Rightarrow> int \<Rightarrow> int \<Rightarrow> outbox_row list \<Rightarrow> bool" where
  "fresh_rows env lo hi new \<longleftrightarrow>
     lo \<le> hi \<and> sorted_wrt (<) (map o_id new) \<and> (\<forall>row \<in> set new. lo \<le> o_id row \<and> o_id row < hi) \<and>
     (\<forall>row \<in> set new. o_event_id row \<in> range (env_uuid env))"

lemma fresh_rows_append:
  "fresh_rows env lo mid xs \<Longrightarrow> fresh_rows env mid hi ys \<Longrightarrow> fresh_rows env lo hi (xs @ ys)"
  by (fastforce simp: fresh_rows_def sorted_wrt_append)

lemma fresh_rows_Nil: "fresh_rows env lo hi [] \<longleftrightarrow> lo \<le> hi"
  by (simp add: fresh_rows_def)

definition stages_events :: "tx_env \<Rightarrow> string \<Rightarrow> event_spec list \<Rightarrow> tx_state \<Rightarrow> tx_state \<Rightarrow> bool" where
  "stages_events env tenant specs s s' \<longleftrightarrow>
     (\<exists>new. t_outbox (tx_tabs s') = t_outbox (tx_tabs s) @ new \<and> list_all2 (staged tenant) specs new \<and>
            fresh_rows env (tx_seq s) (tx_seq s') new)"

definition emits :: "string \<Rightarrow> event_spec list \<Rightarrow> 'a tx \<Rightarrow> bool" where
  "emits tenant specs m \<longleftrightarrow>
     (\<forall>env s x s'. quiet env \<longrightarrow> m env s = (Inr x, s') \<longrightarrow> stages_events env tenant specs s s')"

named_theorems emit_rules \<open>which events a computation stages\<close>

lemma stages_none:
  "t_outbox (tx_tabs s') = t_outbox (tx_tabs s) \<Longrightarrow> tx_seq s' = tx_seq s \<Longrightarrow> stages_events env tenant [] s s'"
  by (simp add: stages_events_def fresh_rows_Nil)

lemma stages_append:
  assumes "stages_events env tenant xs s s'" "stages_events env tenant ys s' s''"
  shows "stages_events env tenant (xs @ ys) s s''"
proof -
  from assms obtain new new' where
    "t_outbox (tx_tabs s') = t_outbox (tx_tabs s) @ new" "list_all2 (staged tenant) xs new"
    "fresh_rows env (tx_seq s) (tx_seq s') new"
    "t_outbox (tx_tabs s'') = t_outbox (tx_tabs s') @ new'" "list_all2 (staged tenant) ys new'"
    "fresh_rows env (tx_seq s') (tx_seq s'') new'"
    by (auto simp: stages_events_def)
  then show ?thesis unfolding stages_events_def
    by (intro exI [of _ "new @ new'"]) (auto intro: list_all2_appendI fresh_rows_append)
qed

lemma emits_basic [emit_rules]:
  "emits tenant [] (eff_return x)" "emits tenant specs (eff_fail e)" "emits tenant [] tx_fresh"
  "emits tenant [] (eff_ask f)"
  by (auto simp: emits_def tx_defs intro: stages_none)

lemma emits_bind:
  assumes "emits tenant xs m" "\<And>x. emits tenant ys (f x)"
  shows "emits tenant (xs @ ys) (eff_bind m f)"
  unfolding emits_def
proof (intro allI impI)
  fix env :: tx_env and s y s'' assume q: "quiet env" and run: "eff_bind m f env s = (Inr y, s'')"
  from run obtain x s' where m: "m env s = (Inr x, s')" and f: "f x env s' = (Inr y, s'')"
    by (rule eff_bind_Inr)
  have "stages_events env tenant xs s s'" using assms(1) q m unfolding emits_def by blast
  moreover have "stages_events env tenant ys s' s''" using assms(2) q f unfolding emits_def by blast
  ultimately show "stages_events env tenant (xs @ ys) s s''" by (rule stages_append)
qed

lemma emits_bind_silent:
  "emits tenant [] m \<Longrightarrow> (\<And>x. emits tenant ys (f x)) \<Longrightarrow> emits tenant ys (eff_bind m f)"
  using emits_bind [of tenant "[]" m ys f] by simp

lemma emits_exec [emit_rules]:
  assumes "\<And>app t x t'. f app t = Some (x, t') \<Longrightarrow> t_outbox t' = t_outbox t"
  shows "emits tenant [] (tx_exec f)"
  unfolding emits_def
proof (intro allI impI)
  fix env :: tx_env and s x s' assume "quiet env" "tx_exec f env s = (Inr x, s')"
  then show "stages_events env tenant [] s s'"
    by (intro stages_none) (auto simp: tx_exec_def tx_step_def quiet_def Let_def split: if_splits option.splits dest: assms)
qed

lemma emits_if:
  "(b \<Longrightarrow> emits tenant specs m) \<Longrightarrow> (\<not> b \<Longrightarrow> emits tenant specs m') \<Longrightarrow> emits tenant specs (if b then m else m')"
  by simp

lemma emits_option:
  "(\<And>x. o' = Some x \<Longrightarrow> emits tenant specs (f x)) \<Longrightarrow> (o' = None \<Longrightarrow> emits tenant specs m) \<Longrightarrow>
   emits tenant specs (case o' of None \<Rightarrow> m | Some x \<Rightarrow> f x)"
  by (cases o') simp_all

lemma stmt_outbox_only:
  "stmt_item app merge w t = Some (i, t') \<Longrightarrow> t_outbox t' = t_outbox t"
  "stmt_review app v t = Some (u, t') \<Longrightarrow> t_outbox t' = t_outbox t"
  "stmt_check app k t = Some (u, t') \<Longrightarrow> t_outbox t' = t_outbox t"
  "stmt_contributor app c t = Some (i, t') \<Longrightarrow> t_outbox t' = t_outbox t"
  "stmt_link app l t = Some (n, t') \<Longrightarrow> t_outbox t' = t_outbox t"
  "stmt_delivery app d t = Some (n, t') \<Longrightarrow> t_outbox t' = t_outbox t"
  "stmt_select_link app p kd h t = Some (o', t') \<Longrightarrow> t_outbox t' = t_outbox t"
  by (auto simp: stmt_defs Let_def split: if_splits prod.splits)

lemma emits_emit: "emits tenant [(t, sid, occ, p)] (emit tenant t sid occ p)"
  unfolding emits_def
proof (intro allI impI)
  fix env :: tx_env and s x s' assume q: "quiet env" and run: "emit tenant t sid occ p env s = (Inr x, s')"
  define uuid where "uuid = env_uuid env (tx_uuid s)"
  from run obtain payload where m: "marshal_event (event_new uuid tenant t sid occ p) = Some payload"
    by (auto simp: emit_def enqueueOutbox_def tx_defs uuid_def split: option.splits)
  define row where "row = \<lparr>o_id = tx_seq s, o_tenant = tenant, o_event_id = uuid, o_topic = TopicCanonical,
    o_key = tenant, o_trace = env_traceid env, o_traceparent = env_traceparent env, o_payload = payload,
    o_published = None\<rparr>"
  have "ev_id (event_new uuid tenant t sid occ p) = uuid" by (simp add: event_new_def)
  with run m q have "t_outbox (tx_tabs s') = t_outbox (tx_tabs s) @ [row]" "tx_seq s' = tx_seq s + 1"
    by (auto simp: emit_def enqueueOutbox_def tx_defs tx_exec_def tx_step_def quiet_def Let_def
        stmt_outbox_def row_def uuid_def [symmetric] split: if_splits)
  moreover have "staged tenant (t, sid, occ, p) row" using m by (simp add: row_def)
  moreover have "fresh_rows env (tx_seq s) (tx_seq s + 1) [row]"
    by (simp add: fresh_rows_def row_def uuid_def)
  ultimately show "stages_events env tenant [(t, sid, occ, p)] s s'"
    unfolding stages_events_def by (intro exI [of _ "[row]"]) simp
qed

lemma emits_silent [emit_rules]:
  "emits tenant [] (markDelivery p d e)" "emits tenant [] (upsertWorkItem p wi)"
  "emits tenant [] (ensureWorkItem p wi)" "emits tenant [] (insertReview p i j rv)"
  "emits tenant [] (upsertCheckRun p cr)" "emits tenant [] (resolveContributor p login)"
  unfolding markDelivery_def upsertWorkItem_def ensureWorkItem_def insertReview_def
    upsertCheckRun_def resolveContributor_def Let_def
  by (intro emits_bind_silent emits_if emits_option emits_basic emits_exec; erule stmt_outbox_only)+

text \<open>
  The abstract specification of \<open>persist\<close>: the canonical events of a result, in order. An
  ensure-only work item and a review without a reviewer stage nothing.
\<close>

definition item_specs :: "work_item \<Rightarrow> event_spec list" where
  "item_specs wi =
     (if wi_Event wi = [] then []
      else [(wi_Event wi, wi_NodeID wi, wi_OccurredAt wi, workItemPayload wi)])"

definition review_specs :: "review \<Rightarrow> event_spec list" where
  "review_specs rv =
     (if rv_ReviewerLogin rv = [] then []
      else [(ReviewSubmitted, rv_SourceID rv, rv_SubmittedAt rv, reviewPayload rv)])"

definition check_spec :: "check_run \<Rightarrow> event_spec" where
  "check_spec cr = (CheckCompleted, cr_SourceID cr, occurred cr, checkRunPayload cr)"

definition comment_spec :: "comment \<Rightarrow> event_spec" where
  "comment_spec cm = (CommentAdded, cm_SourceID cm, cm_CreatedAt cm, commentPayload cm)"

definition canonical_events :: "result \<Rightarrow> event_spec list" where
  "canonical_events res =
     concat (map item_specs (rs_WorkItems res)) @ concat (map review_specs (rs_Reviews res)) @
     map check_spec (rs_CheckRuns res) @ map comment_spec (rs_Comments res)"

lemma emits_item:
  "emits tenant (item_specs wi)
     (if wi_Event wi = [] then eff_return ()
      else emit tenant (wi_Event wi) (wi_NodeID wi) (wi_OccurredAt wi) (workItemPayload wi))"
  by (simp add: item_specs_def emits_basic emits_emit)

lemma emits_items: "emits tenant (concat (map item_specs wis)) (persist_items tenant wis ids)"
proof (induction wis arbitrary: ids)
  case (Cons wi wis)
  show ?case
    unfolding persist_items.simps list.map concat.simps
    by (intro emits_bind_silent [where ys = "item_specs wi @ concat (map item_specs wis)"] emits_bind
        emits_item Cons.IH emits_if emits_silent)
qed (simp add: emits_basic)

lemma emits_reviews: "emits tenant (concat (map review_specs rvs)) (persist_reviews tenant ids rvs)"
proof (induction rvs)
  case (Cons rv rvs)
  show ?case
  proof (cases "ids (rv_PRNodeID rv)")
    case (Some i)
    show ?thesis
    proof (cases "rv_ReviewerLogin rv = []")
      case False
      let ?spec = "(ReviewSubmitted, rv_SourceID rv, rv_SubmittedAt rv, reviewPayload rv)"
      have "emits tenant ([?spec] @ concat (map review_specs rvs)) (persist_reviews tenant ids (rv # rvs))"
        unfolding persist_reviews.simps using Some False
        by (simp only: option.case if_False)
          (intro emits_bind_silent [where ys = "[?spec] @ concat (map review_specs rvs)"] emits_silent emits_bind
            emits_emit Cons.IH)
      with False show ?thesis by (simp add: review_specs_def [of rv])
    qed (use Some Cons.IH in \<open>simp add: review_specs_def\<close>)
  qed (simp add: emits_basic)
qed (simp add: emits_basic)

lemma emits_checks: "emits tenant (map check_spec crs) (persist_checks tenant crs)"
proof (induction crs)
  case (Cons cr crs)
  have "emits tenant ([check_spec cr] @ map check_spec crs) (persist_checks tenant (cr # crs))"
    unfolding persist_checks.simps check_spec_def [of cr]
    by (intro emits_bind_silent [where m = "upsertCheckRun tenant cr"] emits_silent emits_bind emits_emit Cons.IH)
  then show ?case by simp
qed (simp add: emits_basic)

lemma emits_comments: "emits tenant (map comment_spec cms) (persist_comments tenant cms)"
proof (induction cms)
  case (Cons cm cms)
  have "emits tenant ([comment_spec cm] @ map comment_spec cms) (persist_comments tenant (cm # cms))"
    unfolding persist_comments.simps comment_spec_def [of cm]
    by (intro emits_bind emits_emit Cons.IH)
  then show ?case by simp
qed (simp add: emits_basic)

lemma emits_persist: "emits tenant (canonical_events res) (persist tenant res)"
  unfolding persist_def canonical_events_def
  by (intro emits_bind emits_items emits_reviews emits_checks emits_comments)

lemma emits_deliver: "emits tenant (canonical_events res) (deliver tenant d e res)"
  unfolding deliver_def
  by (intro emits_bind_silent emits_silent emits_if emits_persist emits_basic)

section \<open>What an operation can fail with\<close>

definition fails_only :: "(tx_error \<Rightarrow> bool) \<Rightarrow> 'a tx \<Rightarrow> bool" where
  "fails_only P m \<longleftrightarrow> (\<forall>env s e s'. m env s = (Inl e, s') \<longrightarrow> P e)"

lemma fails_only_basic:
  "fails_only P (eff_return x)" "P e \<Longrightarrow> fails_only P (eff_fail e)" "fails_only P tx_fresh"
  "fails_only P (eff_ask f)" "fails_only P tx_nextval"
  by (simp_all add: fails_only_def tx_defs)

lemma fails_only_exec: "P DbError \<Longrightarrow> fails_only P (tx_exec f)"
  by (auto simp: fails_only_def tx_exec_def Let_def split: if_splits option.splits prod.splits)

lemma fails_only_bind:
  assumes "fails_only P m" "\<And>x. fails_only P (f x)"
  shows "fails_only P (eff_bind m f)"
  unfolding fails_only_def
proof (intro allI impI)
  fix env s e s' assume r: "eff_bind m f env s = (Inl e, s')"
  obtain y s1 where m: "m env s = (y, s1)" by fastforce
  show "P e"
  proof (cases y)
    case (Inl e')
    with r m assms(1) show ?thesis by (auto simp: eff_bind_def fails_only_def)
  next
    case (Inr x)
    with r m assms(2) [of x] show ?thesis by (auto simp: eff_bind_def fails_only_def)
  qed
qed

lemma fails_only_if:
  "(b \<Longrightarrow> fails_only P m) \<Longrightarrow> (\<not> b \<Longrightarrow> fails_only P m') \<Longrightarrow> fails_only P (if b then m else m')"
  by simp

lemma fails_only_option:
  "(\<And>x. o' = Some x \<Longrightarrow> fails_only P (f x)) \<Longrightarrow> (o' = None \<Longrightarrow> fails_only P m) \<Longrightarrow>
   fails_only P (case o' of None \<Rightarrow> m | Some x \<Rightarrow> f x)"
  by (cases o') simp_all

lemmas fails_only_intros = fails_only_basic fails_only_exec fails_only_bind fails_only_if fails_only_option

text \<open>Errors worth a retry: everything but a permanent one and a duplicate.\<close>

definition transient :: "tx_error \<Rightarrow> bool" where
  "transient e \<longleftrightarrow> e = DbError \<or> e = MarshalError"

lemma transient_simps [simp]: "transient DbError" "transient MarshalError" "\<not> transient Duplicate" "\<not> transient (Permanent m)"
  by (simp_all add: transient_def)

lemma transient_emit: "fails_only transient (emit p t sid occ pl)"
  unfolding emit_def enqueueOutbox_def by (intro fails_only_intros) simp_all

lemma transient_ops:
  "fails_only transient (markDelivery p d e)" "fails_only transient (upsertWorkItem p wi)"
  "fails_only transient (ensureWorkItem p wi)" "fails_only transient (insertReview p i j rv)"
  "fails_only transient (upsertCheckRun p cr)" "fails_only transient (resolveContributor p login)"
  unfolding markDelivery_def upsertWorkItem_def ensureWorkItem_def insertReview_def
    upsertCheckRun_def resolveContributor_def Let_def
  by (intro fails_only_intros; simp)+

lemma transient_items: "fails_only transient (persist_items p wis ids)"
  by (induction wis arbitrary: ids) (auto intro!: fails_only_intros transient_ops transient_emit)

lemma transient_checks: "fails_only transient (persist_checks p crs)"
  by (induction crs) (auto intro!: fails_only_intros transient_ops transient_emit)

lemma transient_comments: "fails_only transient (persist_comments p cms)"
  by (induction cms) (auto intro!: fails_only_intros transient_emit)

text \<open>The reviews find their pull request if its work item was among the items.\<close>

lemma transient_reviews:
  "list_all (\<lambda>rv. ids (rv_PRNodeID rv) \<noteq> None) rvs \<Longrightarrow> fails_only transient (persist_reviews p ids rvs)"
  by (induction rvs) (auto intro!: fails_only_intros transient_ops transient_emit)

lemma persist_items_ids:
  "persist_items p wis ids env s = (Inr ids', s') \<Longrightarrow> dom ids' = dom ids \<union> wi_NodeID ` set wis"
proof (induction wis arbitrary: ids s)
  case Nil
  then show ?case by (simp add: eff_return_def)
next
  case (Cons wi wis)
  from Cons.prems obtain i s1 s2 where "persist_items p wis (ids(wi_NodeID wi \<mapsto> i)) env s2 = (Inr ids', s')"
    unfolding persist_items.simps by (elim eff_bind_Inr) blast
  from Cons.IH [OF this] show ?case by auto
qed

lemma transient_persist:
  assumes "list_all (\<lambda>rv. rv_PRNodeID rv \<in> wi_NodeID ` set (rs_WorkItems res)) (rs_Reviews res)"
  shows "fails_only transient (persist p res)"
  unfolding fails_only_def
proof (intro allI impI)
  fix env s e s' assume run: "persist p res env s = (Inl e, s')"
  obtain y s1 where items: "persist_items p (rs_WorkItems res) Map.empty env s = (y, s1)" by fastforce
  show "transient e"
  proof (cases y)
    case (Inl e')
    with run items transient_items [of p "rs_WorkItems res" Map.empty] show ?thesis
      by (auto simp: persist_def eff_bind_def fails_only_def)
  next
    case (Inr ids)
    have "list_all (\<lambda>rv. ids (rv_PRNodeID rv) \<noteq> None) (rs_Reviews res)"
      using assms persist_items_ids [OF items [unfolded Inr]] by (auto simp: list_all_iff)
    then have "fails_only transient (eff_bind (persist_reviews p ids (rs_Reviews res)) (\<lambda>_.
        eff_bind (persist_checks p (rs_CheckRuns res)) (\<lambda>_. persist_comments p (rs_Comments res))))"
      by (intro fails_only_bind transient_reviews transient_checks transient_comments)
    moreover have "eff_bind (persist_reviews p ids (rs_Reviews res)) (\<lambda>_.
        eff_bind (persist_checks p (rs_CheckRuns res)) (\<lambda>_. persist_comments p (rs_Comments res))) env s1 = (Inl e, s')"
      using run items Inr by (simp add: persist_def eff_bind_def [of "persist_items p (rs_WorkItems res) Map.empty"])
    ultimately show ?thesis unfolding fails_only_def by blast
  qed
qed

lemma deliver_errors:
  assumes "list_all (\<lambda>rv. rv_PRNodeID rv \<in> wi_NodeID ` set (rs_WorkItems res)) (rs_Reviews res)"
  shows "fails_only (\<lambda>e. transient e \<or> e = Duplicate) (deliver p d ev res)"
proof -
  have weaken: "fails_only transient m \<Longrightarrow> fails_only (\<lambda>e. transient e \<or> e = Duplicate) m" for m :: "'x tx"
    by (auto simp: fails_only_def)
  show ?thesis unfolding deliver_def
    by (intro fails_only_bind fails_only_if fails_only_basic(2) weaken transient_ops transient_persist assms) simp
qed

end
