(* ===== verification/NormalizerProps.thy ===== *)
theory NormalizerProps
  imports NormalizerFacts
begin

text \<open>
  What \<open>process\<close> guarantees: a transaction per relevant message, applied as a whole or not at
  all, once per delivery, for one tenant only, with exactly the canonical events of the
  delivery staged beside the rows.
\<close>

section \<open>The shape of a run\<close>

abbreviation normalize_msg :: "tx_env \<Rightarrow> message \<Rightarrow> gh_error + result" where
  "normalize_msg env msg \<equiv> Normalize (raw_of env msg)"

abbreviation run :: "tx_env \<Rightarrow> bool \<Rightarrow> message \<Rightarrow> database \<Rightarrow> (gh_error proc_error + unit) \<times> database" where
  "run \<equiv> process Normalize"

definition delivery_of :: "message \<Rightarrow> string" where
  "delivery_of msg = hget (msg_Headers msg) HeaderGitHubDeliv"

definition event_of :: "message \<Rightarrow> string" where
  "event_of msg = hget (msg_Headers msg) HeaderGitHubEvent"

lemma raw_of_simps [simp]:
  "re_DeliveryID (raw_of env msg) = delivery_of msg" "re_EventType (raw_of env msg) = event_of msg"
  "re_Body (raw_of env msg) = msg_Value msg"
  by (simp_all add: raw_of_def delivery_of_def event_of_def)

text \<open>The connector does not look at the trace.\<close>

lemma normalize_msg_env: "normalize_msg env msg = normalize_msg env' msg"
  by (simp add: Normalize_def)

text \<open>The tenant a message belongs to, when it is processed at all.\<close>

definition target :: "message \<Rightarrow> database \<Rightarrow> (result \<times> string) option" where
  "target msg db =
     (case Normalize (raw_of undefined msg) of
        Inl _ \<Rightarrow> None
      | Inr res \<Rightarrow>
          if rs_Skip res \<or> result_empty res then None
          else map_option (Pair res) (db_installations db (rs_InstallationID res)))"

lemma target_Some:
  assumes "target msg db = Some (res, tenant)"
  shows "normalize_msg env msg = Inr res" "\<not> rs_Skip res" "\<not> result_empty res"
    "db_installations db (rs_InstallationID res) = Some tenant"
  using assms normalize_msg_env [of env msg undefined]
  by (auto simp: target_def split: sum.splits if_splits option.splits)

lemma run_target_None: "target msg db = None \<Longrightarrow> snd (run env fault msg db) = db"
  using normalize_msg_env [of env msg undefined]
  by (auto simp: target_def process_def Let_def ResolveTenant_def split: sum.splits if_splits resolve_error.splits)

abbreviation transaction :: "tx_env \<Rightarrow> message \<Rightarrow> result \<Rightarrow> string \<Rightarrow> database \<Rightarrow> (tx_error + unit) \<times> database" where
  "transaction env msg res tenant db \<equiv>
     WithTenant env tenant (deliver tenant (delivery_of msg) (event_of msg) res) db"

lemma run_target_Some:
  assumes "target msg db = Some (res, tenant)"
  shows "run env fault msg db =
     (if fault then (Inl ResolveError, db)
      else case transaction env msg res tenant db of
        (Inl e, db') \<Rightarrow> if e = Duplicate then (Inr (), db') else (Inl (TxError e), db')
      | (Inr _, db') \<Rightarrow> (Inr (), db'))"
  using target_Some [OF assms]
  by (auto simp: process_def Let_def ResolveTenant_def split: sum.splits)

text \<open>Every run leaves the database alone or is one transaction.\<close>

lemma run_cases:
  assumes "run env fault msg db = (r, db')"
  obtains (none) "db' = db"
    | (tx) res tenant r' where "target msg db = Some (res, tenant)" "transaction env msg res tenant db = (r', db')"
proof (cases "target msg db")
  case None
  with assms none show ?thesis using run_target_None by (metis snd_conv)
next
  case (Some rt)
  obtain res tenant where rt: "rt = (res, tenant)" by fastforce
  obtain r' db1 where t: "transaction env msg res tenant db = (r', db1)" by fastforce
  have "db' = db \<or> db' = db1"
    using assms run_target_Some [OF Some [unfolded rt], of env fault] t by (auto split: if_splits sum.splits)
  with none tx Some rt t show ?thesis by blast
qed

section \<open>Atomicity and isolation\<close>

definition calm :: "tx_env \<Rightarrow> bool" where
  "calm env \<longleftrightarrow> quiet env \<and> env_commit env \<noteq> CommitUnknown"

lemma frame_run:
  assumes "run env fault msg db = (r, db')" "quiet env" "\<And>t. R t t"
    "\<And>res tenant. target msg db = Some (res, tenant) \<Longrightarrow>
       frames tenant R (deliver tenant (delivery_of msg) (event_of msg) res)"
  shows "R (db_tabs db) (db_tabs db')"
  using assms(1)
proof (cases rule: run_cases)
  case none
  then show ?thesis by (simp add: assms(3))
next
  case (tx res tenant r')
  have "R t (env_rival env n t)" for n t using assms(2,3) by (simp add: quiet_def)
  with tx show ?thesis
    using WithTenant_frame [OF assms(4) [OF tx(1)] _ others_deliver assms(2) assms(3)] by blast
qed

text \<open>
  C13. \<open>process\<close> is atomic: when it returns an error, and the commit did not take effect behind
  the error, no table of the database has changed: not the delivery mark, not a row, not an
  outbox event.
\<close>

theorem process_atomic:
  assumes "process Normalize env fault msg db = (Inl e, db')" "quiet env" "env_commit env \<noteq> CommitUnknown"
  shows "db_tabs db' = db_tabs db"
  using assms(1)
proof (cases rule: run_cases)
  case (tx res tenant r')
  show ?thesis
  proof (cases r')
    case (Inl e')
    with tx assms(2,3) show ?thesis using WithTenant_atomic [OF others_deliver] by blast
  next
    case (Inr u)
    with tx(2) assms(1) run_target_Some [OF tx(1), of env fault] have "db' = db" by (auto split: if_splits)
    then show ?thesis by simp
  qed
qed simp

text \<open>A tenant's rows, table by table.\<close>

definition tenant_rows :: "string \<Rightarrow> tables \<Rightarrow> work_item_row list \<times> review_row list \<times> check_run_row list \<times>
    contributor_row list \<times> identity_row list \<times> delivery_row list \<times> outbox_row list \<times> capability_row list" where
  "tenant_rows tenant t =
     (filter (\<lambda>r. w_tenant r = tenant) (t_items t), filter (\<lambda>r. v_tenant r = tenant) (t_reviews t),
      filter (\<lambda>r. k_tenant r = tenant) (t_checks t), filter (\<lambda>r. c_tenant r = tenant) (t_contributors t),
      filter (\<lambda>r. i_tenant r = tenant) (t_links t), filter (\<lambda>r. d_tenant r = tenant) (t_deliveries t),
      filter (\<lambda>r. o_tenant r = tenant) (t_outbox t), filter (\<lambda>r. y_tenant r = tenant) (t_capabilities t))"

lemma filter_other:
  assumes "filter (\<lambda>x. f x \<noteq> tenant) ys = filter (\<lambda>x. f x \<noteq> tenant) xs" "tenant \<noteq> other"
  shows "filter (\<lambda>x. f x = other) ys = filter (\<lambda>x. f x = other) xs"
proof -
  have "filter (\<lambda>x. f x = other) zs = filter (\<lambda>x. f x = other) (filter (\<lambda>x. f x \<noteq> tenant) zs)" for zs
    using assms(2) by (induction zs) auto
  with assms(1) show ?thesis by metis
qed

lemma same_elsewhere_rows:
  "same_elsewhere tenant t t' \<Longrightarrow> tenant \<noteq> other \<Longrightarrow> tenant_rows other t' = tenant_rows other t"
  unfolding same_elsewhere_def tenant_rows_def prod.inject
  by (elim conjE, intro conjI; erule (1) filter_other)

text \<open>
  C8. Tenant isolation: processing a message changes no row of any tenant other than the one
  its installation resolves to, in any of the eight tables, whether it succeeds or fails.
\<close>

theorem process_isolated:
  assumes "process Normalize env fault msg db = (r, db')" "quiet env"
    "\<forall>res. target msg db \<noteq> Some (res, other)"
  shows "tenant_rows other (db_tabs db') = tenant_rows other (db_tabs db)"
proof (cases "target msg db")
  case None
  then have "db' = db" using run_target_None assms(1) by (metis snd_conv)
  then show ?thesis by simp
next
  case (Some rt)
  then obtain res tenant where t: "target msg db = Some (res, tenant)" by (cases rt) auto
  with assms(3) have ne: "tenant \<noteq> other" by blast
  have "same_elsewhere tenant (db_tabs db) (db_tabs db')"
    using assms(1,2) isolation.R_refl
    by (rule frame_run) (use t isolation.frame_deliver in auto)
  then show ?thesis using ne by (rule same_elsewhere_rows)
qed

text \<open>Processing any message, successfully or not, keeps the rows distinct on their conflict keys.\<close>

lemma run_keys_unique:
  assumes "run env fault msg db = (r, db')" "quiet env" "keys_unique (db_tabs db)"
  shows "keys_unique (db_tabs db')"
proof -
  have "keeps_keys (db_tabs db) (db_tabs db')"
    using assms(1,2) keys.R_refl by (rule frame_run) (rule keys.frame_deliver)
  with assms(3) show ?thesis by (simp add: keeps_keys_def)
qed

section \<open>Once per delivery\<close>

definition delivered :: "string \<Rightarrow> string \<Rightarrow> tables \<Rightarrow> bool" where
  "delivered tenant delivery t \<longleftrightarrow> find_row delivery_key (tenant, delivery) (t_deliveries t) \<noteq> None"

lemma tx_exec_quiet:
  "quiet env \<Longrightarrow> tx_exec f env s =
     (let s' = s\<lparr>tx_stmt := Suc (tx_stmt s)\<rparr> in
      if env_fails env (tx_stmt s) then (Inl DbError, s')
      else case f (env_tenant env) (tx_tabs s) of None \<Rightarrow> (Inl DbError, s')
        | Some (x, t) \<Rightarrow> (Inr x, s'\<lparr>tx_tabs := t\<rparr>))"
  by (simp add: tx_exec_def tx_step_def quiet_def Let_def)

lemma stmt_delivery_run:
  "stmt_delivery app d t = Some (n, t') \<Longrightarrow>
     (n = 1 \<longleftrightarrow> find_row delivery_key (delivery_key d) (t_deliveries t) = None) \<and>
     find_row delivery_key (delivery_key d) (t_deliveries t') \<noteq> None \<and> t_items t' = t_items t"
  by (auto simp: stmt_delivery_def Let_def insert_new_def find_row_None split: if_splits)

text \<open>A recorded delivery ends in \<open>errDuplicate\<close> or a database error, before any other write.\<close>

lemma deliver_seen:
  assumes "quiet env" "env_tenant env = tenant" "delivery \<noteq> []" "delivered tenant delivery (tx_tabs s)"
    "deliver tenant delivery event res env s = (r, s')"
  shows "r = Inl Duplicate \<or> r = Inl DbError"
  using assms
  by (auto simp: deliver_def markDelivery_def tx_defs tx_exec_quiet Let_def delivered_def
      split: if_splits option.splits dest!: stmt_delivery_run simp: delivery_key_def)

text \<open>A successful transaction leaves the mark.\<close>

lemma markDelivery_marks:
  assumes "quiet env" "markDelivery tenant delivery event env s = (Inr b, s')" "delivery \<noteq> []"
  shows "delivered tenant delivery (tx_tabs s')"
  using assms
  by (auto simp: markDelivery_def tx_defs tx_exec_quiet Let_def delivered_def
      split: if_splits option.splits dest!: stmt_delivery_run simp: delivery_key_def)

lemma delivered_grows: "grows t t' \<Longrightarrow> delivered tenant delivery t \<Longrightarrow> delivered tenant delivery t'"
  by (auto simp: grows_def extends_def delivered_def find_row_append split: option.splits)

lemma deliver_marks:
  assumes "quiet env" "env_tenant env = tenant" "deliver tenant delivery event res env s = (Inr u, s')" "delivery \<noteq> []"
  shows "delivered tenant delivery (tx_tabs s')"
proof -
  from assms(3) obtain b s1 where m: "markDelivery tenant delivery event env s = (Inr b, s1)"
    and p: "(if b then persist tenant res else eff_fail Duplicate) env s1 = (Inr u, s')"
    unfolding deliver_def by (rule eff_bind_Inr)
  then have "persist tenant res env s1 = (Inr u, s')" by (cases b) (simp_all add: eff_fail_def)
  with growth.frame_persist have "grows (tx_tabs s1) (tx_tabs s')"
    by (rule frames_run [OF _ _ assms(2)]) (use assms(1) growth.R_refl in \<open>simp add: quiet_def\<close>)
  with markDelivery_marks [OF assms(1) m assms(4)] show ?thesis by (rule delivered_grows [rotated])
qed

lemma quiet_tenant [simp]: "quiet (env\<lparr>env_tenant := tenant\<rparr>) = quiet env"
  by (simp add: quiet_def)

lemma transaction_seen:
  assumes "quiet env" "delivery_of msg \<noteq> []" "delivered tenant (delivery_of msg) (db_tabs db)"
    "transaction env msg res tenant db = (r, db')"
  shows "db_tabs db' = db_tabs db \<and> (r = Inl Duplicate \<or> r = Inl DbError)"
proof -
  let ?env = "env\<lparr>env_tenant := tenant\<rparr>"
  obtain r1 s where d: "deliver tenant (delivery_of msg) (event_of msg) res ?env (tx_begin env db) = (r1, s)"
    by fastforce
  have r1: "r1 = Inl Duplicate \<or> r1 = Inl DbError"
    by (rule deliver_seen [OF _ _ assms(2) _ d]) (use assms(1,3) in \<open>simp_all add: tx_begin_def\<close>)
  have "tx_others s = db_tabs db"
    using others_deliver d assms(1) unfolding keeps_others_def
    by (metis quiet_tenant snd_conv tx_begin_def tx_state.select_convs(2))
  with r1 d assms(4) show ?thesis by (auto simp: WithTenant_def split: if_splits)
qed

text \<open>Conversely, only a recorded delivery ends as a duplicate.\<close>

lemma target_reviews:
  "target msg db = Some (res, tenant) \<Longrightarrow>
   list_all (\<lambda>rv. rv_PRNodeID rv \<in> wi_NodeID ` set (rs_WorkItems res)) (rs_Reviews res)"
  using github.normalize_review_parent target_Some(1) by (fastforce simp: list_all_iff)

lemma deliver_duplicate:
  assumes "quiet env" "env_tenant env = tenant" "delivery \<noteq> []"
    "deliver tenant delivery event res env s = (Inl Duplicate, s')"
    "list_all (\<lambda>rv. rv_PRNodeID rv \<in> wi_NodeID ` set (rs_WorkItems res)) (rs_Reviews res)"
  shows "delivered tenant delivery (tx_tabs s)"
proof -
  obtain r1 s1 where m: "markDelivery tenant delivery event env s = (r1, s1)" by fastforce
  show ?thesis
  proof (cases r1)
    case (Inl e)
    with m assms(4) have "markDelivery tenant delivery event env s = (Inl Duplicate, s')"
      by (simp add: deliver_def eff_bind_def)
    with transient_ops(1) [of tenant delivery event] have "transient Duplicate"
      unfolding fails_only_def by blast
    then show ?thesis by simp
  next
    case (Inr fresh)
    show ?thesis
    proof (cases fresh)
      case True
      with m Inr assms(4) have "persist tenant res env s1 = (Inl Duplicate, s')"
        by (simp add: deliver_def eff_bind_def)
      with transient_persist [OF assms(5), of tenant] have "transient Duplicate"
        unfolding fails_only_def by blast
      then show ?thesis by simp
    next
      case False
      with m Inr assms(1-3) show ?thesis
        by (auto simp: markDelivery_def tx_defs tx_exec_quiet Let_def delivered_def
            split: if_splits option.splits dest!: stmt_delivery_run simp: delivery_key_def)
    qed
  qed
qed

lemma process_seen:
  assumes "target msg db = Some (res, tenant)" "delivery_of msg \<noteq> []"
    "delivered tenant (delivery_of msg) (db_tabs db)" "quiet env"
  shows "db_tabs (snd (run env fault msg db)) = db_tabs db \<and>
    fst (run env fault msg db) \<in> {Inr (), Inl ResolveError, Inl (TxError DbError)}"
proof -
  obtain r db' where t: "transaction env msg res tenant db = (r, db')" by fastforce
  from transaction_seen [OF assms(4,2,3) this]
  have "db_tabs db' = db_tabs db" "r = Inl Duplicate \<or> r = Inl DbError" by simp_all
  with t show ?thesis unfolding run_target_Some [OF assms(1), of env fault] by auto
qed

text \<open>
  A redelivery is a no-op: when the message's delivery id is already recorded for its
  tenant, \<open>process\<close> changes no table, and it returns success or, when the database fails
  on the way, an error to retry; it never writes, emits or dead-letters.
\<close>

theorem process_duplicate_noop:
  assumes "target msg db = Some (res, tenant)" "delivery_of msg \<noteq> []"
    "delivered tenant (delivery_of msg) (db_tabs db)" "quiet env"
  shows "db_tabs (snd (process Normalize env fault msg db)) = db_tabs db \<and>
    fst (process Normalize env fault msg db) \<in> {Inr (), Inl ResolveError, Inl (TxError DbError)}"
  using process_seen [OF assms] .

lemma WithTenant_installations: "db_installations (snd (WithTenant env tenant fn db)) = db_installations db"
  by (auto simp: WithTenant_def split: prod.split sum.split commit_outcome.split)

lemma run_installations: "db_installations (snd (run env fault msg db)) = db_installations db"
proof (cases "target msg db")
  case (Some rt)
  then obtain res tenant where t: "target msg db = Some (res, tenant)" by (cases rt) auto
  show ?thesis using WithTenant_installations [of env tenant "deliver tenant (delivery_of msg) (event_of msg) res" db]
    unfolding run_target_Some [OF t] by (auto split: prod.splits sum.splits)
qed (simp add: run_target_None)

lemma target_after: "target msg (snd (run env fault msg' db)) = target msg db"
  by (simp only: target_def run_installations)

text \<open>A successful run leaves the mark, or found it.\<close>

lemma run_records:
  assumes "run env fault msg db = (Inr (), db1)" "delivery_of msg \<noteq> []" "quiet env" "target msg db = Some (res, tenant)"
  shows "delivered tenant (delivery_of msg) (db_tabs db1)"
proof -
  obtain r db' where tr: "transaction env msg res tenant db = (r, db')" by fastforce
  have db1: "db1 = db'" and r: "r = Inr () \<or> r = Inl Duplicate"
    using assms(1) run_target_Some [OF assms(4), of env fault] tr by (auto split: if_splits sum.splits)
  show ?thesis
    using r
  proof
    assume "r = Inr ()"
    with tr db1 have "transaction env msg res tenant db = (Inr (), db1)" by simp
    then obtain s where "deliver tenant (delivery_of msg) (event_of msg) res (env\<lparr>env_tenant := tenant\<rparr>) (tx_begin env db) = (Inr (), s)"
      "db_tabs db1 = tx_tabs s" by (rule WithTenant_ok)
    with assms(2,3) show ?thesis using deliver_marks [of "env\<lparr>env_tenant := tenant\<rparr>"] by simp
  next
    assume dup: "r = Inl Duplicate"
    obtain r1 s where d: "deliver tenant (delivery_of msg) (event_of msg) res (env\<lparr>env_tenant := tenant\<rparr>) (tx_begin env db) = (r1, s)"
      by fastforce
    with tr dup have r1: "r1 = Inl Duplicate" and o: "db_tabs db' = tx_others s"
      by (auto simp: WithTenant_def split: if_splits sum.splits commit_outcome.splits)
    have "tx_others s = db_tabs db"
      using others_deliver d assms(3) unfolding keeps_others_def
      by (metis quiet_tenant snd_conv tx_begin_def tx_state.select_convs(2))
    moreover have "delivered tenant (delivery_of msg) (db_tabs db)"
      using deliver_duplicate [OF _ _ assms(2) d [unfolded r1]] assms(3) target_reviews [OF assms(4)] by (simp add: tx_begin_def)
    ultimately show ?thesis using db1 o by simp
  qed
qed

text \<open>Two messages of one delivery for one tenant: once the first is processed, the second changes nothing.\<close>

lemma same_delivery_once:
  assumes "run env fault msg db = (Inr (), db1)" "delivery_of msg \<noteq> []" "quiet env" "quiet env'"
    "delivery_of msg' = delivery_of msg" "map_option snd (target msg' db) = map_option snd (target msg db)"
  shows "db_tabs (snd (run env' fault' msg' db1)) = db_tabs db1"
proof -
  have t1: "target msg' db1 = target msg' db" using target_after [of msg' env fault msg db] assms(1) by simp
  show ?thesis
  proof (cases "target msg db")
    case None
    with assms(6) t1 have "target msg' db1 = None" by simp
    then show ?thesis using run_target_None by simp
  next
    case (Some rt)
    then obtain res tenant where t: "target msg db = Some (res, tenant)" by (cases rt) auto
    with assms(6) t1 obtain res' where t': "target msg' db1 = Some (res', tenant)" by auto
    have "delivered tenant (delivery_of msg') (db_tabs db1)"
      using run_records [OF assms(1,2,3) t] assms(5) by simp
    with process_seen [OF t' _ _ assms(4)] assms(2,5) show ?thesis by simp
  qed
qed

section \<open>The transactional outbox\<close>

text \<open>A transaction that commits extends the outbox by the events of its result.\<close>

lemma transaction_stages:
  assumes "transaction env msg res tenant db = (Inr (), db')" "quiet env"
  shows "\<exists>new. t_outbox (db_tabs db') = t_outbox (db_tabs db) @ new \<and>
    list_all2 (staged tenant) (canonical_events res) new \<and> fresh_rows env (db_seq db) (db_seq db') new"
  using assms(1)
proof (rule WithTenant_ok)
  fix s assume d: "deliver tenant (delivery_of msg) (event_of msg) res (env\<lparr>env_tenant := tenant\<rparr>) (tx_begin env db) = (Inr (), s)"
    and s: "db_tabs db' = tx_tabs s" "db_seq db' = tx_seq s"
  have "stages_events (env\<lparr>env_tenant := tenant\<rparr>) tenant (canonical_events res) (tx_begin env db) s"
    using emits_deliver d assms(2) unfolding emits_def by (metis quiet_tenant)
  with s show ?thesis by (auto simp: stages_events_def fresh_rows_def tx_begin_def)
qed

text \<open>Without a delivery id nothing is a duplicate, so every successful run commits.\<close>

lemma no_id_commits:
  assumes "run env fault msg db = (Inr (), db')" "delivery_of msg = []" "target msg db = Some (res, tenant)"
  shows "transaction env msg res tenant db = (Inr (), db')"
proof -
  obtain r db1 where tr: "transaction env msg res tenant db = (r, db1)" by fastforce
  obtain r1 s where d: "deliver tenant [] (event_of msg) res (env\<lparr>env_tenant := tenant\<rparr>) (tx_begin env db) = (r1, s)"
    by fastforce
  then have "persist tenant res (env\<lparr>env_tenant := tenant\<rparr>) (tx_begin env db) = (r1, s)"
    by (simp add: deliver_def markDelivery_def eff_defs)
  with transient_persist [OF target_reviews [OF assms(3)], of tenant] have "r1 \<noteq> Inl Duplicate"
    unfolding fails_only_def by (metis transient_simps(3))
  with tr d assms(2) have "r \<noteq> Inl Duplicate"
    by (auto simp: WithTenant_def split: if_splits sum.splits commit_outcome.splits)
  with assms(1) tr show ?thesis unfolding run_target_Some [OF assms(3), of env fault]
    by (auto split: if_splits sum.splits)
qed

text \<open>
  C3. Effectively once, for messages with a delivery id: after a run of \<open>process\<close> that returned
  success, however it was reached, running the same message again, under any faults, clock, ids
  and commit outcome, leaves every table as the first run left it. A message without a delivery
  id has no such protection: every run of it that succeeds and has a tenant to write to stages
  all its events once more.
\<close>

theorem process_once:
  assumes "process Normalize env fault msg db = (Inr (), db1)" "quiet env" "quiet env'"
  shows "(delivery_of msg \<noteq> [] \<longrightarrow> db_tabs (snd (process Normalize env' fault' msg db1)) = db_tabs db1) \<and>
    (delivery_of msg = [] \<longrightarrow> target msg db = Some (res, tenant) \<longrightarrow> process Normalize env' fault' msg db1 = (Inr (), db2) \<longrightarrow>
       (\<exists>new new'. t_outbox (db_tabs db2) = t_outbox (db_tabs db) @ new @ new' \<and>
          list_all2 (staged tenant) (canonical_events res) new \<and> list_all2 (staged tenant) (canonical_events res) new'))"
proof (intro conjI impI)
  assume "delivery_of msg \<noteq> []"
  from same_delivery_once [OF assms(1) this assms(2,3) refl refl]
  show "db_tabs (snd (process Normalize env' fault' msg db1)) = db_tabs db1" .
next
  assume no_id: "delivery_of msg = []" and t: "target msg db = Some (res, tenant)"
    and again: "process Normalize env' fault' msg db1 = (Inr (), db2)"
  have t1: "target msg db1 = Some (res, tenant)" using target_after [of msg env fault msg db] assms(1) t by simp
  from transaction_stages [OF no_id_commits [OF assms(1) no_id t] assms(2)]
    transaction_stages [OF no_id_commits [OF again no_id t1] assms(3)]
  obtain new new' where "t_outbox (db_tabs db1) = t_outbox (db_tabs db) @ new" "list_all2 (staged tenant) (canonical_events res) new"
    "t_outbox (db_tabs db2) = t_outbox (db_tabs db1) @ new'" "list_all2 (staged tenant) (canonical_events res) new'" by blast
  then show "\<exists>new new'. t_outbox (db_tabs db2) = t_outbox (db_tabs db) @ new @ new' \<and>
      list_all2 (staged tenant) (canonical_events res) new \<and> list_all2 (staged tenant) (canonical_events res) new'" by (intro exI [of _ new] exI [of _ new']) simp
qed

text \<open>
  C7. No write without its events, and no event without its write (ADR-012): if a successful
  \<open>process\<close> changed any table, the outbox was extended at its end by exactly the canonical
  events of the normalized result, in order, one row per event, unpublished, keyed by the
  tenant, with increasing ids from the sequence, each payload the JSON of its event under the
  row's event id.
\<close>

theorem process_stages_events:
  assumes "process Normalize env fault msg db = (Inr (), db')" "quiet env" "db_tabs db' \<noteq> db_tabs db"
  shows "\<exists>res tenant new. target msg db = Some (res, tenant) \<and>
    t_outbox (db_tabs db') = t_outbox (db_tabs db) @ new \<and>
    list_all2 (staged tenant) (canonical_events res) new \<and>
    fresh_rows env (db_seq db) (db_seq db') new"
  using assms(1)
proof (cases rule: run_cases)
  case none
  with assms(3) show ?thesis by simp
next
  case (tx res tenant r')
  have "r' \<noteq> Inl Duplicate \<Longrightarrow> r' = Inr ()"
    using tx assms(1,3) run_target_Some [OF tx(1), of env fault] by (cases r') (auto split: if_splits)
  moreover have "r' \<noteq> Inl Duplicate"
  proof
    assume "r' = Inl Duplicate"
    with tx(2) have "db_tabs db' = db_tabs db"
      using WithTenant_rollback [OF others_deliver assms(2), of tenant _ _ _ _ db Duplicate db'] by simp
    with assms(3) show False by simp
  qed
  ultimately have "transaction env msg res tenant db = (Inr (), db')" using tx(2) by simp
  from transaction_stages [OF this assms(2)] tx(1) show ?thesis by blast
qed

section \<open>Errors\<close>

lemma permanent_iff:
  "(case fst (process Normalize env fault msg db) of Inl e \<Rightarrow> isPermanent e | Inr _ \<Rightarrow> False) =
   (case normalize_msg env msg of Inl _ \<Rightarrow> True | Inr _ \<Rightarrow> False)"
proof (cases "target msg db")
  case None
  then show ?thesis using normalize_msg_env [of env msg undefined]
    by (auto simp: target_def process_def Let_def ResolveTenant_def isPermanent_def
        split: sum.splits if_splits resolve_error.splits)
next
  case (Some rt)
  then obtain res tenant where t: "target msg db = Some (res, tenant)" by (cases rt) auto
  obtain r db' where tr: "transaction env msg res tenant db = (r, db')" by fastforce
  have "r \<noteq> Inl (Permanent m)" for m
  proof
    assume r: "r = Inl (Permanent m)"
    obtain r1 s where d: "deliver tenant (delivery_of msg) (event_of msg) res (env\<lparr>env_tenant := tenant\<rparr>) (tx_begin env db) = (r1, s)"
      by fastforce
    with tr r have "r1 = Inl (Permanent m)"
      by (auto simp: WithTenant_def split: if_splits sum.splits commit_outcome.splits)
    with d deliver_errors [OF target_reviews [OF t], of tenant "delivery_of msg" "event_of msg"]
    have "transient (Permanent m) \<or> Permanent m = Duplicate" unfolding fails_only_def by blast
    then show False by simp
  qed
  with tr have "\<not> (case fst (run env fault msg db) of Inl e \<Rightarrow> isPermanent e | Inr _ \<Rightarrow> False)"
    unfolding run_target_Some [OF t, of env fault]
    by (auto simp: isPermanent_def split: sum.split tx_error.splits)
  with target_Some(1) [OF t, of env] show ?thesis by simp
qed

text \<open>
  C22. What is dead-lettered: \<open>process\<close> returns a permanent error exactly when \<open>Normalize\<close>
  rejects the message; the permanent error \<open>persist\<close> has for a review whose pull request
  is not in the delivery never occurs, because the connector always sends both.
\<close>

theorem process_permanent_iff:
  "(case fst (process Normalize env fault msg db) of Inl e \<Rightarrow> isPermanent e | Inr _ \<Rightarrow> False) =
   (case normalize_msg env msg of Inl _ \<Rightarrow> True | Inr _ \<Rightarrow> False)"
  by (rule permanent_iff)

section \<open>Sample runs\<close>

definition no_tables :: tables where
  "no_tables = \<lparr>t_items = [], t_reviews = [], t_checks = [], t_contributors = [], t_links = [],
     t_deliveries = [], t_outbox = [], t_capabilities = []\<rparr>"

definition acme :: string where
  "acme = ''00000000-0000-4000-8000-00000000acbe''"

definition sample_db :: database where
  "sample_db = \<lparr>db_tabs = no_tables, db_seq = 1, db_installations = [42424242 \<mapsto> acme]\<rparr>"

definition sample_env :: "(nat \<Rightarrow> bool) \<Rightarrow> tx_env" where
  "sample_env fails =
     \<lparr>env_tenant = [], env_now = zero_time, env_fails = fails, env_rival = (\<lambda>n t. t),
      env_uuid = (\<lambda>n. ''00000000-0000-4000-8000-00000000000'' @ show_int (int n)),
      env_commit = CommitOk, env_traceid = [], env_traceparent = []\<rparr>"

definition sample_msg :: "string \<Rightarrow> bytes \<Rightarrow> message" where
  "sample_msg event body =
     \<lparr>msg_Key = ''d-1'', msg_Value = body,
      msg_Headers = [HeaderGitHubEvent \<mapsto> event, HeaderGitHubDeliv \<mapsto> ''d-1'']\<rparr>"

definition never :: "nat \<Rightarrow> bool" where
  "never n = False"

definition fails_at :: "nat \<Rightarrow> nat \<Rightarrow> bool" where
  "fails_at k n \<longleftrightarrow> n = k"

lemma sample_quiet [simp]: "quiet (sample_env f)" "env_commit (sample_env f) \<noteq> CommitUnknown"
  by (simp_all add: quiet_def sample_env_def)

abbreviation pr_run :: "(nat \<Rightarrow> bool) \<Rightarrow> (gh_error proc_error + unit) \<times> database" where
  "pr_run fails \<equiv> process Normalize (sample_env fails) False (sample_msg ''pull_request'' sample_pr) sample_db"

text \<open>The sample pull request is processed: one work item, one event, one delivery mark.\<close>

lemma pr_run_ok:
  "(case pr_run never of (r, db') \<Rightarrow> is_ok r \<and> length (t_items (db_tabs db')) = 1 \<and>
     length (t_outbox (db_tabs db')) = 1 \<and> length (t_deliveries (db_tabs db')) = 1)"
  by code_simp

lemma pr_run_never:
  obtains db' where "pr_run never = (Inr (), db')" "length (t_items (db_tabs db')) = 1"
    "length (t_outbox (db_tabs db')) = 1" "length (t_deliveries (db_tabs db')) = 1"
  using pr_run_ok by (cases "pr_run never"; cases "fst (pr_run never)") (auto simp: is_ok_def)

lemma sample_delivery [simp]: "delivery_of (sample_msg event body) = ''d-1''" "event_of (sample_msg event body) = event"
  by (simp_all add: delivery_of_def event_of_def sample_msg_def hget_def header_names)

lemma sample_target:
  assumes "db_installations db = [42424242 \<mapsto> acme]"
  obtains res where "target (sample_msg ''pull_request'' sample_pr) db = Some (res, acme)"
proof -
  have "(case Normalize (raw_of (sample_env never) (sample_msg ''pull_request'' sample_pr)) of Inl _ \<Rightarrow> False
    | Inr r \<Rightarrow> \<not> rs_Skip r \<and> \<not> result_empty r \<and> rs_InstallationID r = 42424242)" by code_simp
  then obtain r where "normalize_msg (sample_env never) (sample_msg ''pull_request'' sample_pr) = Inr r"
    "\<not> rs_Skip r" "\<not> result_empty r" "rs_InstallationID r = 42424242" by (auto split: sum.splits)
  with that [of r] show ?thesis
    using normalize_msg_env [of "sample_env never" "sample_msg ''pull_request'' sample_pr" undefined] assms
    by (simp add: target_def)
qed

text \<open>A comment in a message without a delivery id, processed twice.\<close>

definition no_id_msg :: message where
  "no_id_msg = \<lparr>msg_Key = [], msg_Value = sample_issue_comment, msg_Headers = [HeaderGitHubEvent \<mapsto> ''issue_comment'']\<rparr>"

definition other_db :: database where
  "other_db = sample_db\<lparr>db_installations := [42 \<mapsto> acme]\<rparr>"

abbreviation no_id_run :: "database \<Rightarrow> (gh_error proc_error + unit) \<times> database" where
  "no_id_run \<equiv> process Normalize (sample_env never) False no_id_msg"

lemma no_id_twice:
  obtains db1 db2 where "no_id_run other_db = (Inr (), db1)" "no_id_run db1 = (Inr (), db2)"
proof -
  have ok: "(case no_id_run other_db of (r, db1) \<Rightarrow> is_ok r \<and> is_ok (fst (no_id_run db1)))" by code_simp
  obtain r db1 r2 db2 where r: "no_id_run other_db = (r, db1)" "no_id_run db1 = (r2, db2)" by (metis surj_pair)
  with ok have "r = Inr ()" "r2 = Inr ()" by (auto simp: is_ok_def split: sum.splits)
  with r that show thesis by simp
qed

lemma no_id_target:
  obtains res where "target no_id_msg other_db = Some (res, acme)" "canonical_events res \<noteq> []"
proof -
  have "(case Normalize (raw_of (sample_env never) no_id_msg) of Inl _ \<Rightarrow> False
    | Inr r \<Rightarrow> \<not> rs_Skip r \<and> \<not> result_empty r \<and> rs_InstallationID r = 42 \<and> canonical_events r \<noteq> [])" by code_simp
  then obtain r where "normalize_msg (sample_env never) no_id_msg = Inr r"
    "\<not> rs_Skip r" "\<not> result_empty r" "rs_InstallationID r = 42" "canonical_events r \<noteq> []" by (auto split: sum.splits)
  with that [of r] show ?thesis
    using normalize_msg_env [of "sample_env never" no_id_msg undefined] by (simp add: target_def other_db_def)
qed

theorem process_atomic_witness:
  "\<exists>e db'. pr_run (fails_at 4) = (Inl e, db') \<and> db_tabs db' = db_tabs sample_db"
proof -
  have "\<not> is_ok (fst (pr_run (fails_at 4)))" by code_simp
  then obtain e db' where r: "pr_run (fails_at 4) = (Inl e, db')"
    by (cases "pr_run (fails_at 4)"; cases "fst (pr_run (fails_at 4))") (auto simp: is_ok_def)
  from process_atomic [OF r sample_quiet] have "db_tabs db' = db_tabs sample_db" .
  with r show ?thesis by blast
qed

theorem process_isolated_witness:
  "\<exists>db'. pr_run never = (Inr (), db') \<and> length (t_items (db_tabs db')) = 1 \<and>
     tenant_rows ''other'' (db_tabs db') = tenant_rows ''other'' (db_tabs sample_db)"
proof (rule pr_run_never)
  fix db' assume r: "pr_run never = (Inr (), db')" "length (t_items (db_tabs db')) = 1"
  obtain res where "target (sample_msg ''pull_request'' sample_pr) sample_db = Some (res, acme)"
    by (rule sample_target [of sample_db]) (simp_all add: sample_db_def)
  then have "\<forall>res. target (sample_msg ''pull_request'' sample_pr) sample_db \<noteq> Some (res, ''other'')"
    by (simp add: acme_def)
  from process_isolated [OF r(1) sample_quiet(1) this] r show ?thesis by blast
qed

theorem process_duplicate_noop_witness:
  "\<exists>db. length (t_deliveries (db_tabs db)) = 1 \<and>
     db_tabs (snd (process Normalize (sample_env never) False (sample_msg ''pull_request'' sample_pr) db)) = db_tabs db"
proof -
  define db where "db = sample_db\<lparr>db_tabs := no_tables\<lparr>t_deliveries :=
    [\<lparr>d_tenant = acme, d_delivery = ''d-1'', d_event = ''pull_request''\<rparr>]\<rparr>\<rparr>"
  have "db_installations db = [42424242 \<mapsto> acme]" by (simp add: db_def sample_db_def)
  then obtain res where t: "target (sample_msg ''pull_request'' sample_pr) db = Some (res, acme)" by (rule sample_target)
  have "delivered acme (delivery_of (sample_msg ''pull_request'' sample_pr)) (db_tabs db)"
    by (simp add: delivered_def db_def find_row_Cons delivery_key_def no_tables_def)
  from process_duplicate_noop [OF t _ this sample_quiet(1)] show ?thesis
    by (intro exI [of _ db] conjI) (simp_all add: db_def)
qed

theorem process_once_witness:
  "(\<exists>db1. pr_run never = (Inr (), db1) \<and> length (t_items (db_tabs db1)) = 1 \<and>
     db_tabs (snd (process Normalize (sample_env (fails_at 5)) False (sample_msg ''pull_request'' sample_pr) db1)) = db_tabs db1) \<and>
   (\<exists>db1 db2. no_id_run other_db = (Inr (), db1) \<and> no_id_run db1 = (Inr (), db2) \<and> 2 \<le> length (t_outbox (db_tabs db2)))"
proof
  show "\<exists>db1. pr_run never = (Inr (), db1) \<and> length (t_items (db_tabs db1)) = 1 \<and>
     db_tabs (snd (process Normalize (sample_env (fails_at 5)) False (sample_msg ''pull_request'' sample_pr) db1)) = db_tabs db1"
  proof (rule pr_run_never)
    fix db1 assume r: "pr_run never = (Inr (), db1)" "length (t_items (db_tabs db1)) = 1"
    from process_once [OF r(1) sample_quiet(1) sample_quiet(1), THEN conjunct1] r show ?thesis by auto
  qed
  obtain db1 db2 where r: "no_id_run other_db = (Inr (), db1)" "no_id_run db1 = (Inr (), db2)" by (rule no_id_twice)
  obtain res where t: "target no_id_msg other_db = Some (res, acme)" "canonical_events res \<noteq> []" by (rule no_id_target)
  have "delivery_of no_id_msg = []" by (simp add: no_id_msg_def delivery_of_def hget_def header_names)
  with process_once [OF r(1) sample_quiet(1) sample_quiet(1), THEN conjunct2] r(2) t(1) obtain new new' where
    "t_outbox (db_tabs db2) = t_outbox (db_tabs other_db) @ new @ new'" "list_all2 (staged acme) (canonical_events res) new"
    "list_all2 (staged acme) (canonical_events res) new'" by blast
  with t(2) have "2 \<le> length (t_outbox (db_tabs db2))"
    by (cases "canonical_events res") (auto simp: list_all2_Cons1)
  with r show "\<exists>db1 db2. no_id_run other_db = (Inr (), db1) \<and> no_id_run db1 = (Inr (), db2) \<and>
    2 \<le> length (t_outbox (db_tabs db2))" by blast
qed

theorem process_stages_events_witness:
  "\<exists>db' new. pr_run never = (Inr (), db') \<and> t_outbox (db_tabs db') = t_outbox (db_tabs sample_db) @ new \<and> length new = 1"
proof (rule pr_run_never)
  fix db' assume r: "pr_run never = (Inr (), db')" "length (t_items (db_tabs db')) = 1" "length (t_outbox (db_tabs db')) = 1"
  then have "db_tabs db' \<noteq> db_tabs sample_db" by (auto simp: sample_db_def no_tables_def)
  from process_stages_events [OF r(1) sample_quiet(1) this]
  obtain new where n: "t_outbox (db_tabs db') = t_outbox (db_tabs sample_db) @ new" by (elim exE conjE)
  moreover have "t_outbox (db_tabs sample_db) = []" by (simp add: sample_db_def no_tables_def)
  ultimately have "length new = 1" using r(3) by simp
  with r(1) n show ?thesis by blast
qed

end
