(* ===== verification/ApiClient.thy ===== *)
theory ApiClient
  imports AppAuth Connector
begin

text \<open>
  The GitHub client (libs/go/githubapp: client.go, graphql.go): every call reserves budget,
  takes a token, sends one request and feeds the answer's quota back. A \<open>FileChange\<close> of this
  package has the fields and JSON tags of the connector's, whose record it shares.
\<close>

section \<open>client.go\<close>

definition api_reserve :: "resource \<Rightarrow> int \<Rightarrow> int \<Rightarrow> (int \<times> bool) api" where
  "api_reserve r i cost env s =
     (case reserve_for (ae_now env (as_clock s)) i r cost (as_budgets s) of
        (res, reg) \<Rightarrow> (Inr res, s\<lparr>as_clock := Suc (as_clock s), as_budgets := reg\<rparr>))"

definition api_observe :: "int \<Rightarrow> (budget \<Rightarrow> budget) \<Rightarrow> unit api" where
  "api_observe i f env s =
     (Inr (), s\<lparr>as_budgets := (as_budgets s)(i \<mapsto> f (budget_for (as_budgets s) i))\<rparr>)"

definition gated :: "resource \<Rightarrow> int \<Rightarrow> int \<Rightarrow> 'a api \<Rightarrow> 'a api" where
  "gated r i cost m =
     eff_bind (api_reserve r i cost) (\<lambda>(wait, ok).
     if \<not> ok then eff_fail (RateLimitedError r wait) else m)"

definition token_headers :: "install_token \<Rightarrow> headers \<Rightarrow> headers" where
  "token_headers tok h =
     h(''Authorization'' \<mapsto> ''token '' @ it_Token tok, ''Accept'' \<mapsto> ''application/vnd.github+json'')"

definition Do :: "int \<Rightarrow> http_request \<Rightarrow> int \<Rightarrow> http_response api" where
  "Do i rq cost =
     gated REST i cost
       (eff_bind (Token i) (\<lambda>tok.
        eff_bind (api_send (rq\<lparr>hq_header := (token_headers tok (hq_header rq))(''X-GitHub-Api-Version'' \<mapsto> ''2022-11-28'')\<rparr>)) (\<lambda>resp.
        eff_bind (api_observe i (Observe (hr_get resp))) (\<lambda>_. eff_return resp))))"

definition api_get :: "int \<Rightarrow> string \<Rightarrow> http_response api" where
  "api_get i path =
     eff_bind (eff_ask ae_base) (\<lambda>base.
     eff_bind (api_request ''GET'' (base @ path) Map.empty []) (\<lambda>rq. Do i rq 1))"

text \<open>The body of a response with the wanted status, read up to a limit, and its decoding.\<close>

definition api_body :: "int \<Rightarrow> http_response \<Rightarrow> bytes api" where
  "api_body n resp =
     (if hr_status resp \<noteq> 200 then eff_fail (StatusError (hr_status resp) (limited n (hr_body resp)))
      else eff_return (limited n (hr_body resp)))"

definition api_decode :: "'a dec \<Rightarrow> 'a \<Rightarrow> bytes \<Rightarrow> 'a api" where
  "api_decode d zero body =
     (case unmarshal d zero body of None \<Rightarrow> eff_fail DecodeError | Some x \<Rightarrow> eff_return x)"

record repo_info =
  ir_FullName :: string
  ir_Private :: bool

definition zero_repo_info :: repo_info where
  "zero_repo_info = \<lparr>ir_FullName = [], ir_Private = False\<rparr>"

definition repo_info_fields :: "repo_info fields" where
  "repo_info_fields =
     [fld ''full_name'' ir_FullName ir_FullName_update dec_string,
      fld ''private'' ir_Private ir_Private_update dec_bool]"

definition ListInstallationRepos :: "int \<Rightarrow> repo_info list api" where
  "ListInstallationRepos i =
     eff_bind (api_get i ''/installation/repositories?per_page=100'') (\<lambda>resp.
     eff_bind (api_body (4 * mib) resp) (\<lambda>body.
     eff_bind (api_decode
         (only_field ''repositories'' (dec_slice zero_repo_info (dec_struct repo_info_fields)))
         None body) (\<lambda>out.
     eff_return (elems out))))"

definition hasAny :: "int \<Rightarrow> string \<Rightarrow> bool api" where
  "hasAny i path =
     eff_bind (api_get i path) (\<lambda>resp.
     eff_bind (api_body mib resp) (\<lambda>body.
     eff_bind (api_decode (dec_slice None dec_raw) None body) (\<lambda>items.
     eff_return (length (elems items) > 0))))"

record capabilities =
  cap_Deployments :: bool
  cap_Releases :: bool

definition DetectRepoCapabilities :: "int \<Rightarrow> string \<Rightarrow> capabilities api" where
  "DetectRepoCapabilities i repo =
     eff_bind (hasAny i (''/repos/'' @ repo @ ''/deployments?per_page=1'')) (\<lambda>deployments.
     eff_bind (hasAny i (''/repos/'' @ repo @ ''/releases?per_page=1'')) (\<lambda>releases.
     eff_return \<lparr>cap_Deployments = deployments, cap_Releases = releases\<rparr>))"

section \<open>graphql.go\<close>

record graphql_envelope =
  ge_Data :: "json option"
  ge_Errors :: "string slice"

definition zero_graphql_envelope :: graphql_envelope where
  "zero_graphql_envelope = \<lparr>ge_Data = None, ge_Errors = None\<rparr>"

definition graphql_envelope_fields :: "graphql_envelope fields" where
  "graphql_envelope_fields =
     [fld ''data'' ge_Data ge_Data_update dec_raw,
      fld ''errors'' ge_Errors ge_Errors_update
        (dec_slice [] (only_field ''message'' dec_string))]"

text \<open>\<open>json.Unmarshal\<close> of a raw message; the empty one is no document.\<close>

definition unmarshal_raw :: "'a dec \<Rightarrow> 'a \<Rightarrow> json option \<Rightarrow> 'a option" where
  "unmarshal_raw d zero r = (case r of None \<Rightarrow> None | Some j \<Rightarrow> d j zero)"

record rate_block =
  rt_Remaining :: int
  rt_ResetAt :: gtime

definition zero_rate_block :: rate_block where
  "zero_rate_block = \<lparr>rt_Remaining = 0, rt_ResetAt = zero_time\<rparr>"

definition rate_block_fields :: "rate_block fields" where
  "rate_block_fields =
     [fld ''remaining'' rt_Remaining rt_Remaining_update dec_int,
      fld ''resetAt'' rt_ResetAt rt_ResetAt_update dec_time]"

definition observeGraphQLRate :: "json option \<Rightarrow> budget \<Rightarrow> budget" where
  "observeGraphQLRate data b =
     (case unmarshal_raw
             (only_field ''rateLimit'' (dec_ptr zero_rate_block (dec_struct rate_block_fields)))
             None data of
        Some (Some rl) \<Rightarrow> ObserveGraphQL (rt_Remaining rl) (rt_ResetAt rl) b
      | _ \<Rightarrow> b)"

definition graphql_body :: "string \<Rightarrow> (string \<times> json) list \<Rightarrow> bytes" where
  "graphql_body query vars = json_print (enc_map [(''query'', enc_string query), (''variables'', enc_map vars)])"

definition GraphQL :: "int \<Rightarrow> string \<Rightarrow> (string \<times> json) list \<Rightarrow> int \<Rightarrow> json option api" where
  "GraphQL i query vars estCost =
     gated GraphQLPool i estCost
       (eff_bind (Token i) (\<lambda>tok.
        eff_bind (eff_ask ae_base) (\<lambda>base.
        eff_bind (api_request ''POST'' (base @ ''/graphql'')
            ((token_headers tok Map.empty)(''Content-Type'' \<mapsto> ''application/json'')) (graphql_body query vars)) (\<lambda>rq.
        eff_bind (api_send rq) (\<lambda>resp.
        eff_bind (api_body (16 * mib) resp) (\<lambda>body.
        eff_bind (api_decode (dec_struct graphql_envelope_fields) zero_graphql_envelope body) (\<lambda>reply.
        if length (elems (ge_Errors reply)) > 0 then eff_fail (GraphQLError (elems (ge_Errors reply)))
        else
          eff_bind (api_observe i (observeGraphQLRate (ge_Data reply))) (\<lambda>_. eff_return (ge_Data reply)))))))))"

text \<open>\<open>PullRequestEnrichment\<close> and its JSON.\<close>

record enrichment =
  pe_Additions :: int
  pe_Deletions :: int
  pe_ChangedFiles :: int
  pe_CommitOIDs :: "string slice"
  pe_Files :: "file_change slice"

definition enc_enrichment :: "enrichment \<Rightarrow> json" where
  "enc_enrichment e =
     enc_members
       [(''additions'', enc_int (pe_Additions e)), (''deletions'', enc_int (pe_Deletions e)),
        (''changed_files'', enc_int (pe_ChangedFiles e)),
        (''commit_oids'', enc_slice enc_string (pe_CommitOIDs e)),
        (''files'', enc_slice enc_file (pe_Files e))]"

text \<open>
  The answer's \<open>repository.pullRequest\<close>: a struct of one field is modelled as that field, so
  \<open>commits.nodes\<close> are the object ids.
\<close>

record pr_detail =
  pd_Additions :: int
  pd_Deletions :: int
  pd_ChangedFiles :: int
  pd_Commits :: "string slice"
  pd_Files :: "file_change slice"

definition zero_pr_detail :: pr_detail where
  "zero_pr_detail = \<lparr>pd_Additions = 0, pd_Deletions = 0, pd_ChangedFiles = 0, pd_Commits = None, pd_Files = None\<rparr>"

definition pr_detail_fields :: "pr_detail fields" where
  "pr_detail_fields =
     [fld ''additions'' pd_Additions pd_Additions_update dec_int,
      fld ''deletions'' pd_Deletions pd_Deletions_update dec_int,
      fld ''changedFiles'' pd_ChangedFiles pd_ChangedFiles_update dec_int,
      fld ''commits'' pd_Commits pd_Commits_update
        (only_field ''nodes'' (dec_slice [] (only_field ''commit'' (only_field ''oid'' dec_string)))),
      fld ''files'' pd_Files pd_Files_update (only_field ''nodes'' (dec_slice zero_file (dec_struct file_fields)))]"

definition dec_pr_detail :: "pr_detail dec" where
  "dec_pr_detail = only_field ''repository'' (only_field ''pullRequest'' (dec_struct pr_detail_fields))"

definition newline :: char where
  "newline = char_of (10::nat)"

definition prEnrichQuery :: string where
  "prEnrichQuery =
     ''query($owner:String!,$name:String!,$number:Int!){'' @ [newline] @
     ''  repository(owner:$owner,name:$name){'' @ [newline] @
     ''    pullRequest(number:$number){'' @ [newline] @
     ''      additions deletions changedFiles'' @ [newline] @
     ''      commits(first:100){nodes{commit{oid}}}'' @ [newline] @
     ''      files(first:100){nodes{path additions deletions}}'' @ [newline] @
     ''    }'' @ [newline] @
     ''  }'' @ [newline] @
     ''  rateLimit{cost remaining resetAt}'' @ [newline] @
     ''}''"

definition splitRepo :: "string \<Rightarrow> string \<times> string \<times> bool" where
  "splitRepo repo =
     (case cut repo (CHR ''/'') of
        (owner, name, ok) \<Rightarrow> if \<not> ok \<or> owner = [] \<or> name = [] then ([], [], False) else (owner, name, True))"

text \<open>\<open>append\<close> to the nil slice: no object id leaves it nil.\<close>

definition enrichment_of :: "pr_detail \<Rightarrow> enrichment" where
  "enrichment_of pr =
     (let oids = filter (\<lambda>oid. oid \<noteq> []) (elems (pd_Commits pr)) in
      \<lparr>pe_Additions = pd_Additions pr, pe_Deletions = pd_Deletions pr, pe_ChangedFiles = pd_ChangedFiles pr,
       pe_CommitOIDs = (if oids = [] then None else Some oids), pe_Files = pd_Files pr\<rparr>)"

definition EnrichPullRequest :: "int \<Rightarrow> string \<Rightarrow> int \<Rightarrow> enrichment api" where
  "EnrichPullRequest i repo number =
     (case splitRepo repo of
        (owner, name, ok) \<Rightarrow>
          if \<not> ok then eff_fail (BadRepo repo)
          else
            eff_bind (GraphQL i prEnrichQuery
                [(''owner'', enc_string owner), (''name'', enc_string name), (''number'', enc_int number)] 1) (\<lambda>data.
            case unmarshal_raw dec_pr_detail zero_pr_detail data of
              None \<Rightarrow> eff_fail DecodeError
            | Some pr \<Rightarrow> eff_return (enrichment_of pr)))"

record pr_file =
  pf_Filename :: string
  pf_Additions :: int
  pf_Deletions :: int
  pf_Patch :: string

definition zero_pr_file :: pr_file where
  "zero_pr_file = \<lparr>pf_Filename = [], pf_Additions = 0, pf_Deletions = 0, pf_Patch = []\<rparr>"

definition pr_file_fields :: "pr_file fields" where
  "pr_file_fields =
     [fld ''filename'' pf_Filename pf_Filename_update dec_string,
      fld ''additions'' pf_Additions pf_Additions_update dec_int,
      fld ''deletions'' pf_Deletions pf_Deletions_update dec_int,
      fld ''patch'' pf_Patch pf_Patch_update dec_string]"

definition file_of :: "int \<Rightarrow> pr_file \<Rightarrow> file_change" where
  "file_of maxBytes f =
     (let fc = zero_file\<lparr>fc_Path := pf_Filename f, fc_Additions := pf_Additions f, fc_Deletions := pf_Deletions f\<rparr>
      in if maxBytes > 0 \<and> int (length (pf_Patch f)) > maxBytes then fc\<lparr>fc_Truncated := True\<rparr>
         else fc\<lparr>fc_Patch := pf_Patch f\<rparr>)"

definition FetchPullRequestPatches :: "int \<Rightarrow> string \<Rightarrow> int \<Rightarrow> int \<Rightarrow> file_change list api" where
  "FetchPullRequestPatches i repo number maxBytes =
     eff_bind (api_get i (''/repos/'' @ repo @ ''/pulls/'' @ show_int number @ ''/files?per_page=100'')) (\<lambda>resp.
     eff_bind (api_body (16 * mib) resp) (\<lambda>body.
     eff_bind (api_decode (dec_slice zero_pr_file (dec_struct pr_file_fields)) None body) (\<lambda>raw.
     eff_return (map (file_of maxBytes) (elems raw)))))"

section \<open>What the client sends\<close>

text \<open>
  \<open>sends P env m\<close>: in the environment \<open>env\<close> every request \<open>m\<close> sends satisfies \<open>P\<close>. It passes
  through the combinators, so the operations follow from their parts.
\<close>

definition sends :: "(http_request \<Rightarrow> bool) \<Rightarrow> api_env \<Rightarrow> 'a api \<Rightarrow> bool" where
  "sends P env m \<longleftrightarrow> (\<forall>s. \<exists>new. as_sent (snd (m env s)) = as_sent s @ new \<and> list_all P new)"

named_theorems send_rules \<open>how \<open>sends\<close> passes through a computation\<close>

lemma sends_silent: "(\<And>s. as_sent (snd (m env s)) = as_sent s) \<Longrightarrow> sends P env m"
  by (simp add: sends_def)

lemma sends_return [send_rules]: "sends P env (eff_return x)"
  and sends_fail [send_rules]: "sends P env (eff_fail e)"
  and sends_now [send_rules]: "sends P env api_now"
  and sends_observe [send_rules]: "sends P env (api_observe i g)"
  and sends_cache [send_rules]: "sends P env (cache_token i tok)"
  by (rule sends_silent, simp add: eff_defs api_now_def api_observe_def cache_token_def)+

lemma sends_reserve [send_rules]: "sends P env (api_reserve r i cost)"
  by (rule sends_silent) (simp add: api_reserve_def split: prod.split)

lemma sends_cached [send_rules]: "sends P env (cached i)"
  by (rule sends_silent) (simp add: cached_def eff_defs api_now_def split: option.split)

lemma app_jwt_sent: "as_sent (snd (app_jwt env s)) = as_sent s"
  by (cases "app_jwt env s") (auto dest: app_jwt_state)

lemma sends_jwt [send_rules]: "sends P env app_jwt"
  by (rule sends_silent) (rule app_jwt_sent)

lemma sends_send: "P rq \<Longrightarrow> sends P env (api_send rq)"
  by (simp add: sends_def api_send_def)

lemma sends_bind:
  assumes "sends P env m" "\<And>x. sends P env (f x)"
  shows "sends P env (eff_bind m f)"
  unfolding sends_def
proof
  fix s
  obtain r s1 where m: "m env s = (r, s1)" by fastforce
  with assms(1) obtain new where new: "as_sent s1 = as_sent s @ new" "list_all P new"
    unfolding sends_def by (metis snd_conv)
  show "\<exists>new. as_sent (snd (eff_bind m f env s)) = as_sent s @ new \<and> list_all P new"
  proof (cases r)
    case (Inl e)
    with m new show ?thesis by (auto simp: eff_bind_def)
  next
    case (Inr x)
    from assms(2) [of x] obtain new' where "as_sent (snd (f x env s1)) = as_sent s1 @ new'" "list_all P new'"
      unfolding sends_def by blast
    with m new Inr show ?thesis by (intro exI [of _ "new @ new'"]) (simp add: eff_bind_def)
  qed
qed

lemma sends_ask: "sends P env (f (g env)) \<Longrightarrow> sends P env (eff_bind (eff_ask g) f)"
  by (simp add: sends_def eff_defs)

lemma sends_request:
  assumes "sends P env (f \<lparr>hq_method = meth, hq_url = url, hq_header = h, hq_body = body\<rparr>)"
  shows "sends P env (eff_bind (api_request meth url h body) f)"
  using assms by (simp add: sends_def eff_bind_def api_request_cases)

text \<open>The requests the package may send: reads, token exchanges, and one GraphQL query.\<close>

definition bearer :: "http_request \<Rightarrow> bool" where
  "bearer rq \<longleftrightarrow> (\<exists>t. hq_header rq ''Authorization'' = Some (''Bearer '' @ t) \<or> hq_header rq ''Authorization'' = Some (''token '' @ t))"

definition reading :: "api_env \<Rightarrow> http_request \<Rightarrow> bool" where
  "reading env rq \<longleftrightarrow> bearer rq \<and>
     (hq_method rq = ''GET'' \<and> hq_body rq = [] \<or>
      hq_method rq = ''POST'' \<and> hq_body rq = [] \<and> (\<exists>i. hq_url rq = token_url (ae_base env) i) \<or>
      hq_method rq = ''POST'' \<and> hq_url rq = ae_base env @ ''/graphql'' \<and> (\<exists>vars. hq_body rq = graphql_body prEnrichQuery vars))"

lemma bearer_headers [simp]:
  "jwt_headers jwt ''Authorization'' = Some (''Bearer '' @ jwt)"
  "token_headers tok h ''Authorization'' = Some (''token '' @ it_Token tok)"
  by (simp_all add: jwt_headers_def token_headers_def)

lemma sends_mint [send_rules]: "sends (reading env) env (mint i)"
  unfolding mint_def
  by (intro sends_bind sends_ask sends_request sends_send send_rules)
    (auto simp: reading_def bearer_def Let_def intro: send_rules split: option.split)

lemma sends_Token [send_rules]: "sends (reading env) env (Token i)"
  unfolding Token_def by (intro sends_bind send_rules) (auto split: option.split intro!: sends_bind send_rules)

lemma sends_gated: "sends P env m \<Longrightarrow> sends P env (gated r i cost m)"
  unfolding gated_def by (intro sends_bind send_rules) (auto split: prod.split intro: send_rules)

lemma sends_body [send_rules]: "sends P env (api_body n resp)"
  by (simp add: api_body_def send_rules)

lemma sends_decode [send_rules]: "sends P env (api_decode d zero body)"
  by (simp add: api_decode_def send_rules split: option.split)

lemma sends_Do:
  assumes "hq_method rq = ''GET''" "hq_body rq = []"
  shows "sends (reading env) env (Do i rq cost)"
  unfolding Do_def
  by (intro sends_gated sends_bind sends_send send_rules) (simp add: reading_def bearer_def assms)

lemma sends_get [send_rules]: "sends (reading env) env (api_get i path)"
  unfolding api_get_def by (intro sends_ask sends_request sends_Do) simp_all

lemma sends_GraphQL: "sends (reading env) env (GraphQL i prEnrichQuery vars cost)"
  unfolding GraphQL_def
  by (intro sends_gated sends_bind sends_ask sends_request sends_send send_rules)
    (auto simp: reading_def bearer_def intro: sends_bind send_rules)

lemma sends_hasAny [send_rules]: "sends (reading env) env (hasAny i path)"
  unfolding hasAny_def by (intro sends_bind send_rules)

lemma sends_Enrich: "sends (reading env) env (EnrichPullRequest i repo number)"
  unfolding EnrichPullRequest_def
  by (auto split: prod.split option.split intro!: sends_bind sends_GraphQL send_rules)

text \<open>
  C33. The platform never writes to GitHub: whatever GitHub answers, every request any operation
  of the client sends is a GET without a body, the exchange of an app JWT for an installation
  token, or the one GraphQL query of the enricher, and each carries a credential.
\<close>

theorem api_read_only:
  "sends (reading env) env ListInstallations \<and>
   sends (reading env) env (ListInstallationRepos i) \<and>
   sends (reading env) env (DetectRepoCapabilities i repo) \<and>
   sends (reading env) env (EnrichPullRequest i repo number) \<and>
   sends (reading env) env (FetchPullRequestPatches i repo number maxBytes)"
proof (intro conjI)
  show "sends (reading env) env ListInstallations"
    unfolding ListInstallations_def
    by (intro sends_bind sends_ask sends_request sends_send send_rules)
      (auto simp: reading_def bearer_def Let_def intro: send_rules split: option.split)
  show "sends (reading env) env (ListInstallationRepos i)"
    unfolding ListInstallationRepos_def by (intro sends_bind send_rules)
  show "sends (reading env) env (DetectRepoCapabilities i repo)"
    unfolding DetectRepoCapabilities_def by (intro sends_bind send_rules)
  show "sends (reading env) env (EnrichPullRequest i repo number)" by (rule sends_Enrich)
  show "sends (reading env) env (FetchPullRequestPatches i repo number maxBytes)"
    unfolding FetchPullRequestPatches_def by (intro sends_bind send_rules)
qed

section \<open>What the client answers\<close>

lemma gated_Inr:
  assumes "gated r i cost m env s = (Inr x, s')"
  obtains reg where "reserve_for (ae_now env (as_clock s)) i r cost (as_budgets s) = ((0, True), reg)"
    "m env (s\<lparr>as_clock := Suc (as_clock s), as_budgets := reg\<rparr>) = (Inr x, s')"
proof -
  obtain w ok reg where r: "reserve_for (ae_now env (as_clock s)) i r cost (as_budgets s) = ((w, ok), reg)"
    by (metis surj_pair)
  with assms have ok: "ok" and m: "m env (s\<lparr>as_clock := Suc (as_clock s), as_budgets := reg\<rparr>) = (Inr x, s')"
    by (auto simp: gated_def api_reserve_def eff_defs split: if_splits)
  from r ok have "w = 0"
    by (auto simp: reserve_for_def Reserve_def reserve_pool_def Let_def split: prod.splits if_splits)
  with r ok m that show ?thesis by simp
qed

lemma Do_Inr:
  assumes "Do i rq cost env s = (Inr resp, s')"
  obtains k rq' reg where "ae_http env k rq' = Some resp" "hq_method rq' = hq_method rq" "hq_url rq' = hq_url rq"
    "hq_body rq' = hq_body rq" "as_budgets s' = reg(i \<mapsto> Observe (hr_get resp) (budget_for reg i))"
proof -
  from assms [unfolded Do_def] obtain reg where
    d: "eff_bind (Token i) (\<lambda>tok. eff_bind (api_send (rq\<lparr>hq_header := (token_headers tok (hq_header rq))(''X-GitHub-Api-Version'' \<mapsto> ''2022-11-28'')\<rparr>))
        (\<lambda>resp. eff_bind (api_observe i (Observe (hr_get resp))) (\<lambda>_. eff_return resp)))
        env (s\<lparr>as_clock := Suc (as_clock s), as_budgets := reg\<rparr>) = (Inr resp, s')"
    by (rule gated_Inr)
  from d obtain tok s1 where "eff_bind (api_send (rq\<lparr>hq_header := (token_headers tok (hq_header rq))(''X-GitHub-Api-Version'' \<mapsto> ''2022-11-28'')\<rparr>))
        (\<lambda>resp. eff_bind (api_observe i (Observe (hr_get resp))) (\<lambda>_. eff_return resp)) env s1 = (Inr resp, s')"
    by (rule eff_bind_Inr)
  then show ?thesis
    by (rule eff_bind_Inr)
      (auto simp: api_send_def api_observe_def eff_defs split: option.splits intro!: that)
qed

lemma api_get_Inr:
  assumes "api_get i path env s = (Inr resp, s')"
  obtains k rq where "ae_http env k rq = Some resp" "hq_method rq = ''GET''" "hq_url rq = ae_base env @ path"
proof -
  from assms have "ae_url_ok env (ae_base env @ path)"
    "Do i \<lparr>hq_method = ''GET'', hq_url = ae_base env @ path, hq_header = Map.empty, hq_body = []\<rparr> 1 env s = (Inr resp, s')"
    by (auto simp: api_get_def eff_defs api_request_cases split: if_splits)
  from this(2) show ?thesis by (rule Do_Inr) (auto intro!: that)
qed

definition answered :: "api_env \<Rightarrow> string \<Rightarrow> http_response \<Rightarrow> bool" where
  "answered env path resp \<longleftrightarrow>
     (\<exists>k rq. ae_http env k rq = Some resp \<and> hq_method rq = ''GET'' \<and> hq_url rq = ae_base env @ path \<and> hr_status resp = 200)"

lemma hasAny_Inr:
  assumes "hasAny i path env s = (Inr b, s')"
  shows "\<exists>resp items. answered env path resp \<and>
     unmarshal (dec_slice None dec_raw) None (limited mib (hr_body resp)) = Some items \<and> b = (elems items \<noteq> [])"
proof -
  from assms [unfolded hasAny_def] obtain resp s1 where g: "api_get i path env s = (Inr resp, s1)"
    and r: "eff_bind (api_body mib resp) (\<lambda>body. eff_bind (api_decode (dec_slice None dec_raw) None body)
        (\<lambda>items. eff_return (length (elems items) > 0))) env s1 = (Inr b, s')"
    by (rule eff_bind_Inr)
  from r have "hr_status resp = 200" "\<exists>items. unmarshal (dec_slice None dec_raw) None (limited mib (hr_body resp)) = Some items \<and> b = (elems items \<noteq> [])"
    by (auto simp: api_body_def api_decode_def eff_defs split: if_splits option.splits)
  moreover from g obtain k rq where "ae_http env k rq = Some resp" "hq_method rq = ''GET''" "hq_url rq = ae_base env @ path"
    by (rule api_get_Inr)
  ultimately show ?thesis unfolding answered_def by blast
qed

text \<open>
  C34. A detected capability is real: when \<open>DetectRepoCapabilities\<close> returns, each flag says
  whether GitHub's answer for exactly that list of the repository, with status 200, is an array
  with an element; any other answer to either call is an error, never a flag.
\<close>

theorem capabilities_detected:
  assumes "DetectRepoCapabilities i repo env s = (Inr caps, s')"
  shows "\<exists>d r ds rs. answered env (''/repos/'' @ repo @ ''/deployments?per_page=1'') d \<and>
    answered env (''/repos/'' @ repo @ ''/releases?per_page=1'') r \<and>
    unmarshal (dec_slice None dec_raw) None (limited mib (hr_body d)) = Some ds \<and>
    unmarshal (dec_slice None dec_raw) None (limited mib (hr_body r)) = Some rs \<and>
    cap_Deployments caps = (elems ds \<noteq> []) \<and> cap_Releases caps = (elems rs \<noteq> [])"
proof -
  from assms [unfolded DetectRepoCapabilities_def] obtain d s1 where
    d: "hasAny i (''/repos/'' @ repo @ ''/deployments?per_page=1'') env s = (Inr d, s1)"
    and r: "eff_bind (hasAny i (''/repos/'' @ repo @ ''/releases?per_page=1'')) (\<lambda>releases.
      eff_return \<lparr>cap_Deployments = d, cap_Releases = releases\<rparr>) env s1 = (Inr caps, s')"
    by (rule eff_bind_Inr)
  from r obtain b s2 where "hasAny i (''/repos/'' @ repo @ ''/releases?per_page=1'') env s1 = (Inr b, s2)"
    "caps = \<lparr>cap_Deployments = d, cap_Releases = b\<rparr>"
    by (rule eff_bind_Inr) (simp add: eff_return_def)
  with hasAny_Inr [OF d] hasAny_Inr [OF this(1)] show ?thesis by auto
qed

text \<open>The files GitHub answered with, decoded from the body of a 200 to the request for exactly this list.\<close>

definition files_answered :: "api_env \<Rightarrow> string \<Rightarrow> int \<Rightarrow> pr_file list \<Rightarrow> bool" where
  "files_answered env repo number raw \<longleftrightarrow>
     (\<exists>resp files. answered env (''/repos/'' @ repo @ ''/pulls/'' @ show_int number @ ''/files?per_page=100'') resp \<and>
        unmarshal (dec_slice zero_pr_file (dec_struct pr_file_fields)) None (limited (16 * mib) (hr_body resp)) = Some files \<and>
        raw = elems files)"

lemma patches_Inr:
  assumes "FetchPullRequestPatches i repo number maxBytes env s = (Inr files, s')"
  shows "\<exists>raw. files_answered env repo number raw \<and> files = map (file_of maxBytes) raw"
proof -
  from assms [unfolded FetchPullRequestPatches_def] obtain resp s1 where
    g: "api_get i (''/repos/'' @ repo @ ''/pulls/'' @ show_int number @ ''/files?per_page=100'') env s = (Inr resp, s1)"
    and r: "eff_bind (api_body (16 * mib) resp) (\<lambda>body.
        eff_bind (api_decode (dec_slice zero_pr_file (dec_struct pr_file_fields)) None body) (\<lambda>raw.
        eff_return (map (file_of maxBytes) (elems raw)))) env s1 = (Inr files, s')"
    by (rule eff_bind_Inr)
  from r have "hr_status resp = 200" "\<exists>raw. unmarshal (dec_slice zero_pr_file (dec_struct pr_file_fields)) None
      (limited (16 * mib) (hr_body resp)) = Some raw \<and> files = map (file_of maxBytes) (elems raw)"
    by (auto simp: api_body_def api_decode_def eff_defs split: if_splits option.splits)
  with api_get_Inr [OF g] show ?thesis unfolding files_answered_def answered_def by metis
qed

text \<open>
  C35. A giant diff cannot bloat the event log: what is returned is, file by file and in order,
  what GitHub answered to the request for this pull request's files (a 200, decoded from the
  first 16 MiB of its body), with path and counts as they are. With a positive cap no returned
  patch is longer than it, a file is marked truncated exactly when its patch was over the cap,
  and the patch is then dropped and otherwise kept; a cap of zero or less keeps every patch.
\<close>

theorem patches_bounded:
  assumes "FetchPullRequestPatches i repo number maxBytes env s = (Inr files, s')"
  shows "\<exists>raw. files_answered env repo number raw \<and>
    list_all2 (\<lambda>f p. fc_Path f = pf_Filename p \<and> fc_Additions f = pf_Additions p \<and> fc_Deletions f = pf_Deletions p \<and>
      fc_Truncated f = (0 < maxBytes \<and> maxBytes < int (length (pf_Patch p))) \<and>
      fc_Patch f = (if fc_Truncated f then [] else pf_Patch p) \<and>
      (0 < maxBytes \<longrightarrow> int (length (fc_Patch f)) \<le> maxBytes)) files raw"
proof -
  from patches_Inr [OF assms] obtain raw where "files_answered env repo number raw" "files = map (file_of maxBytes) raw" by blast
  then show ?thesis
    by (intro exI [of _ raw]) (auto simp: file_of_def Let_def zero_file_def list_all2_map1 list_all2_same)
qed

lemma gated_refused:
  assumes "fst (reserve_for (ae_now env (as_clock s)) i r cost (as_budgets s)) = (wait, False)"
  shows "fst (gated r i cost m env s) = Inl (RateLimitedError r wait) \<and> as_sent (snd (gated r i cost m env s)) = as_sent s \<and>
    as_cache (snd (gated r i cost m env s)) = as_cache s"
  using assms by (auto simp: gated_def api_reserve_def eff_defs split: prod.splits)

text \<open>
  The budget gates every call: when \<open>Reserve\<close> refuses, a REST call and a GraphQL query both
  fail with the resource and the wait, having sent nothing, minted nothing and left the token
  cache alone.
\<close>

theorem budget_gates:
  "(fst (reserve_for (ae_now env (as_clock s)) i REST cost (as_budgets s)) = (wait, False) \<longrightarrow>
      fst (Do i rq cost env s) = Inl (RateLimitedError REST wait) \<and>
      as_sent (snd (Do i rq cost env s)) = as_sent s \<and> as_cache (snd (Do i rq cost env s)) = as_cache s) \<and>
   (fst (reserve_for (ae_now env (as_clock s)) i GraphQLPool cost (as_budgets s)) = (wait, False) \<longrightarrow>
      fst (GraphQL i query vars cost env s) = Inl (RateLimitedError GraphQLPool wait) \<and>
      as_sent (snd (GraphQL i query vars cost env s)) = as_sent s \<and>
      as_cache (snd (GraphQL i query vars cost env s)) = as_cache s)"
  unfolding Do_def GraphQL_def by (intro conjI impI; erule gated_refused [THEN conjunct1]
    gated_refused [THEN conjunct2, THEN conjunct1] gated_refused [THEN conjunct2, THEN conjunct2])

text \<open>
  The quota follows GitHub's own count: after a REST call that got an answer with both quota
  headers, the installation's REST estimate is the answer's, whatever was reserved before.
\<close>

theorem quota_fed_back:
  assumes "Do i rq cost env s = (Inr resp, s')"
    "atoi (hr_get resp ''X-RateLimit-Remaining'') = (n, True)" "atoi (hr_get resp ''X-RateLimit-Reset'') = (reset, True)"
  shows "pool_of (budget_for (as_budgets s') i) REST = \<lparr>pl_remaining = n, pl_resetAt = time_unix reset, pl_known = True\<rparr>"
proof -
  from assms(1) obtain regs where "as_budgets s' = regs(i \<mapsto> Observe (hr_get resp) (budget_for regs i))"
    by (rule Do_Inr)
  then show ?thesis using assms(2,3) by (simp add: budget_for_def Observe_def set_pool_def)
qed

section \<open>Samples\<close>

text \<open>A client with a cached token, at the zero time, and a GitHub answering by the request.\<close>

definition warm_state :: api_state where
  "warm_state = idle_state\<lparr>as_cache := [7 \<mapsto> sample_token]\<rparr>"

definition warm_env :: "(http_request \<Rightarrow> http_response) \<Rightarrow> api_env" where
  "warm_env reply =
     \<lparr>ae_now = (\<lambda>_. zero_time), ae_http = (\<lambda>_ rq. Some (reply rq)), ae_url_ok = (\<lambda>_. True),
      ae_creds = \<lparr>ac_AppID = 1, ac_privateKey = \<lparr>rk_n = 3233, rk_d = 413\<rparr>\<rparr>, ae_base = sample_base\<rparr>"

definition repo_reply :: "http_request \<Rightarrow> http_response" where
  "repo_reply rq = answer 200 (if has_suffix (hq_url rq) ''/deployments?per_page=1'' then ''[{}]'' else ''[]'')"

lemma warm_env_sel [simp]:
  "ae_now (warm_env reply) k = zero_time" "ae_url_ok (warm_env reply) u" "ae_base (warm_env reply) = sample_base"
  "ae_http (warm_env reply) k rq = Some (reply rq)"
  by (simp_all add: warm_env_def)

definition warm :: "int \<Rightarrow> api_state \<Rightarrow> bool" where
  "warm i s \<longleftrightarrow> as_cache s i = Some sample_token \<and> \<not> pl_known (pool_of (budget_for (as_budgets s) i) REST)"

lemma warm_warm_state: "warm 7 warm_state"
  by (simp add: warm_def warm_state_def idle_state_def budget_for_def NewBudget_def pool_of_def zero_pool_def)

lemma Token_warm: "as_cache s i = Some sample_token \<Longrightarrow>
    Token i (warm_env reply) s = (Inr sample_token, s\<lparr>as_clock := Suc (as_clock s)\<rparr>)"
  by (simp add: Token_def cached_def api_now_def eff_defs)

definition with_token :: "http_request \<Rightarrow> http_request" where
  "with_token rq = rq\<lparr>hq_header := (token_headers sample_token (hq_header rq))(''X-GitHub-Api-Version'' \<mapsto> ''2022-11-28'')\<rparr>"

lemma Do_warm:
  assumes "warm i s"
  obtains s' where "Do i rq cost (warm_env reply) s = (Inr (reply (with_token rq)), s')"
    "(\<forall>k. hr_get (reply (with_token rq)) k = []) \<longrightarrow> warm i s'"
proof -
  obtain reg where r: "reserve_for zero_time i REST cost (as_budgets s) = ((0, True), reg)"
    "\<not> pl_known (pool_of (budget_for reg i) REST)"
    using assms by (auto simp: warm_def reserve_for_def Reserve_def reserve_pool_def budget_for_def Let_def split: prod.splits)
  have "\<exists>s'. Do i rq cost (warm_env reply) s = (Inr (reply (with_token rq)), s') \<and> as_cache s' i = Some sample_token \<and>
      as_budgets s' = reg(i \<mapsto> Observe (hr_get (reply (with_token rq))) (budget_for reg i))"
    using r(1) assms
    by (simp add: Do_def gated_def eff_defs api_reserve_def Token_warm api_send_def api_observe_def warm_def flip: with_token_def)
  then obtain s' where s': "Do i rq cost (warm_env reply) s = (Inr (reply (with_token rq)), s')" "as_cache s' i = Some sample_token"
      "as_budgets s' = reg(i \<mapsto> Observe (hr_get (reply (with_token rq))) (budget_for reg i))" by blast
  have "warm i s'" if "\<forall>k. hr_get (reply (with_token rq)) k = []"
    using s'(2,3) r(2) that by (simp add: warm_def budget_for_def Observe_def atoi_def)
  with s'(1) that show ?thesis by blast
qed

lemma get_warm:
  assumes "warm i s"
  obtains s' rq where "api_get i path (warm_env reply) s = (Inr (reply rq), s')" "hq_url rq = sample_base @ path"
    "(\<forall>k. hr_get (reply rq) k = []) \<longrightarrow> warm i s'"
proof -
  let ?rq = "\<lparr>hq_method = ''GET'', hq_url = sample_base @ path, hq_header = Map.empty, hq_body = []\<rparr>"
  obtain s' where d: "Do i ?rq 1 (warm_env reply) s = (Inr (reply (with_token ?rq)), s')"
    "(\<forall>k. hr_get (reply (with_token ?rq)) k = []) \<longrightarrow> warm i s'" by (rule Do_warm [OF assms, where rq = ?rq and cost = 1 and reply = reply])
  from d(1) have "api_get i path (warm_env reply) s = (Inr (reply (with_token ?rq)), s')"
    by (simp add: api_get_def eff_defs api_request_cases)
  moreover have "hq_url (with_token ?rq) = sample_base @ path" by (simp add: with_token_def)
  ultimately show ?thesis using d(2) by (rule that)
qed

theorem capabilities_detected_witness:
  "\<exists>caps s' d. DetectRepoCapabilities 7 ''o/r'' (warm_env repo_reply) warm_state = (Inr caps, s') \<and>
     caps = \<lparr>cap_Deployments = True, cap_Releases = False\<rparr> \<and>
     answered (warm_env repo_reply) (''/repos/'' @ ''o/r'' @ ''/deployments?per_page=1'') d"
proof -
  have any: "\<exists>s'. hasAny 7 path (warm_env repo_reply) s = (Inr (has_suffix (sample_base @ path) ''/deployments?per_page=1''), s') \<and> warm 7 s'"
    if "warm 7 s" for path s
  proof -
    obtain s' rq where g: "api_get 7 path (warm_env repo_reply) s = (Inr (repo_reply rq), s')" "hq_url rq = sample_base @ path"
      "(\<forall>k. hr_get (repo_reply rq) k = []) \<longrightarrow> warm 7 s'" by (rule get_warm [OF \<open>warm 7 s\<close>, where path = path and reply = repo_reply])
    have dec: "unmarshal (dec_slice None dec_raw) None (limited mib ''[{}]'') = Some (Some [Some (JObj [])])"
      "unmarshal (dec_slice None dec_raw) None (limited mib ''[]'') = Some (Some [])" by code_simp+
    have "hasAny 7 path (warm_env repo_reply) s = (Inr (has_suffix (sample_base @ path) ''/deployments?per_page=1''), s')"
      using g(1,2) dec
      by (simp add: hasAny_def eff_defs repo_reply_def answer_def api_body_def api_decode_def elems_def)
    moreover have "warm 7 s'" using g(3) by (simp add: repo_reply_def answer_def)
    ultimately show ?thesis by blast
  qed
  have sfx: "has_suffix (sample_base @ ''/repos/'' @ ''o/r'' @ ''/deployments?per_page=1'') ''/deployments?per_page=1''"
    "\<not> has_suffix (sample_base @ ''/repos/'' @ ''o/r'' @ ''/releases?per_page=1'') ''/deployments?per_page=1''" by code_simp+
  obtain s1 where 1: "hasAny 7 (''/repos/'' @ ''o/r'' @ ''/deployments?per_page=1'') (warm_env repo_reply) warm_state = (Inr True, s1)" "warm 7 s1"
    using any [OF warm_warm_state] sfx(1) by metis
  obtain s2 where 2: "hasAny 7 (''/repos/'' @ ''o/r'' @ ''/releases?per_page=1'') (warm_env repo_reply) s1 = (Inr False, s2)"
    using any [OF 1(2)] sfx(2) by metis
  define caps where "caps = \<lparr>cap_Deployments = True, cap_Releases = False\<rparr>"
  have c: "DetectRepoCapabilities 7 ''o/r'' (warm_env repo_reply) warm_state = (Inr caps, s2)"
    using 1(1) 2 unfolding DetectRepoCapabilities_def eff_bind_def by (simp add: eff_return_def caps_def)
  from capabilities_detected [OF c] obtain d where
    "answered (warm_env repo_reply) (''/repos/'' @ ''o/r'' @ ''/deployments?per_page=1'') d" by (elim exE conjE)
  with c show ?thesis unfolding caps_def by blast
qed

definition files_reply :: "http_request \<Rightarrow> http_response" where
  \<open>files_reply rq = answer 200 ''[{"filename":"a.go","additions":1,"deletions":2,"patch":"@@ -1,2 +1,1 @@"},{"filename":"b.go","patch":"+x"}]''\<close>

theorem patches_bounded_witness:
  "\<exists>files s'. FetchPullRequestPatches 7 ''o/r'' 12 4 (warm_env files_reply) warm_state = (Inr files, s') \<and>
     map fc_Truncated files = [True, False] \<and> map fc_Path files = [''a.go'', ''b.go''] \<and>
     (\<exists>raw. files_answered (warm_env files_reply) ''o/r'' 12 raw)"
proof -
  let ?body = "hr_body (files_reply (undefined :: http_request))"
  have "map_option (\<lambda>raw. map (file_of 4) (elems raw)) (unmarshal (dec_slice zero_pr_file (dec_struct pr_file_fields)) None
      (limited (16 * mib) ?body)) =
    Some [zero_file\<lparr>fc_Path := ''a.go'', fc_Additions := 1, fc_Deletions := 2, fc_Truncated := True\<rparr>,
          zero_file\<lparr>fc_Path := ''b.go'', fc_Patch := ''+x''\<rparr>]" by code_simp
  then obtain raw where raw: "unmarshal (dec_slice zero_pr_file (dec_struct pr_file_fields)) None (limited (16 * mib) ?body) = Some raw"
    "map (file_of 4) (elems raw) = [zero_file\<lparr>fc_Path := ''a.go'', fc_Additions := 1, fc_Deletions := 2, fc_Truncated := True\<rparr>,
      zero_file\<lparr>fc_Path := ''b.go'', fc_Patch := ''+x''\<rparr>]" by (auto simp: map_option_eq_Some)
  obtain s' rq where g: "api_get 7 (''/repos/'' @ ''o/r'' @ ''/pulls/'' @ show_int 12 @ ''/files?per_page=100'')
      (warm_env files_reply) warm_state = (Inr (files_reply rq), s')"
    by (rule get_warm [OF warm_warm_state])
  have rq: "files_reply rq = files_reply undefined" by (simp add: files_reply_def)
  have st: "hr_status (files_reply undefined) = 200" by (simp add: files_reply_def answer_def)
  have f: "FetchPullRequestPatches 7 ''o/r'' 12 4 (warm_env files_reply) warm_state = (Inr (map (file_of 4) (elems raw)), s')"
    using g raw(1) st unfolding FetchPullRequestPatches_def eff_bind_def api_body_def api_decode_def rq
    by (simp add: eff_return_def)
  from patches_bounded [OF f] have "\<exists>r. files_answered (warm_env files_reply) ''o/r'' 12 r" by blast
  with f raw(2) show ?thesis by (intro exI [of _ "map (file_of 4) (elems raw)"] exI [of _ s']) (simp add: zero_file_def)
qed

text \<open>An installation whose GraphQL points are used up until a later reset.\<close>

definition spent_state :: api_state where
  "spent_state = warm_state\<lparr>as_budgets := [7 \<mapsto> set_pool GraphQLPool 50 (GTime (20 * nanos) 0) NewBudget]\<rparr>"

theorem budget_gates_witness:
  "fst (GraphQL 7 prEnrichQuery [] 1 (warm_env repo_reply) spent_state) = Inl (RateLimitedError GraphQLPool (20 * nanos)) \<and>
   as_sent (snd (GraphQL 7 prEnrichQuery [] 1 (warm_env repo_reply) spent_state)) = []"
proof -
  have "fst (reserve_for (ae_now (warm_env repo_reply) (as_clock spent_state)) 7 GraphQLPool 1 (as_budgets spent_state)) =
      (20 * nanos, False)" by code_simp
  with budget_gates [of "warm_env repo_reply" spent_state 7 1 "20 * nanos" _ prEnrichQuery "[]"] show ?thesis
    by (simp add: spent_state_def warm_state_def idle_state_def)
qed

definition quota_reply :: "http_request \<Rightarrow> http_response" where
  "quota_reply rq =
     \<lparr>hr_status = 200, hr_get = (\<lambda>k. if k = ''X-RateLimit-Remaining'' then ''4321'' else if k = ''X-RateLimit-Reset'' then ''1700003600'' else []),
      hr_body = ''[]''\<rparr>"

definition sample_get :: http_request where
  "sample_get = \<lparr>hq_method = ''GET'', hq_url = sample_base @ ''/x'', hq_header = Map.empty, hq_body = []\<rparr>"

theorem quota_fed_back_witness:
  "\<exists>resp s'. Do 7 sample_get 1 (warm_env quota_reply) warm_state = (Inr resp, s') \<and>
     pool_of (budget_for (as_budgets s') 7) REST = \<lparr>pl_remaining = 4321, pl_resetAt = time_unix 1700003600, pl_known = True\<rparr>"
proof -
  obtain s' where d: "Do 7 sample_get 1 (warm_env quota_reply) warm_state = (Inr (quota_reply (with_token sample_get)), s')"
    by (rule Do_warm [OF warm_warm_state])
  have "atoi ''4321'' = (4321, True)" "atoi ''1700003600'' = (1700003600, True)" by code_simp+
  with quota_fed_back [OF d, of 4321 1700003600] d show ?thesis by (auto simp: quota_reply_def)
qed

end
