(* ===== verification/PayloadTables.thy ===== *)
theory PayloadTables
  imports GoJsonStruct GitHubSource
begin

text \<open>
  The decoding tables of the eight webhook payloads are tables of distinct, independent record
  fields (interpretations of \<open>struct_table\<close>), so that a member of a payload can be decoded by
  itself: any service that reads only the installation of a payload sees the one the connector
  sees (\<open>Normalize_installation\<close>).
\<close>

lemma lower_names [simp]:
  "fold_name ''action'' = ''action''" "fold_name ''number'' = ''number''" "fold_name ''pull_request'' = ''pull_request''"
  "fold_name ''repository'' = ''repository''" "fold_name ''installation'' = ''installation''"
  "fold_name ''_enrichment'' = ''_enrichment''" "fold_name ''review'' = ''review''" "fold_name ''comment'' = ''comment''"
  "fold_name ''issue'' = ''issue''" "fold_name ''commits'' = ''commits''" "fold_name ''check_run'' = ''check_run''"
  "fold_name ''id'' = ''id''" "fold_name ''sha'' = ''sha''" "fold_name ''state'' = ''state''"
  "fold_name ''context'' = ''context''" "fold_name ''updated_at'' = ''updated_at''"
  by code_simp+

interpretation installation_table: struct_table installation_fields
  by (rule struct_tableI; simp add: installation_fields_def)

interpretation pr_table: struct_table pr_payload_fields
  by (rule struct_tableI; simp add: pr_payload_fields_def; intro conjI; rule dec_commute_fld; simp)

interpretation review_table: struct_table review_payload_fields
  by (rule struct_tableI; simp add: review_payload_fields_def; intro conjI; rule dec_commute_fld; simp)

interpretation review_comment_table: struct_table review_comment_payload_fields
  by (rule struct_tableI; simp add: review_comment_payload_fields_def; intro conjI; rule dec_commute_fld; simp)

interpretation issue_comment_table: struct_table issue_comment_payload_fields
  by (rule struct_tableI; simp add: issue_comment_payload_fields_def; intro conjI; rule dec_commute_fld; simp)

interpretation issue_table: struct_table issue_payload_fields
  by (rule struct_tableI; simp add: issue_payload_fields_def; intro conjI; rule dec_commute_fld; simp)

interpretation push_table: struct_table push_payload_fields
  by (rule struct_tableI; simp add: push_payload_fields_def; intro conjI; rule dec_commute_fld; simp)

interpretation check_run_table: struct_table check_run_payload_fields
  by (rule struct_tableI; simp add: check_run_payload_fields_def; intro conjI; rule dec_commute_fld; simp)

interpretation status_table: struct_table status_payload_fields
  by (rule struct_tableI; simp add: status_payload_fields_def; intro conjI; rule dec_commute_fld; simp)

section \<open>The installation of a payload\<close>

definition dec_installation :: "int dec" where
  "dec_installation = only_field ''installation'' (only_field ''id'' dec_int)"

lemma installation_project: "dec_struct installation_fields j b = Some v \<Longrightarrow> only_field ''id'' dec_int j (in_ID b) = Some (in_ID v)"
  by (rule installation_table.project_fld [where h = "\<lambda>x. x" and get = in_ID and upd = in_ID_update and dn = dec_int])
    (simp_all add: installation_fields_def)

lemma pr_installation:
  "dec_struct pr_payload_fields j a = Some p \<Longrightarrow> dec_installation j (in_ID (pp_Installation a)) = Some (in_ID (pp_Installation p))"
  unfolding dec_installation_def
  by (rule pr_table.project_fld [where get = pp_Installation and upd = pp_Installation_update and dn = "dec_struct installation_fields"];
      simp add: pr_payload_fields_def installation_project; intro conjI keeps_fld; simp)

lemma review_installation:
  "dec_struct review_payload_fields j a = Some p \<Longrightarrow> dec_installation j (in_ID (rw_Installation a)) = Some (in_ID (rw_Installation p))"
  unfolding dec_installation_def
  by (rule review_table.project_fld [where get = rw_Installation and upd = rw_Installation_update and dn = "dec_struct installation_fields"];
      simp add: review_payload_fields_def installation_project; intro conjI keeps_fld; simp)

lemma review_comment_installation:
  "dec_struct review_comment_payload_fields j a = Some p \<Longrightarrow> dec_installation j (in_ID (rc_Installation a)) = Some (in_ID (rc_Installation p))"
  unfolding dec_installation_def
  by (rule review_comment_table.project_fld [where get = rc_Installation and upd = rc_Installation_update and dn = "dec_struct installation_fields"];
      simp add: review_comment_payload_fields_def installation_project; intro conjI keeps_fld; simp)

lemma issue_comment_installation:
  "dec_struct issue_comment_payload_fields j a = Some p \<Longrightarrow> dec_installation j (in_ID (ic_Installation a)) = Some (in_ID (ic_Installation p))"
  unfolding dec_installation_def
  by (rule issue_comment_table.project_fld [where get = ic_Installation and upd = ic_Installation_update and dn = "dec_struct installation_fields"];
      simp add: issue_comment_payload_fields_def installation_project; intro conjI keeps_fld; simp)

lemma issue_installation:
  "dec_struct issue_payload_fields j a = Some p \<Longrightarrow> dec_installation j (in_ID (ip_Installation a)) = Some (in_ID (ip_Installation p))"
  unfolding dec_installation_def
  by (rule issue_table.project_fld [where get = ip_Installation and upd = ip_Installation_update and dn = "dec_struct installation_fields"];
      simp add: issue_payload_fields_def installation_project; intro conjI keeps_fld; simp)

lemma push_installation:
  "dec_struct push_payload_fields j a = Some p \<Longrightarrow> dec_installation j (in_ID (pu_Installation a)) = Some (in_ID (pu_Installation p))"
  unfolding dec_installation_def
  by (rule push_table.project_fld [where get = pu_Installation and upd = pu_Installation_update and dn = "dec_struct installation_fields"];
      simp add: push_payload_fields_def installation_project; intro conjI keeps_fld; simp)

lemma check_run_installation:
  "dec_struct check_run_payload_fields j a = Some p \<Longrightarrow> dec_installation j (in_ID (cp_Installation a)) = Some (in_ID (cp_Installation p))"
  unfolding dec_installation_def
  by (rule check_run_table.project_fld [where get = cp_Installation and upd = cp_Installation_update and dn = "dec_struct installation_fields"];
      simp add: check_run_payload_fields_def installation_project; intro conjI keeps_fld; simp)

lemma status_installation:
  "dec_struct status_payload_fields j a = Some p \<Longrightarrow> dec_installation j (in_ID (sp_Installation a)) = Some (in_ID (sp_Installation p))"
  unfolding dec_installation_def
  by (rule status_table.project_fld [where get = sp_Installation and upd = sp_Installation_update and dn = "dec_struct installation_fields"];
      simp add: status_payload_fields_def installation_project; intro conjI keeps_fld; simp)

lemma unmarshal_installation:
  assumes "unmarshal (dec_struct fs) zero body = Some p"
    "\<And>j. dec_struct fs j zero = Some p \<Longrightarrow> dec_installation j 0 = Some i"
  shows "unmarshal dec_installation 0 body = Some i"
  using assms by (auto simp: unmarshal_def split: option.splits)

lemmas zero_payloads =
  zero_pr_payload_def zero_review_payload_def zero_review_comment_payload_def zero_issue_comment_payload_def
  zero_issue_payload_def zero_push_payload_def zero_check_run_payload_def zero_status_payload_def zero_installation_def

lemma decode_pr_installation:
  "decode e (dec_struct pr_payload_fields) zero_pr_payload body = Inr p \<Longrightarrow> unmarshal dec_installation 0 body = Some (in_ID (pp_Installation p))"
  unfolding decode_iff using pr_installation [of _ zero_pr_payload p] by (elim unmarshal_installation) (simp add: zero_payloads)

lemma decode_review_installation:
  "decode e (dec_struct review_payload_fields) zero_review_payload body = Inr p \<Longrightarrow> unmarshal dec_installation 0 body = Some (in_ID (rw_Installation p))"
  unfolding decode_iff using review_installation [of _ zero_review_payload p] by (elim unmarshal_installation) (simp add: zero_payloads)

lemma decode_review_comment_installation:
  "decode e (dec_struct review_comment_payload_fields) zero_review_comment_payload body = Inr p \<Longrightarrow> unmarshal dec_installation 0 body = Some (in_ID (rc_Installation p))"
  unfolding decode_iff using review_comment_installation [of _ zero_review_comment_payload p] by (elim unmarshal_installation) (simp add: zero_payloads)

lemma decode_issue_comment_installation:
  "decode e (dec_struct issue_comment_payload_fields) zero_issue_comment_payload body = Inr p \<Longrightarrow> unmarshal dec_installation 0 body = Some (in_ID (ic_Installation p))"
  unfolding decode_iff using issue_comment_installation [of _ zero_issue_comment_payload p] by (elim unmarshal_installation) (simp add: zero_payloads)

lemma decode_issue_installation:
  "decode e (dec_struct issue_payload_fields) zero_issue_payload body = Inr p \<Longrightarrow> unmarshal dec_installation 0 body = Some (in_ID (ip_Installation p))"
  unfolding decode_iff using issue_installation [of _ zero_issue_payload p] by (elim unmarshal_installation) (simp add: zero_payloads)

lemma decode_push_installation:
  "decode e (dec_struct push_payload_fields) zero_push_payload body = Inr p \<Longrightarrow> unmarshal dec_installation 0 body = Some (in_ID (pu_Installation p))"
  unfolding decode_iff using push_installation [of _ zero_push_payload p] by (elim unmarshal_installation) (simp add: zero_payloads)

lemma decode_check_run_installation:
  "decode e (dec_struct check_run_payload_fields) zero_check_run_payload body = Inr p \<Longrightarrow> unmarshal dec_installation 0 body = Some (in_ID (cp_Installation p))"
  unfolding decode_iff using check_run_installation [of _ zero_check_run_payload p] by (elim unmarshal_installation) (simp add: zero_payloads)

lemma decode_status_installation:
  "decode e (dec_struct status_payload_fields) zero_status_payload body = Inr p \<Longrightarrow> unmarshal dec_installation 0 body = Some (in_ID (sp_Installation p))"
  unfolding decode_iff using status_installation [of _ zero_status_payload p] by (elim unmarshal_installation) (simp add: zero_payloads)

lemmas decode_installation =
  decode_pr_installation decode_review_installation decode_review_comment_installation decode_issue_comment_installation decode_issue_installation decode_push_installation decode_check_run_installation decode_status_installation

lemma Normalize_installation:
  assumes "Normalize raw = Inr r" "\<not> rs_Skip r"
  shows "unmarshal dec_installation 0 (re_Body raw) = Some (rs_InstallationID r)"
proof -
  have skip: "rs_Skip skip_result" by (simp add: skip_result_def)
  show ?thesis
    using assms
    by (auto simp: Normalize_def normalizePullRequest_def pullRequestResult_def normalizeReview_def normalizeReviewComment_def
        normalizeIssueComment_def normalizeIssue_def normalizePush_def normalizeCheckRun_def normalizeStatus_def
        res_bind_Inr_iff Let_def skip split: if_splits prod.splits dest!: decode_installation)
qed

end
