(* ===== verification/Enricher.thy ===== *)
theory Enricher
  imports ApiClient PayloadTables Kafka "HOL-Library.AList"
begin

text \<open>
  The enrichment stage (services/connector-github/main.go): \<open>enrich\<close>, \<open>fetchEnrichment\<close>,
  \<open>mergeEnrichment\<close> and the message \<open>process\<close> emits.
\<close>

section \<open>The code\<close>

definition maxEnrichWait :: int where
  "maxEnrichWait = 30 * nanos"

definition statusEnriched :: string where "statusEnriched = ''enriched''"
definition statusSkipped :: string where "statusSkipped = ''skipped''"
definition statusDisabled :: string where "statusDisabled = ''disabled''"
definition statusFailed :: string where "statusFailed = ''failed''"
definition statusRateLimited :: string where "statusRateLimited = ''rate_limited''"

text \<open>
  The stage's configuration: whether there is a client, and the patch settings. \<open>en_slept\<close>
  says whether a wait for the rate window runs to its end (or the context is cancelled).
\<close>

record enricher =
  en_client :: bool
  en_fetchPatches :: bool
  en_patchMaxBytes :: int
  en_slept :: bool

record pr_times =
  pt_UpdatedAt :: gtime
  pt_CreatedAt :: gtime

definition zero_pr_times :: pr_times where
  "zero_pr_times = \<lparr>pt_UpdatedAt = zero_time, pt_CreatedAt = zero_time\<rparr>"

definition pr_times_fields :: "pr_times fields" where
  "pr_times_fields =
     [fld ''updated_at'' pt_UpdatedAt pt_UpdatedAt_update dec_time,
      fld ''created_at'' pt_CreatedAt pt_CreatedAt_update dec_time]"

text \<open>\<open>prEnvelope\<close>; its structs of one field are modelled as that field.\<close>

record pr_envelope =
  pv_Number :: int
  pv_PullRequest :: pr_times
  pv_FullName :: string
  pv_Installation :: int

definition zero_pr_envelope :: pr_envelope where
  "zero_pr_envelope = \<lparr>pv_Number = 0, pv_PullRequest = zero_pr_times, pv_FullName = [], pv_Installation = 0\<rparr>"

definition pr_envelope_fields :: "pr_envelope fields" where
  "pr_envelope_fields =
     [fld ''number'' pv_Number pv_Number_update dec_int,
      fld ''pull_request'' pv_PullRequest pv_PullRequest_update (dec_struct pr_times_fields),
      fld ''repository'' pv_FullName pv_FullName_update (only_field ''full_name'' dec_string),
      fld ''installation'' pv_Installation pv_Installation_update (only_field ''id'' dec_int)]"

text \<open>
  \<open>map[string]json.RawMessage\<close>: the last member of a key wins. The document \<open>null\<close> gives the
  nil map, and storing into that panics.
\<close>

definition raw_map :: "(string \<times> json) list \<Rightarrow> (string \<times> json) list" where
  "raw_map m = foldl (\<lambda>acc (k, v). AList.update (unquote k) v acc) [] m"

datatype merge_error = NotAnObject | NilMapPanic

definition mergeEnrichment :: "bytes \<Rightarrow> enrichment \<Rightarrow> merge_error + bytes" where
  "mergeEnrichment body enr =
     (case json_parse body of
        Some (JObj m) \<Rightarrow> Inr (json_print (enc_map (AList.update ''_enrichment'' (enc_enrichment enr) (raw_map m))))
      | Some JNull \<Rightarrow> Inl NilMapPanic
      | _ \<Rightarrow> Inl NotAnObject)"

definition addPatches :: "enricher \<Rightarrow> pr_envelope \<Rightarrow> enrichment \<Rightarrow> enrichment api" where
  "addPatches c pe enr env s =
     (if en_fetchPatches c then
        (case FetchPullRequestPatches (pv_Installation pe) (pv_FullName pe) (pv_Number pe) (en_patchMaxBytes c) env s of
           (Inl e, s') \<Rightarrow> (Inr enr, s')
         | (Inr files, s') \<Rightarrow> (Inr (enr\<lparr>pe_Files := Some files\<rparr>), s'))
      else (Inr enr, s))"

definition fetchEnrichment :: "enricher \<Rightarrow> pr_envelope \<Rightarrow> enrichment api" where
  "fetchEnrichment c pe env s =
     (let call = EnrichPullRequest (pv_Installation pe) (pv_FullName pe) (pv_Number pe) in
      case call env s of
        (Inr enr, s1) \<Rightarrow> addPatches c pe enr env s1
      | (Inl (RateLimitedError r wait), s1) \<Rightarrow>
          if wait \<le> maxEnrichWait \<and> en_slept c then eff_bind call (addPatches c pe) env s1
          else (Inl (RateLimitedError r wait), s1)
      | (Inl e, s1) \<Rightarrow> (Inl e, s1))"

definition rate_limited :: "api_error \<Rightarrow> bool" where
  "rate_limited e \<longleftrightarrow> (case e of RateLimitedError _ _ \<Rightarrow> True | _ \<Rightarrow> False)"

text \<open>
  \<open>enrich\<close>: the body, the status and the event's source time. (A merge that panics is not told
  apart from one that fails; \<open>merge_no_panic\<close> shows it does not happen.)
\<close>

definition enrich :: "enricher \<Rightarrow> string \<Rightarrow> bytes \<Rightarrow> api_env \<Rightarrow> api_state \<Rightarrow> (bytes \<times> string \<times> gtime) \<times> api_state" where
  "enrich c eventType body env s =
     (if eventType \<noteq> ''pull_request'' then ((body, statusSkipped, zero_time), s)
      else case unmarshal (dec_struct pr_envelope_fields) zero_pr_envelope body of
        None \<Rightarrow> ((body, statusFailed, zero_time), s)
      | Some pe \<Rightarrow>
          if pv_Installation pe = 0 \<or> pv_FullName pe = [] then ((body, statusFailed, zero_time), s)
          else
            let t = pt_UpdatedAt (pv_PullRequest pe);
                occurredAt = (if is_zero t then pt_CreatedAt (pv_PullRequest pe) else t)
            in if \<not> en_client c then ((body, statusDisabled, occurredAt), s)
               else case fetchEnrichment c pe env s of
                 (Inl e, s') \<Rightarrow> ((body, if rate_limited e then statusRateLimited else statusFailed, occurredAt), s')
               | (Inr enr, s') \<Rightarrow>
                   (case mergeEnrichment body enr of
                      Inl _ \<Rightarrow> ((body, statusFailed, occurredAt), s')
                    | Inr merged \<Rightarrow> ((merged, statusEnriched, occurredAt), s')))"

text \<open>The message \<open>process\<close> hands to the writer; \<open>inject\<close> is what the tracer injects.\<close>

definition enriched_message :: "enricher \<Rightarrow> headers \<Rightarrow> message \<Rightarrow> api_env \<Rightarrow> api_state \<Rightarrow> message \<times> api_state" where
  "enriched_message c inject msg env s =
     (case enrich c (hget (msg_Headers msg) HeaderGitHubEvent) (msg_Value msg) env s of
        ((body, status, occurredAt), s') \<Rightarrow>
          (let h = (msg_Headers msg)(HeaderEnrichStatus \<mapsto> status);
               h = (if is_zero occurredAt then h else h(HeaderOccurredAt \<mapsto> format_rfc3339 (to_utc occurredAt)))
           in (\<lparr>msg_Key = msg_Key msg, msg_Value = body, msg_Headers = h ++ inject\<rparr>, s')))"

end
