(* ===== verification/EnricherFacts.thy ===== *)
theory EnricherFacts
  imports Enricher
begin

text \<open>
  The laws of the enrichment stage: an enrichment written as JSON reads back as the connector's
  \<open>_enrichment\<close> block, whatever the client returns can be written and read, and a merged
  payload decodes to the payload with that block and nothing else changed.
\<close>

section \<open>An enrichment reads back\<close>

text \<open>What \<open>applyEnrichment\<close> of the connector sees.\<close>

definition overlay :: "enrichment \<Rightarrow> pr_enrichment" where
  "overlay e =
     \<lparr>en_Additions = Some (pe_Additions e), en_Deletions = Some (pe_Deletions e),
      en_ChangedFiles = Some (pe_ChangedFiles e), en_CommitOIDs = pe_CommitOIDs e, en_Files = pe_Files e\<rparr>"

definition file_ok :: "file_change \<Rightarrow> bool" where
  "file_ok f \<longleftrightarrow> valid_utf8 (fc_Path f) \<and> valid_utf8 (fc_Patch f) \<and> in64 (fc_Additions f) \<and> in64 (fc_Deletions f)"

definition enrichment_ok :: "enrichment \<Rightarrow> bool" where
  "enrichment_ok e \<longleftrightarrow> in64 (pe_Additions e) \<and> in64 (pe_Deletions e) \<and> in64 (pe_ChangedFiles e) \<and>
     list_all valid_utf8 (elems (pe_CommitOIDs e)) \<and> list_all file_ok (elems (pe_Files e))"

lemma key_names [simp]:
  "unquote (quote ''path'') = ''path''" "unquote (quote ''additions'') = ''additions''"
  "unquote (quote ''deletions'') = ''deletions''" "unquote (quote ''patch'') = ''patch''"
  "unquote (quote ''truncated'') = ''truncated''" "unquote (quote ''changed_files'') = ''changed_files''"
  "unquote (quote ''commit_oids'') = ''commit_oids''" "unquote (quote ''files'') = ''files''"
  "unquote (quote ''_enrichment'') = ''_enrichment''"
  by code_simp+

lemma dec_enc_string [simp]: "valid_utf8 s \<Longrightarrow> dec_string (enc_string s) a = Some s"
  by (simp add: enc_string_def unquote_quote)

lemma dec_enc_int [simp]: "in64 x \<Longrightarrow> dec_int (enc_int x) a = Some x"
  by (simp add: enc_int_def parse_int_show_int)

lemma enc_not_null [simp]: "enc_string s \<noteq> JNull" "enc_int x \<noteq> JNull" "enc_members kvs \<noteq> JNull"
  by (simp_all add: enc_string_def enc_int_def enc_members_def)

lemma dec_enc_slice:
  assumes "\<And>x. P x \<Longrightarrow> d (e x) zero = Some x" "list_all P (elems s)"
  shows "dec_slice zero d (enc_slice e s) None = Some s"
proof (cases s)
  case (Some xs)
  have "dec_elems zero d (map e ys) [] = Some ys" if "list_all P ys" for ys
    using that by (induction ys) (simp_all add: assms(1))
  with Some assms(2) show ?thesis by (simp add: dec_slice_def enc_slice_def)
qed (simp add: dec_slice_def enc_slice_def)

lemma dec_enc_file: "file_ok f \<Longrightarrow> dec_struct file_fields (enc_file f) zero_file = Some f"
  by (cases f) (auto simp: file_ok_def enc_file_def enc_members_def file_fields_def find_field_def fld_def zero_file_def)

lemma dec_enc_enrichment:
  assumes "enrichment_ok e"
  shows "dec_struct pr_enrichment_fields (enc_enrichment e) zero_pr_enrichment = Some (overlay e)"
proof -
  have "dec_slice [] dec_string (enc_slice enc_string (pe_CommitOIDs e)) None = Some (pe_CommitOIDs e)"
    using assms by (intro dec_enc_slice [where P = valid_utf8]) (simp_all add: enrichment_ok_def)
  moreover have "dec_slice zero_file (dec_struct file_fields) (enc_slice enc_file (pe_Files e)) None = Some (pe_Files e)"
    using assms dec_enc_file by (intro dec_enc_slice [where P = file_ok]) (simp_all add: enrichment_ok_def)
  ultimately show ?thesis
    using assms
    by (simp add: enrichment_ok_def enc_enrichment_def enc_members_def pr_enrichment_fields_def find_field_def fld_def
        zero_pr_enrichment_def dec_ptr_def overlay_def)
qed

lemma enc_ok_file [enc_safe]: "enc_ok (enc_file f)"
  unfolding enc_file_def by (intro enc_safe) (simp add: enc_safe)

lemma enc_ok_enrichment [enc_safe]: "enc_ok (enc_enrichment e)"
  unfolding enc_enrichment_def by (intro enc_safe) (simp add: enc_safe)

lemma foldr_max_le: "foldr max xs 0 \<le> n \<longleftrightarrow> list_all (\<lambda>x. x \<le> n) xs" for n :: nat
  by (induction xs) auto

lemma depth_enc [simp]: "json_depth (enc_string s) = 0" "json_depth (enc_int x) = 0"
  by (simp_all add: enc_string_def enc_int_def)

lemma depth_members: "\<forall>kv \<in> set m. json_depth (snd kv) \<le> n \<Longrightarrow> json_depth (JObj m) \<le> Suc n"
  by (auto simp: foldr_max_le list_all_iff)

lemma depth_file: "json_depth (enc_file f) \<le> 1"
  by (simp add: enc_file_def enc_members_def foldr_max_le)

lemma depth_slice: "(\<And>x. json_depth (e x) \<le> n) \<Longrightarrow> json_depth (enc_slice e s) \<le> Suc n"
  by (auto simp: enc_slice_def foldr_max_le list_all_iff split: option.split)

lemma depth_enrichment: "json_depth (enc_enrichment e) \<le> 3"
proof -
  have "json_depth (enc_slice enc_string (pe_CommitOIDs e)) \<le> 2" "json_depth (enc_slice enc_file (pe_Files e)) \<le> 2"
    using depth_slice [of enc_string 1] depth_slice [of enc_file 1] depth_file by (simp_all add: eval_nat_numeral)
  then show ?thesis by (simp add: enc_enrichment_def enc_members_def foldr_max_le eval_nat_numeral)
qed

section \<open>What the client returns can be written\<close>

lemma json_parse_wf_tree: "json_parse b = Some j \<Longrightarrow> wf_json j"
  using json_parse_wf by blast

lemma unmarshal_yields: "yields P d \<Longrightarrow> P zero \<Longrightarrow> unmarshal d zero b = Some x \<Longrightarrow> P x"
  by (auto simp: unmarshal_def split: option.splits intro: yieldsD json_parse_wf_tree)

lemma zero_valid [simp]: "valid_utf8 []" "in64 0"
  by (simp_all add: in64_def min64_def max64_def)

lemma yields_only [yield_rules]: "yields P d \<Longrightarrow> yields P (only_field n d)"
  unfolding only_field_def by (rule yields_struct) (simp add: yields_fld)

lemma yields_file: "yields file_ok (dec_struct file_fields)"
  unfolding file_fields_def
  by (rule yields_struct; simp; intro conjI; rule yields_fld, rule yields_string yields_int yields_bool; simp add: file_ok_def)

lemma yields_file' : "yields (\<lambda>s. list_all file_ok (elems s)) (dec_slice zero_file (dec_struct file_fields))"
  by (rule yields_slice [OF yields_file]) (simp add: file_ok_def zero_file_def)

definition detail_ok :: "pr_detail \<Rightarrow> bool" where
  "detail_ok d \<longleftrightarrow> in64 (pd_Additions d) \<and> in64 (pd_Deletions d) \<and> in64 (pd_ChangedFiles d) \<and>
     list_all valid_utf8 (elems (pd_Commits d)) \<and> list_all file_ok (elems (pd_Files d))"

lemma yields_detail: "yields detail_ok dec_pr_detail"
  unfolding dec_pr_detail_def
proof (intro yields_only yields_struct)
  have c: "yields (\<lambda>s. list_all valid_utf8 (elems s)) (only_field ''nodes'' (dec_slice [] (only_field ''commit'' (only_field ''oid'' dec_string))))"
    by (intro yield_rules) simp
  have f: "yields (\<lambda>s. list_all file_ok (elems s)) (only_field ''nodes'' (dec_slice zero_file (dec_struct file_fields)))"
    by (intro yields_only yields_file')
  show "list_all (\<lambda>f. yields detail_ok (snd f)) pr_detail_fields"
    unfolding pr_detail_fields_def
    by (simp; intro conjI; rule yields_fld, rule yields_int c f; simp add: detail_ok_def)
qed

definition data_ok :: "graphql_envelope \<Rightarrow> bool" where
  "data_ok g \<longleftrightarrow> (\<forall>j. ge_Data g = Some j \<longrightarrow> wf_json j)"

lemma yields_envelope: "yields data_ok (dec_struct graphql_envelope_fields)"
proof (rule yields_struct)
  have r: "yields (\<lambda>r. \<forall>j. r = Some j \<longrightarrow> wf_json j) dec_raw" by (simp add: yields_def dec_raw_def)
  have t: "yields (\<lambda>_. True) d" for d :: "'x dec" by (simp add: yields_def)
  show "list_all (\<lambda>f. yields data_ok (snd f)) graphql_envelope_fields"
    unfolding graphql_envelope_fields_def
    by (simp; intro conjI; rule yields_fld, rule r t; simp add: data_ok_def)
qed

lemma GraphQL_data:
  assumes "GraphQL i q vars cost env s = (Inr (Some j), s')" shows "wf_json j"
proof -
  from assms [unfolded GraphQL_def] obtain reg where
    "eff_bind (Token i) (\<lambda>tok. eff_bind (eff_ask ae_base) (\<lambda>base.
        eff_bind (api_request ''POST'' (base @ ''/graphql'') ((token_headers tok Map.empty)(''Content-Type'' \<mapsto> ''application/json'')) (graphql_body q vars)) (\<lambda>rq.
        eff_bind (api_send rq) (\<lambda>resp.
        eff_bind (api_body (16 * mib) resp) (\<lambda>body.
        eff_bind (api_decode (dec_struct graphql_envelope_fields) zero_graphql_envelope body) (\<lambda>reply.
        if length (elems (ge_Errors reply)) > 0 then eff_fail (GraphQLError (elems (ge_Errors reply)))
        else eff_bind (api_observe i (observeGraphQLRate (ge_Data reply))) (\<lambda>_. eff_return (ge_Data reply))))))))
        env (s\<lparr>as_clock := Suc (as_clock s), as_budgets := reg\<rparr>) = (Inr (Some j), s')" by (rule gated_Inr)
  then obtain body reply where "unmarshal (dec_struct graphql_envelope_fields) zero_graphql_envelope body = Some reply" "ge_Data reply = Some j"
    by (elim eff_bind_Inr)
      (auto simp: api_decode_def api_observe_def eff_defs split: option.splits if_splits)
  with unmarshal_yields [OF yields_envelope _ this(1)] show ?thesis
    by (simp add: data_ok_def zero_graphql_envelope_def)
qed

lemma EnrichPullRequest_ok:
  assumes "EnrichPullRequest i repo number env s = (Inr e, s')" shows "enrichment_ok e"
proof -
  from assms obtain owner name where r: "splitRepo repo = (owner, name, True)"
    by (auto simp: EnrichPullRequest_def eff_fail_def split: prod.splits if_splits)
  with assms have "eff_bind (GraphQL i prEnrichQuery [(''owner'', enc_string owner), (''name'', enc_string name), (''number'', enc_int number)] 1)
      (\<lambda>data. case unmarshal_raw dec_pr_detail zero_pr_detail data of None \<Rightarrow> eff_fail api_error.DecodeError | Some pr \<Rightarrow> eff_return (enrichment_of pr))
      env s = (Inr e, s')"
    by (simp add: EnrichPullRequest_def)
  then obtain data s1 where g: "GraphQL i prEnrichQuery [(''owner'', enc_string owner), (''name'', enc_string name), (''number'', enc_int number)] 1 env s = (Inr data, s1)"
    and d: "(case unmarshal_raw dec_pr_detail zero_pr_detail data of None \<Rightarrow> eff_fail api_error.DecodeError | Some pr \<Rightarrow> eff_return (enrichment_of pr)) env s1 = (Inr e, s')"
    by (rule eff_bind_Inr)
  from d obtain j pr where j: "data = Some j" "dec_pr_detail j zero_pr_detail = Some pr" and e: "e = enrichment_of pr"
    by (auto simp: unmarshal_raw_def eff_defs split: option.splits)
  have "wf_json j" using GraphQL_data g j(1) by blast
  then have "detail_ok pr" using yieldsD [OF yields_detail _ _ j(2)] by (simp add: detail_ok_def zero_pr_detail_def)
  then show ?thesis
    by (auto simp: e enrichment_of_def Let_def detail_ok_def enrichment_ok_def list_all_iff)
qed

lemma FetchPullRequestPatches_ok:
  assumes "FetchPullRequestPatches i repo number n env s = (Inr files, s')" shows "list_all file_ok files"
proof -
  let ?P = "\<lambda>f. valid_utf8 (pf_Filename f) \<and> valid_utf8 (pf_Patch f) \<and> in64 (pf_Additions f) \<and> in64 (pf_Deletions f)"
  from assms obtain body raw where raw: "unmarshal (dec_slice zero_pr_file (dec_struct pr_file_fields)) None body = Some raw"
    "files = map (file_of n) (elems raw)"
    unfolding FetchPullRequestPatches_def
    by (elim eff_bind_Inr) (auto simp: api_decode_def eff_defs split: option.splits)
  have "yields ?P (dec_struct pr_file_fields)"
    unfolding pr_file_fields_def
    by (rule yields_struct; simp; intro conjI; rule yields_fld, rule yields_string yields_int; simp)
  then have "yields (\<lambda>s. list_all ?P (elems s)) (dec_slice zero_pr_file (dec_struct pr_file_fields))"
    by (rule yields_slice) (simp add: zero_pr_file_def)
  from unmarshal_yields [OF this _ raw(1)] show ?thesis
    unfolding raw(2) by (auto simp: list_all_iff file_ok_def file_of_def Let_def zero_file_def)
qed

lemma fetchEnrichment_ok:
  assumes "fetchEnrichment c pe env s = (Inr e, s')" shows "enrichment_ok e"
proof -
  have add: "enrichment_ok e" if "addPatches c pe e0 env s0 = (Inr e, s')" "enrichment_ok e0" for e0 s0
    using that FetchPullRequestPatches_ok
    by (auto simp: addPatches_def enrichment_ok_def split: if_splits prod.splits sum.splits)
  show ?thesis
  proof (cases "EnrichPullRequest (pv_Installation pe) (pv_FullName pe) (pv_Number pe) env s")
    case (Pair r s1)
    show ?thesis
    proof (cases r)
      case (Inr e0)
      with Pair assms have "addPatches c pe e0 env s1 = (Inr e, s')" by (simp add: fetchEnrichment_def)
      with add EnrichPullRequest_ok Pair Inr show ?thesis by blast
    next
      case (Inl err)
      with Pair assms have "eff_bind (EnrichPullRequest (pv_Installation pe) (pv_FullName pe) (pv_Number pe)) (addPatches c pe) env s1 = (Inr e, s')"
        by (cases err) (auto simp: fetchEnrichment_def split: if_splits)
      then show ?thesis by (rule eff_bind_Inr) (use add EnrichPullRequest_ok in blast)
    qed
  qed
qed

section \<open>Merging\<close>

lemma update_fresh: "k \<notin> fst ` set xs \<Longrightarrow> AList.update k v xs = xs @ [(k, v)]"
  by (induction xs) auto

lemma raw_map_distinct:
  assumes "distinct (map (\<lambda>kv. unquote (fst kv)) m)"
  shows "raw_map m = map (\<lambda>(k, v). (unquote k, v)) m"
proof -
  have "foldl (\<lambda>acc (k, v). AList.update (unquote k) v acc) acc m = acc @ map (\<lambda>(k, v). (unquote k, v)) m"
    if "distinct (map fst acc @ map (\<lambda>kv. unquote (fst kv)) m)" for acc
    using that
  proof (induction m arbitrary: acc)
    case (Cons kv m)
    obtain k v where kv: "kv = (k, v)" by fastforce
    with Cons.prems have "unquote k \<notin> fst ` set acc" by auto
    with Cons.IH [of "acc @ [(unquote k, v)]"] Cons.prems kv show ?case by (simp add: update_fresh)
  qed simp
  from this [of "[]"] assms show ?thesis by (simp add: raw_map_def)
qed

lemma unquote_stable: "wf_lit k \<Longrightarrow> unquote (quote (unquote k)) = unquote k"
  by (simp add: unquote_quote valid_utf8_unquote)

lemma dec_members_requoted:
  "list_all (\<lambda>(k, v). wf_lit k \<and> wf_json v) m \<Longrightarrow>
   dec_members fs (map (\<lambda>(k, v). (quote (unquote k), v)) m) a = dec_members fs m a"
  by (induction m arbitrary: a) (auto simp: unquote_stable split: option.split intro!: Option.bind_cong)

lemma mkey_requoted:
  "list_all (\<lambda>(k, v). wf_lit k \<and> wf_json v) m \<Longrightarrow> map mkey (map (\<lambda>(k, v). (quote (unquote k), v)) m) = map mkey m"
  by (induction m) (auto simp: mkey_def unquote_stable)

lemma esc_inv_table: "list_all (\<lambda>f. esc_inv (snd f)) fs \<Longrightarrow> esc_inv (dec_struct fs)"
  by (rule esc_inv_struct) (simp add: split_def)

lemma esc_inv_payload: "esc_inv (dec_struct pr_payload_fields)"
proof -
  have actor [esc_invs]: "esc_inv (dec_struct actor_fields)"
    by (rule esc_inv_table) (simp add: actor_fields_def esc_invs)
  have pr: "esc_inv (dec_struct pull_request_fields)"
    by (rule esc_inv_table) (simp add: pull_request_fields_def esc_invs actor)
  have repo: "esc_inv (dec_struct repository_fields)"
    by (rule esc_inv_table) (simp add: repository_fields_def esc_invs)
  have inst: "esc_inv (dec_struct installation_fields)"
    by (rule esc_inv_table) (simp add: installation_fields_def esc_invs)
  have fc: "esc_inv (dec_struct file_fields)"
    by (rule esc_inv_table) (simp add: file_fields_def esc_invs)
  have enr: "esc_inv (dec_struct pr_enrichment_fields)"
    by (rule esc_inv_table) (simp add: pr_enrichment_fields_def esc_invs fc)
  show ?thesis
    by (rule esc_inv_table) (simp add: pr_payload_fields_def esc_invs pr repo inst enr)
qed

lemma no_enrichment:
  assumes "dec_members pr_payload_fields m zero_pr_payload = Some p" "''_enrichment'' \<notin> mkey ` set m"
  shows "pp_Enrichment p = None"
proof -
  have "keeps pp_Enrichment d" if "(n, d) \<in> set pr_payload_fields" "fold_name n \<noteq> ''_enrichment''" for n d
    using that by (auto simp: pr_payload_fields_def keeps_def fld_def)
  from pr_table.members_keep [OF this assms(2,1)] show ?thesis by (simp add: zero_pr_payload_def)
qed

lemma dec_enrichment_member:
  assumes "enrichment_ok enr" "pp_Enrichment p = None"
  shows "dec_members pr_payload_fields [(quote ''_enrichment'', enc_enrichment enr)] p =
    Some (p\<lparr>pp_Enrichment := Some (overlay enr)\<rparr>)"
proof -
  have "find_field pr_payload_fields ''_enrichment'' =
      Some (snd (fld ''_enrichment'' pp_Enrichment pp_Enrichment_update (dec_ptr zero_pr_enrichment (dec_struct pr_enrichment_fields))))"
    by (rule pr_table.find_name) (simp add: pr_payload_fields_def fld_def)
  moreover have "dec_ptr zero_pr_enrichment (dec_struct pr_enrichment_fields) (enc_enrichment enr) None = Some (Some (overlay enr))"
    using dec_enc_enrichment [OF assms(1)] by (simp add: dec_ptr_def enc_enrichment_def)
  ultimately show ?thesis using assms(2) by (simp add: fld_def)
qed

text \<open>
  The payload has an object's members, no two of which Go reads into the same field, and no
  block of its own.
\<close>

definition plain_object :: "bytes \<Rightarrow> bool" where
  "plain_object body \<longleftrightarrow>
     (case json_parse body of
        Some (JObj m) \<Rightarrow> distinct (map mkey m) \<and> ''_enrichment'' \<notin> mkey ` set m
      | _ \<Rightarrow> False)"

lemma merge_decodes:
  assumes "plain_object body" "enrichment_ok enr"
  obtains merged where "mergeEnrichment body enr = Inr merged"
    "unmarshal (dec_struct pr_payload_fields) zero_pr_payload merged =
     map_option (\<lambda>p. p\<lparr>pp_Enrichment := Some (overlay enr)\<rparr>)
       (unmarshal (dec_struct pr_payload_fields) zero_pr_payload body)"
proof -
  from assms(1) obtain m where parse: "json_parse body = Some (JObj m)" and d: "distinct (map mkey m)"
    and k: "''_enrichment'' \<notin> mkey ` set m"
    by (auto simp: plain_object_def split: option.splits json.splits)
  from json_parse_wf [OF parse] have wf: "list_all (\<lambda>(k, v). wf_lit k \<and> wf_json v) m"
    and depth: "json_depth (JObj m) \<le> 10000" by auto
  have "distinct (map (\<lambda>kv. unquote (fst kv)) m)"
    using d by (auto simp: distinct_map mkey_def inj_on_def)
  then have raw: "raw_map m = map (\<lambda>(k, v). (unquote k, v)) m" by (rule raw_map_distinct)
  have "fst ` set (raw_map m) = (\<lambda>kv. unquote (fst kv)) ` set m" unfolding raw by force
  moreover have "''_enrichment'' \<noteq> unquote (fst kv)" if "kv \<in> set m" for kv
  proof
    assume "''_enrichment'' = unquote (fst kv)"
    then have "mkey kv = ''_enrichment''" unfolding mkey_def by (metis lower_names(6))
    with k that show False by (metis imageI)
  qed
  ultimately have fresh: "''_enrichment'' \<notin> fst ` set (raw_map m)" by auto
  let ?q = "map (\<lambda>(k, v). (quote k, v))"
  let ?e = "(''_enrichment'', enc_enrichment enr)"
  let ?s = "?q (sort_key fst (raw_map m @ [?e]))"
  let ?u = "map (\<lambda>(k, v). (quote (unquote k), v)) m @ [(quote ''_enrichment'', enc_enrichment enr)]"
  have merged: "mergeEnrichment body enr = Inr (json_print (JObj ?s))"
    using parse fresh by (simp add: mergeEnrichment_def update_fresh enc_map_def enc_members_def)
  have u: "?q (raw_map m @ [?e]) = ?u" unfolding raw by (simp add: split_def)
  have "mset ?s = mset (?q (raw_map m @ [?e]))" by simp
  then have ms: "mset ?s = mset ?u" by (simp only: u)
  then have set: "set ?s = set ?u" by (rule mset_eq_setD)
  have enr: "wf_json (enc_enrichment enr)" using enc_ok_enrichment by (simp add: enc_ok_def)
  have "list_all (\<lambda>(k, v). wf_lit k \<and> wf_json v) ?u"
    using wf enr by (auto simp: list_all_iff)
  then have "wf_json (JObj ?s)" unfolding wf_json.simps list_all_iff set .
  moreover have "json_depth (JObj ?s) \<le> 10000"
  proof -
    have "\<forall>kv \<in> set ?u. json_depth (snd kv) \<le> 9999"
      using depth depth_enrichment [of enr] by (auto simp: foldr_max_le list_all_iff)
    then have "\<forall>kv \<in> set ?s. json_depth (snd kv) \<le> 9999" unfolding set .
    then have "json_depth (JObj ?s) \<le> Suc 9999" by (rule depth_members)
    then show ?thesis by simp
  qed
  ultimately have "unmarshal (dec_struct pr_payload_fields) zero_pr_payload (json_print (JObj ?s)) = dec_members pr_payload_fields ?s zero_pr_payload"
    unfolding dec_struct.simps(2) [symmetric] by (rule unmarshal_print [OF _ _ esc_inv_payload])
  also have "\<dots> = dec_members pr_payload_fields ?u zero_pr_payload"
  proof (rule pr_table.members_perm [OF ms])
    have "map mkey ?u = map mkey m @ [''_enrichment'']"
      unfolding map_append mkey_requoted [OF wf] by (simp add: mkey_def)
    moreover have "distinct (map mkey m @ [''_enrichment''])" using d k by simp
    ultimately have "distinct (map mkey ?u)" by (simp only:)
    moreover have "mset (map mkey ?s) = mset (map mkey ?u)" using arg_cong [OF ms, of "image_mset mkey"] unfolding mset_map [of mkey] .
    ultimately show "distinct (map mkey ?s)" using mset_eq_imp_distinct_iff by blast
  qed
  also have "\<dots> = Option.bind (dec_members pr_payload_fields m zero_pr_payload)
      (dec_members pr_payload_fields [(quote ''_enrichment'', enc_enrichment enr)])"
    unfolding dec_members_append dec_members_requoted [OF wf] ..
  also have "\<dots> = map_option (\<lambda>p. p\<lparr>pp_Enrichment := Some (overlay enr)\<rparr>) (dec_members pr_payload_fields m zero_pr_payload)"
    using dec_enrichment_member [OF assms(2) no_enrichment [OF _ k]]
    by (cases "dec_members pr_payload_fields m zero_pr_payload") (simp_all del: dec_members.simps)
  finally show ?thesis using that merged parse by (simp add: unmarshal_def)
qed

end
