(* ===== verification/EnricherProps.thy ===== *)
theory EnricherProps
  imports EnricherFacts
begin

text \<open>
  The properties of the enrichment stage: a fetched enrichment is always merged, a merged payload
  normalizes to the original's result with the enrichment in its work item, and a message keeps
  its key, its headers and, when nothing was merged, its bytes.
\<close>

section \<open>What \<open>enrich\<close> returns\<close>

definition statuses :: "string set" where
  "statuses = {statusEnriched, statusSkipped, statusDisabled, statusFailed, statusRateLimited}"

lemmas status_defs =
  statusEnriched_def statusSkipped_def statusDisabled_def statusFailed_def statusRateLimited_def

lemma enrich_cases:
  assumes "enrich c ev body env s = ((out, st, t), s')"
  obtains (kept) "out = body" "st \<in> statuses" "st \<noteq> statusEnriched"
  | (merged) pe enr where "st = statusEnriched" "ev = ''pull_request''" "en_client c"
      "unmarshal (dec_struct pr_envelope_fields) zero_pr_envelope body = Some pe"
      "fetchEnrichment c pe env s = (Inr enr, s')" "mergeEnrichment body enr = Inr out"
  using assms
  by (auto simp: enrich_def Let_def statuses_def status_defs split: if_splits option.splits sum.splits prod.splits)

text \<open>
  The nil map is never stored into: a document that decodes to an envelope with an installation
  is an object, so what was fetched for it is merged.
\<close>

lemma envelope_object:
  assumes "unmarshal (dec_struct pr_envelope_fields) zero_pr_envelope body = Some pe" "pv_Installation pe \<noteq> 0"
  obtains m where "json_parse body = Some (JObj m)"
proof -
  from assms(1) obtain j where j: "json_parse body = Some j" "dec_struct pr_envelope_fields j zero_pr_envelope = Some pe"
    by (auto simp: unmarshal_def split: option.splits)
  with assms(2) that show ?thesis by (cases j) (auto simp: zero_pr_envelope_def)
qed

text \<open>
  A fetched enrichment is never lost: for a pull request event whose envelope names an
  installation and a repository, once the calls to GitHub succeed the stage emits a merged
  payload with status enriched; the merge neither fails nor stores into a nil map.
\<close>

theorem enrich_merges:
  assumes "unmarshal (dec_struct pr_envelope_fields) zero_pr_envelope body = Some pe"
    "pv_Installation pe \<noteq> 0" "pv_FullName pe \<noteq> []" "en_client c" "fetchEnrichment c pe env s = (Inr enr, s')"
  shows "\<exists>merged t. mergeEnrichment body enr = Inr merged \<and>
    enrich c ''pull_request'' body env s = ((merged, statusEnriched, t), s')"
proof -
  obtain m where "json_parse body = Some (JObj m)" using envelope_object [OF assms(1,2)] by blast
  with assms show ?thesis by (simp add: enrich_def mergeEnrichment_def Let_def)
qed

section \<open>Enrichment and normalization\<close>

definition enrich_item :: "enrichment \<Rightarrow> work_item \<Rightarrow> work_item" where
  "enrich_item e wi =
     wi\<lparr>wi_ChangedFiles := pe_ChangedFiles e, wi_Additions := pe_Additions e, wi_Deletions := pe_Deletions e,
        wi_CommitOIDs := pe_CommitOIDs e, wi_Files := pe_Files e\<rparr>"

definition enrich_result :: "enrichment \<Rightarrow> result \<Rightarrow> result" where
  "enrich_result e r = r\<lparr>rs_WorkItems := map (enrich_item e) (rs_WorkItems r)\<rparr>"

lemma apply_none: "applyEnrichment wi None = wi"
  by (simp add: applyEnrichment_def)

lemma apply_overlay: "applyEnrichment wi (Some (overlay e)) = enrich_item e wi"
  by (simp add: applyEnrichment_def overlay_def enrich_item_def)

lemma enrich_item_later:
  "(enrich_item e wi)\<lparr>wi_Event := ev\<rparr> = enrich_item e (wi\<lparr>wi_Event := ev\<rparr>)"
  "(enrich_item e wi)\<lparr>wi_OccurredAt := x\<rparr> = enrich_item e (wi\<lparr>wi_OccurredAt := x\<rparr>)"
  "workItemOccurredAt (enrich_item e wi) = workItemOccurredAt wi"
  by (simp_all add: enrich_item_def workItemOccurredAt_def split: option.split)

lemma pullRequestResult_overlay:
  assumes "pp_Enrichment p = None"
  shows "pullRequestResult (p\<lparr>pp_Enrichment := Some (overlay e)\<rparr>) = map_sum id (enrich_result e) (pullRequestResult p)"
proof (cases "in_ID (pp_Installation p) = 0")
  case False
  let ?pr = "if pr_Number (pp_PullRequest p) = 0 then (pp_PullRequest p)\<lparr>pr_Number := pp_Number p\<rparr> else pp_PullRequest p"
  define wi where "wi = (prWorkItem ?pr (rp_FullName (pp_Repository p)))\<lparr>wi_Event := workItemEvent (pp_Action p)\<rparr>"
  define r where "r = zero_result\<lparr>rs_InstallationID := in_ID (pp_Installation p), rs_WorkItems := [wi\<lparr>wi_OccurredAt := workItemOccurredAt wi\<rparr>]\<rparr>"
  have "pullRequestResult p = Inr r"
    unfolding pullRequestResult_def Let_def assms apply_none r_def wi_def by (rule if_not_P [OF False])
  moreover have "pullRequestResult (p\<lparr>pp_Enrichment := Some (overlay e)\<rparr>) = Inr (enrich_result e r)"
  proof -
    have "enrich_result e r = zero_result\<lparr>rs_InstallationID := in_ID (pp_Installation p),
        rs_WorkItems := [enrich_item e (wi\<lparr>wi_OccurredAt := workItemOccurredAt wi\<rparr>)]\<rparr>"
      by (simp add: enrich_result_def r_def)
    with False show ?thesis
      by (simp add: pullRequestResult_def Let_def apply_overlay enrich_item_later wi_def)
  qed
  ultimately show ?thesis by simp
qed (simp add: pullRequestResult_def)

lemma normalize_merged:
  assumes "plain_object body" "enrichment_ok enr" "mergeEnrichment body enr = Inr merged"
  shows "map_sum (\<lambda>_. ()) id (normalizePullRequest merged) = map_sum (\<lambda>_. ()) (enrich_result enr) (normalizePullRequest body)"
proof -
  have u: "unmarshal (dec_struct pr_payload_fields) zero_pr_payload merged =
      map_option (\<lambda>p. p\<lparr>pp_Enrichment := Some (overlay enr)\<rparr>) (unmarshal (dec_struct pr_payload_fields) zero_pr_payload body)"
    using merge_decodes [OF assms(1,2)] assms(3) by force
  show ?thesis
  proof (cases "unmarshal (dec_struct pr_payload_fields) zero_pr_payload body")
    case None
    with u show ?thesis by (simp add: normalizePullRequest_def decode_def res_bind_def)
  next
    case (Some p)
    from assms(1) Some obtain m where "dec_members pr_payload_fields m zero_pr_payload = Some p" "''_enrichment'' \<notin> mkey ` set m"
      by (auto simp: plain_object_def unmarshal_def split: option.splits json.splits)
    then have "pp_Enrichment p = None" by (rule no_enrichment)
    with Some u show ?thesis
      by (simp add: normalizePullRequest_def decode_def res_bind_def pullRequestResult_overlay sum.map_comp comp_def)
  qed
qed

text \<open>
  C28. Enrichment changes nothing but what it adds: for a payload that is an object without
  repeated members and without a block of its own, what the normalizer makes of the enriched
  bytes is what it makes of the original's, with the fetched churn, commits and files in the
  work item; it rejects one exactly when it rejects the other. So re-marshalling the payload,
  which reorders and re-escapes it, loses nothing the connector reads.
\<close>

theorem enrich_equivalent:
  assumes "enrich c ev body env s = ((out, statusEnriched, t), s')" "plain_object body"
  shows "\<exists>pe enr. unmarshal (dec_struct pr_envelope_fields) zero_pr_envelope body = Some pe \<and>
    fetchEnrichment c pe env s = (Inr enr, s') \<and>
    map_sum (\<lambda>_. ()) id (normalizePullRequest out) = map_sum (\<lambda>_. ()) (enrich_result enr) (normalizePullRequest body)"
  using assms(1)
proof (cases rule: enrich_cases)
  case (merged pe enr)
  with normalize_merged [OF assms(2) fetchEnrichment_ok] show ?thesis by blast
qed simp

section \<open>The message\<close>

lemma message_kept:
  assumes "enriched_message c inject msg env s = (out, s')" "HeaderEnrichStatus \<notin> dom inject"
  shows "msg_Key out = msg_Key msg \<and>
    (\<forall>h. h \<notin> {HeaderEnrichStatus, HeaderOccurredAt} \<union> dom inject \<longrightarrow> msg_Headers out h = msg_Headers msg h) \<and>
    (\<exists>st \<in> statuses. msg_Headers out HeaderEnrichStatus = Some st \<and>
      (st \<noteq> statusEnriched \<longrightarrow> msg_Value out = msg_Value msg))"
proof -
  obtain body st t s1 where e: "enrich c (hget (msg_Headers msg) HeaderGitHubEvent) (msg_Value msg) env s = ((body, st, t), s1)"
    by (metis surj_pair)
  have st: "st \<in> statuses" "st \<noteq> statusEnriched \<longrightarrow> body = msg_Value msg"
    using e by (cases rule: enrich_cases; simp add: statuses_def)+
  have "HeaderEnrichStatus \<noteq> HeaderOccurredAt" by (simp add: header_names)
  with assms e st show ?thesis
    by (auto simp: enriched_message_def Let_def map_add_def domIff split: option.splits)
qed

text \<open>
  C29. The stage passes a message through: its key and every header but the two it sets and those
  of the trace are the original's, it records one of the five outcomes, and whenever the outcome
  is not an enriched payload (another event, a malformed one, no credentials, a failed or
  rate-limited call) the bytes are the original's; so no failure of GitHub drops or damages a
  delivery.
\<close>

theorem enrich_passthrough:
  assumes "enriched_message c inject msg env s = (out, s')" "HeaderEnrichStatus \<notin> dom inject"
  shows "msg_Key out = msg_Key msg \<and>
    (\<forall>h. h \<notin> {HeaderEnrichStatus, HeaderOccurredAt} \<union> dom inject \<longrightarrow> msg_Headers out h = msg_Headers msg h) \<and>
    (\<exists>st \<in> statuses. msg_Headers out HeaderEnrichStatus = Some st \<and>
      (st \<noteq> statusEnriched \<longrightarrow> msg_Value out = msg_Value msg))"
  using message_kept [OF assms] .

section \<open>Samples\<close>

definition churn_reply :: bytes where
  \<open>churn_reply = ''{"data":{"repository":{"pullRequest":{"additions":5,"deletions":2,"changedFiles":1,
     "commits":{"nodes":[{"commit":{"oid":"abc"}}]},
     "files":{"nodes":[{"path":"a.go","additions":5,"deletions":2}]}}}}}''\<close>

definition churn :: enrichment where
  "churn = \<lparr>pe_Additions = 5, pe_Deletions = 2, pe_ChangedFiles = 1, pe_CommitOIDs = Some [''abc''],
     pe_Files = Some [zero_file\<lparr>fc_Path := ''a.go'', fc_Additions := 5, fc_Deletions := 2\<rparr>]\<rparr>"

definition churn_env :: api_env where
  "churn_env = warm_env (\<lambda>_. answer 200 churn_reply)"

definition sample_installation :: int where
  "sample_installation = 42424242"

definition churn_state :: api_state where
  "churn_state = idle_state\<lparr>as_cache := [sample_installation \<mapsto> sample_token]\<rparr>"

definition sample_enricher :: enricher where
  "sample_enricher = \<lparr>en_client = True, en_fetchPatches = False, en_patchMaxBytes = 0, en_slept = False\<rparr>"

lemma churn_answer:
  "map_option (\<lambda>r. (elems (ge_Errors r), map_option enrichment_of (unmarshal_raw dec_pr_detail zero_pr_detail (ge_Data r))))
     (unmarshal (dec_struct graphql_envelope_fields) zero_graphql_envelope churn_reply) = Some ([], Some churn)"
  by code_simp

lemma limited_short: "int (length b) \<le> n \<Longrightarrow> limited n b = b"
  by (simp add: limited_def)

lemma Enrich_churn:
  "\<exists>s'. EnrichPullRequest sample_installation ''acme/app'' n churn_env churn_state = (Inr churn, s')"
proof -
  obtain rep where rep: "unmarshal (dec_struct graphql_envelope_fields) zero_graphql_envelope churn_reply = Some rep"
    "elems (ge_Errors rep) = []" "map_option enrichment_of (unmarshal_raw dec_pr_detail zero_pr_detail (ge_Data rep)) = Some churn"
    using churn_answer by (auto simp: map_option_eq_Some)
  have len: "limited (16 * mib) churn_reply = churn_reply"
    by (rule limited_short) (simp add: churn_reply_def mib_def)
  obtain reg where r: "reserve_for zero_time sample_installation GraphQLPool 1 (as_budgets churn_state) = ((0, True), reg)"
    by (simp add: churn_state_def idle_state_def reserve_for_def Reserve_def reserve_pool_def budget_for_def NewBudget_def
        pool_of_def zero_pool_def Let_def)
  have cache: "as_cache churn_state sample_installation = Some sample_token" by (simp add: churn_state_def)
  have "\<exists>s'. GraphQL sample_installation q vars 1 churn_env churn_state = (Inr (ge_Data rep), s')" for q vars
    unfolding GraphQL_def gated_def churn_env_def
    by (simp add: eff_defs api_reserve_def r Token_warm cache api_send_def api_request_cases answer_def api_body_def api_decode_def
        len rep(1,2) api_observe_def)
  moreover have "splitRepo ''acme/app'' = (''acme'', ''app'', True)" by code_simp
  ultimately show ?thesis
    using rep(3) unfolding EnrichPullRequest_def eff_bind_def
    by (simp add: eff_return_def) (metis (no_types, lifting) eff_return_def old.prod.case old.sum.simps(6) option.simps(5))
qed

lemma sample_envelope:
  "map_option (\<lambda>pe. (pv_Installation pe, pv_FullName pe)) (unmarshal (dec_struct pr_envelope_fields) zero_pr_envelope sample_pr) =
    Some (sample_installation, ''acme/app'')"
  by code_simp

lemma fetch_churn:
  obtains pe s' where "unmarshal (dec_struct pr_envelope_fields) zero_pr_envelope sample_pr = Some pe"
    "pv_Installation pe \<noteq> 0" "pv_FullName pe \<noteq> []" "fetchEnrichment sample_enricher pe churn_env churn_state = (Inr churn, s')"
proof -
  obtain pe where pe: "unmarshal (dec_struct pr_envelope_fields) zero_pr_envelope sample_pr = Some pe"
    "pv_Installation pe = sample_installation" "pv_FullName pe = ''acme/app''"
    using sample_envelope by (auto simp: map_option_eq_Some)
  obtain s' where "EnrichPullRequest sample_installation ''acme/app'' (pv_Number pe) churn_env churn_state = (Inr churn, s')"
    using Enrich_churn by blast
  with pe(2,3) have "fetchEnrichment sample_enricher pe churn_env churn_state = (Inr churn, s')"
    by (simp add: fetchEnrichment_def addPatches_def sample_enricher_def)
  with pe that show ?thesis by (simp add: sample_installation_def)
qed

theorem enrich_merges_witness:
  "\<exists>merged t s'. mergeEnrichment sample_pr churn = Inr merged \<and>
     enrich sample_enricher ''pull_request'' sample_pr churn_env churn_state = ((merged, statusEnriched, t), s')"
proof -
  obtain pe s' where pe: "unmarshal (dec_struct pr_envelope_fields) zero_pr_envelope sample_pr = Some pe"
    "pv_Installation pe \<noteq> 0" "pv_FullName pe \<noteq> []" "fetchEnrichment sample_enricher pe churn_env churn_state = (Inr churn, s')"
    by (rule fetch_churn)
  have "en_client sample_enricher" by (simp add: sample_enricher_def)
  from enrich_merges [OF pe(1-3) this pe(4)] show ?thesis by blast
qed

lemma sample_merges:
  "\<exists>merged t s'. enrich sample_enricher ''pull_request'' sample_pr churn_env churn_state = ((merged, statusEnriched, t), s')"
proof -
  obtain pe s' where pe: "unmarshal (dec_struct pr_envelope_fields) zero_pr_envelope sample_pr = Some pe"
    "pv_Installation pe \<noteq> 0" "pv_FullName pe \<noteq> []" "fetchEnrichment sample_enricher pe churn_env churn_state = (Inr churn, s')"
    by (rule fetch_churn)
  obtain m where "json_parse sample_pr = Some (JObj m)" using envelope_object [OF pe(1,2)] by blast
  with pe show ?thesis by (simp add: enrich_def mergeEnrichment_def Let_def sample_enricher_def)
qed

theorem enrich_equivalent_witness:
  "\<exists>out t s' r. enrich sample_enricher ''pull_request'' sample_pr churn_env churn_state = ((out, statusEnriched, t), s') \<and>
     normalizePullRequest sample_pr = Inr r \<and> rs_WorkItems r \<noteq> [] \<and> normalizePullRequest out = Inr (enrich_result churn r)"
proof -
  obtain pe s' where pe: "unmarshal (dec_struct pr_envelope_fields) zero_pr_envelope sample_pr = Some pe"
    "pv_Installation pe \<noteq> 0" "pv_FullName pe \<noteq> []" "fetchEnrichment sample_enricher pe churn_env churn_state = (Inr churn, s')"
    by (rule fetch_churn)
  obtain m where "json_parse sample_pr = Some (JObj m)" using envelope_object [OF pe(1,2)] by blast
  with pe obtain out t where e: "enrich sample_enricher ''pull_request'' sample_pr churn_env churn_state = ((out, statusEnriched, t), s')"
    by (simp add: enrich_def mergeEnrichment_def Let_def sample_enricher_def)
  have "plain_object sample_pr" by code_simp
  from enrich_equivalent [OF e this] pe(1,4) have
    n: "map_sum (\<lambda>_. ()) id (normalizePullRequest out) = map_sum (\<lambda>_. ()) (enrich_result churn) (normalizePullRequest sample_pr)"
    by auto
  have "(case normalizePullRequest sample_pr of Inl _ \<Rightarrow> False | Inr r \<Rightarrow> rs_WorkItems r \<noteq> [])" by code_simp
  then obtain r where r: "normalizePullRequest sample_pr = Inr r" "rs_WorkItems r \<noteq> []" by (auto split: sum.splits)
  with n have "normalizePullRequest out = Inr (enrich_result churn r)" by (cases "normalizePullRequest out") simp_all
  with e r show ?thesis by blast
qed

theorem enrich_passthrough_witness:
  "msg_Value (fst (enriched_message sample_enricher Map.empty \<lparr>msg_Key = ''acme/app'', msg_Value = ''{}'',
      msg_Headers = [HeaderGitHubEvent \<mapsto> ''push'']\<rparr> churn_env churn_state)) = ''{}''"
proof -
  let ?msg = "\<lparr>msg_Key = ''acme/app'', msg_Value = ''{}'', msg_Headers = [HeaderGitHubEvent \<mapsto> ''push'']\<rparr>"
  obtain out s' where e: "enriched_message sample_enricher Map.empty ?msg churn_env churn_state = (out, s')" by fastforce
  have "enrich sample_enricher ''push'' ''{}'' churn_env churn_state = ((''{}'', statusSkipped, zero_time), churn_state)"
    by (simp add: enrich_def)
  with e have "msg_Headers out HeaderEnrichStatus = Some statusSkipped"
    by (auto simp: enriched_message_def Let_def zero_time_def is_zero_def header_names)
  with enrich_passthrough [OF e] show ?thesis by (auto simp: e status_defs)
qed

end
