(* ===== verification/ObjectStore.thy ===== *)
theory ObjectStore
  imports Prelude
begin

text \<open>
  The raw archive's object store (libs/go/objectstore/objectstore.go). The S3 service is not
  part of the code: its calls are arguments of the definitions, over a state of their own, and
  \<open>s3_put_law\<close> is what its documentation promises of a conditional put.
\<close>

section \<open>The code\<close>

text \<open>
  What the code can find in an error's chain: the two bucket errors, and the code of an API
  error.
\<close>

record s3_error =
  se_owned :: bool
  se_exists :: bool
  se_code :: "string option"

record put_input =
  pi_Bucket :: string
  pi_Key :: string
  pi_Body :: bytes
  pi_ContentType :: string
  pi_IfNoneMatch :: "string option"

type_synonym 's s3_call = "'s \<Rightarrow> s3_error option \<times> 's"

definition bucketAlreadyOwned :: "s3_error \<Rightarrow> bool" where
  "bucketAlreadyOwned err \<longleftrightarrow> se_owned err \<or> se_exists err"

definition preconditionFailed :: "s3_error \<Rightarrow> bool" where
  "preconditionFailed err \<longleftrightarrow>
     (case se_code err of None \<Rightarrow> False | Some code \<Rightarrow> code \<in> {''PreconditionFailed'', ''412''})"

definition ensureBucket :: "(string \<Rightarrow> 's s3_call) \<Rightarrow> (string \<Rightarrow> 's s3_call) \<Rightarrow> string \<Rightarrow> 's \<Rightarrow> (s3_error + unit) \<times> 's" where
  "ensureBucket head create bucket st =
     (case head bucket st of
        (None, st) \<Rightarrow> (Inr (), st)
      | (Some _, st) \<Rightarrow>
          (case create bucket st of
             (Some err, st) \<Rightarrow> (if \<not> bucketAlreadyOwned err then Inl err else Inr (), st)
           | (None, st) \<Rightarrow> (Inr (), st)))"

definition put_input :: "string \<Rightarrow> string \<Rightarrow> bytes \<Rightarrow> string \<Rightarrow> put_input" where
  "put_input bucket key value contentType =
     \<lparr>pi_Bucket = bucket, pi_Key = key, pi_Body = value, pi_ContentType = contentType, pi_IfNoneMatch = Some ''*''\<rparr>"

definition PutIfAbsent :: "(put_input \<Rightarrow> 's s3_call) \<Rightarrow> string \<Rightarrow> string \<Rightarrow> bytes \<Rightarrow> string \<Rightarrow> 's \<Rightarrow> (s3_error + bool) \<times> 's" where
  "PutIfAbsent put bucket key value contentType st =
     (case put (put_input bucket key value contentType) st of
        (None, st) \<Rightarrow> (Inr True, st)
      | (Some err, st) \<Rightarrow> (if preconditionFailed err then Inr False else Inl err, st))"

section \<open>The service\<close>

text \<open>
  The objects of a state, by bucket and key. An unconditional put stores its body. One with
  \<open>If-None-Match: *\<close> stores it only where there is no object, and fails with
  \<open>PreconditionFailed\<close> where there is one. A put that fails otherwise (a timeout, a refused
  connection) may or may not have stored what it was allowed to.
\<close>

type_synonym objects = "string \<times> string \<rightharpoonup> bytes"

definition put_allowed :: "objects \<Rightarrow> put_input \<Rightarrow> bool" where
  "put_allowed objs inp \<longleftrightarrow> pi_IfNoneMatch inp = None \<or> objs (pi_Bucket inp, pi_Key inp) = None"

definition stored :: "objects \<Rightarrow> put_input \<Rightarrow> objects" where
  "stored objs inp = objs((pi_Bucket inp, pi_Key inp) \<mapsto> pi_Body inp)"

definition s3_put_law :: "('s \<Rightarrow> objects) \<Rightarrow> (put_input \<Rightarrow> 's s3_call) \<Rightarrow> bool" where
  "s3_put_law objects put \<longleftrightarrow>
     (\<forall>inp st r st'. put inp st = (r, st') \<longrightarrow>
        (case r of
           None \<Rightarrow> put_allowed (objects st) inp \<and> objects st' = stored (objects st) inp
         | Some err \<Rightarrow>
             if preconditionFailed err then \<not> put_allowed (objects st) inp \<and> objects st' = objects st
             else objects st' = objects st \<or> put_allowed (objects st) inp \<and> objects st' = stored (objects st) inp))"

section \<open>What \<open>PutIfAbsent\<close> promises\<close>

lemma PutIfAbsent_cases:
  assumes "s3_put_law objects put" "PutIfAbsent put bucket key value ct st = (r, st')"
  obtains (written) "r = Inr True" "objects st (bucket, key) = None" "objects st' = (objects st)((bucket, key) \<mapsto> value)"
  | (present) "r = Inr False" "objects st (bucket, key) \<noteq> None" "objects st' = objects st"
  | (failed) err where "r = Inl err" "objects st' = objects st \<or>
      objects st (bucket, key) = None \<and> objects st' = (objects st)((bucket, key) \<mapsto> value)"
proof -
  obtain e where p: "put (put_input bucket key value ct) st = (e, st')"
    using assms(2) by (cases "put (put_input bucket key value ct) st") (auto simp: PutIfAbsent_def split: option.splits)
  then have "case e of
      None \<Rightarrow> put_allowed (objects st) (put_input bucket key value ct) \<and> objects st' = stored (objects st) (put_input bucket key value ct)
    | Some err \<Rightarrow>
        if preconditionFailed err then \<not> put_allowed (objects st) (put_input bucket key value ct) \<and> objects st' = objects st
        else objects st' = objects st \<or> put_allowed (objects st) (put_input bucket key value ct) \<and>
          objects st' = stored (objects st) (put_input bucket key value ct)"
    using assms(1) unfolding s3_put_law_def by blast
  with assms(2) p that show ?thesis
    by (cases e) (auto simp: PutIfAbsent_def put_allowed_def stored_def put_input_def split: if_splits)
qed

text \<open>Nothing there is ever replaced, and a success leaves an object under the key.\<close>

lemma map_le_add: "m k = None \<Longrightarrow> m \<subseteq>\<^sub>m m(k \<mapsto> v)"
  by (auto simp: map_le_def dom_def)

lemma PutIfAbsent_keeps:
  assumes "s3_put_law objects put" "PutIfAbsent put bucket key value ct st = (r, st')"
  shows "objects st \<subseteq>\<^sub>m objects st'" and "k \<noteq> (bucket, key) \<Longrightarrow> objects st' k = objects st k"
    and "is_ok r \<Longrightarrow> objects st' (bucket, key) \<noteq> None"
    and "is_ok r \<Longrightarrow> objects st (bucket, key) = None \<Longrightarrow> objects st' (bucket, key) = Some value"
proof -
  consider "objects st' = objects st" "is_ok r \<longrightarrow> objects st (bucket, key) \<noteq> None"
    | "objects st (bucket, key) = None" "objects st' = (objects st)((bucket, key) \<mapsto> value)"
    using assms(2) by (rule PutIfAbsent_cases [OF assms(1)]) auto
  then have "objects st \<subseteq>\<^sub>m objects st' \<and> (k \<noteq> (bucket, key) \<longrightarrow> objects st' k = objects st k) \<and>
      (is_ok r \<longrightarrow> objects st' (bucket, key) \<noteq> None) \<and>
      (is_ok r \<longrightarrow> objects st (bucket, key) = None \<longrightarrow> objects st' (bucket, key) = Some value)"
    by cases (simp_all add: map_le_add)
  then show "objects st \<subseteq>\<^sub>m objects st'" "k \<noteq> (bucket, key) \<Longrightarrow> objects st' k = objects st k"
    "is_ok r \<Longrightarrow> objects st' (bucket, key) \<noteq> None"
    "is_ok r \<Longrightarrow> objects st (bucket, key) = None \<Longrightarrow> objects st' (bucket, key) = Some value" by blast+
qed

section \<open>A service that keeps the law\<close>

text \<open>Objects in a map, and requests that never break off.\<close>

definition precondition_error :: s3_error where
  "precondition_error = \<lparr>se_owned = False, se_exists = False, se_code = Some ''PreconditionFailed''\<rparr>"

definition map_put :: "put_input \<Rightarrow> objects s3_call" where
  "map_put inp objs = (if put_allowed objs inp then (None, stored objs inp) else (Some precondition_error, objs))"

lemma map_put_law: "s3_put_law (\<lambda>objs. objs) map_put"
  by (auto simp: s3_put_law_def map_put_def precondition_error_def preconditionFailed_def)

end
