(* ===== verification/Archiver.thy ===== *)
theory Archiver
  imports ObjectStore Tenancy Kafka PayloadTables
begin

text \<open>
  The archiver (services/archiver/main.go): which partition a payload is filed under, its
  object key, and the conditional put. The tenant lookup is \<open>ResolveTenant\<close>; the clock is an
  argument.
\<close>

section \<open>The code\<close>

text \<open>
  The error of a lookup is passed on only when it is not an unknown installation, so
  \<open>Inl\<close> stands for a transient one.
\<close>

definition tenantPartition :: "(int \<Rightarrow> resolve_error + string) \<Rightarrow> bytes \<Rightarrow> resolve_error + string" where
  "tenantPartition resolve body =
     (case unmarshal dec_installation 0 body of
        None \<Rightarrow> Inr ''_unresolved/_no_installation''
      | Some i \<Rightarrow>
          if i = 0 then Inr ''_unresolved/_no_installation''
          else
            case resolve i of
              Inr tenant \<Rightarrow> Inr tenant
            | Inl UnknownInstallation \<Rightarrow> Inr (''_unresolved/'' @ show_int i)
            | Inl e \<Rightarrow> Inl e)"

definition archive_delivery :: "message \<Rightarrow> string" where
  "archive_delivery msg =
     (let delivery = hget (msg_Headers msg) HeaderGitHubDeliv
      in if delivery = [] then msg_Key msg else delivery)"

definition archive_key :: "string \<Rightarrow> gtime \<Rightarrow> string \<Rightarrow> string" where
  "archive_key part now delivery =
     ''raw/github/'' @ part @ ''/'' @ show_date (to_utc now) @ ''/'' @ delivery @ ''.json''"

datatype archive_error = ArchiveResolve resolve_error | ArchivePut s3_error

definition archive :: "(int \<Rightarrow> resolve_error + string) \<Rightarrow> (put_input \<Rightarrow> 's s3_call) \<Rightarrow> string \<Rightarrow> gtime \<Rightarrow> message \<Rightarrow> 's
    \<Rightarrow> (archive_error + unit) \<times> 's" where
  "archive resolve put bucket now msg st =
     (let delivery = archive_delivery msg in
      case tenantPartition resolve (msg_Value msg) of
        Inl e \<Rightarrow> (Inl (ArchiveResolve e), st)
      | Inr part \<Rightarrow>
          (case PutIfAbsent put bucket (archive_key part now delivery) (msg_Value msg) ''application/json'' st of
             (Inl e, st) \<Rightarrow> (Inl (ArchivePut e), st)
           | (Inr written, st) \<Rightarrow> (Inr (), st)))"

section \<open>The archive is write-once\<close>

lemma archive_put:
  assumes "tenantPartition resolve (msg_Value msg) = Inr part"
  shows "archive resolve put bucket now msg st =
    map_prod (map_sum ArchivePut (\<lambda>_. ()))  id
      (PutIfAbsent put bucket (archive_key part now (archive_delivery msg)) (msg_Value msg) ''application/json'' st)"
  using assms by (auto simp: archive_def Let_def split: prod.split sum.split)

lemma archive_effect:
  assumes "s3_put_law objects put" "archive resolve put bucket now msg st = (r, st')"
  shows "objects st \<subseteq>\<^sub>m objects st' \<and>
    (case tenantPartition resolve (msg_Value msg) of
       Inl e \<Rightarrow> e = ResolveFault \<and> r = Inl (ArchiveResolve e) \<and> st' = st
     | Inr part \<Rightarrow>
         let k = (bucket, archive_key part now (archive_delivery msg)) in
         (\<forall>k'. k' \<noteq> k \<longrightarrow> objects st' k' = objects st k') \<and>
         (r = Inr () \<longrightarrow> objects st' k = Some (case objects st k of None \<Rightarrow> msg_Value msg | Some old \<Rightarrow> old)))"
proof (cases "tenantPartition resolve (msg_Value msg)")
  case (Inl e)
  then have "e = ResolveFault"
    by (auto simp: tenantPartition_def split: option.splits sum.splits resolve_error.splits if_splits)
  with Inl assms(2) show ?thesis by (auto simp: archive_def Let_def)
next
  case (Inr part)
  let ?k = "archive_key part now (archive_delivery msg)"
  obtain r1 where p: "PutIfAbsent put bucket ?k (msg_Value msg) ''application/json'' st = (r1, st')" and r: "r = map_sum ArchivePut (\<lambda>_. ()) r1"
    using assms(2) unfolding archive_put [OF Inr] by (auto simp: map_prod_def split: prod.splits)
  note keeps = PutIfAbsent_keeps [OF assms(1) p]
  have "objects st' (bucket, ?k) = Some (case objects st (bucket, ?k) of None \<Rightarrow> msg_Value msg | Some old \<Rightarrow> old)" if "r = Inr ()"
  proof -
    have "is_ok r1" using that r by (cases r1) auto
    with keeps(1,3,4) show ?thesis by (cases "objects st (bucket, ?k)") (auto simp: map_le_def dom_def)
  qed
  with keeps(1,2) Inr show ?thesis by (simp add: Let_def)
qed

lemma archive_grows: "s3_put_law objects put \<Longrightarrow> archive resolve put bucket now msg st = (r, st') \<Longrightarrow> objects st \<subseteq>\<^sub>m objects st'"
  by (drule (1) archive_effect) (erule conjunct1)

lemma archive_stores:
  assumes "s3_put_law objects put" "archive resolve put bucket now msg st = (Inr (), st')"
    "tenantPartition resolve (msg_Value msg) = Inr part"
  shows "objects st' (bucket, archive_key part now (archive_delivery msg)) \<noteq> None"
  using archive_effect [OF assms(1,2)] assms(3) by (simp add: Let_def)

text \<open>
  C36. The archive loses nothing: whatever the outcome, a call replaces and removes no object and
  touches none but the message's own key; when it reports success that key holds an object, the
  message's bytes if there was none before; and it reports an error only when the tenant lookup
  failed for a reason other than an unknown installation, or the put did.
\<close>

theorem archive_write_once:
  assumes "s3_put_law objects put" "archive resolve put bucket now msg st = (r, st')"
  shows "objects st \<subseteq>\<^sub>m objects st' \<and>
    (case tenantPartition resolve (msg_Value msg) of
       Inl e \<Rightarrow> e = ResolveFault \<and> r = Inl (ArchiveResolve e) \<and> st' = st
     | Inr part \<Rightarrow>
         let k = (bucket, archive_key part now (archive_delivery msg)) in
         (\<forall>k'. k' \<noteq> k \<longrightarrow> objects st' k' = objects st k') \<and>
         (r = Inr () \<longrightarrow> objects st' k = Some (case objects st k of None \<Rightarrow> msg_Value msg | Some old \<Rightarrow> old)))"
  using archive_effect [OF assms] .

text \<open>
  A redelivery on the same day is a no-op: once a message is archived, archiving it again
  with the lookup answering the same, on the same date, leaves every object as it is and
  succeeds when the put does not break off. On another date it is filed a second time, under
  that date, so the archive holds one object per delivery and day, not per delivery.
\<close>

theorem archive_redelivery:
  assumes "s3_put_law objects put" "archive resolve put bucket now msg st = (Inr (), st1)"
    "tenantPartition resolve (msg_Value msg) = Inr part"
    "archive resolve put bucket later msg st1 = (Inr (), st2)"
  shows "(show_date (to_utc later) = show_date (to_utc now) \<longrightarrow> objects st2 = objects st1) \<and>
    (show_date (to_utc later) \<noteq> show_date (to_utc now) \<longrightarrow>
       archive_key part later (archive_delivery msg) \<noteq> archive_key part now (archive_delivery msg) \<and>
       objects st2 (bucket, archive_key part now (archive_delivery msg)) \<noteq> None \<and>
       objects st2 (bucket, archive_key part later (archive_delivery msg)) \<noteq> None)"
proof -
  let ?k1 = "archive_key part now (archive_delivery msg)" and ?k2 = "archive_key part later (archive_delivery msg)"
  have put: "\<exists>w. PutIfAbsent put bucket (archive_key part n (archive_delivery msg)) (msg_Value msg) ''application/json'' s = (Inr w, s')"
    if "archive resolve put bucket n msg s = (Inr (), s')" for n s s'
  proof (cases "PutIfAbsent put bucket (archive_key part n (archive_delivery msg)) (msg_Value msg) ''application/json'' s")
    case (Pair x s'')
    with that show ?thesis unfolding archive_put [OF assms(3)] by (cases x) auto
  qed
  obtain w1 w2 where p1: "PutIfAbsent put bucket ?k1 (msg_Value msg) ''application/json'' st = (Inr w1, st1)"
    and p2: "PutIfAbsent put bucket ?k2 (msg_Value msg) ''application/json'' st1 = (Inr w2, st2)"
    using put [OF assms(2)] put [OF assms(4)] by blast
  have 1: "objects st1 (bucket, ?k1) \<noteq> None" using PutIfAbsent_keeps(3) [OF assms(1) p1] by simp
  have 2: "objects st2 (bucket, ?k2) \<noteq> None" using PutIfAbsent_keeps(3) [OF assms(1) p2] by simp
  have le: "objects st1 \<subseteq>\<^sub>m objects st2" using PutIfAbsent_keeps(1) [OF assms(1) p2] .
  show ?thesis
  proof (intro conjI impI)
    assume "show_date (to_utc later) = show_date (to_utc now)"
    then have "?k2 = ?k1" by (simp add: archive_key_def)
    with p2 1 show "objects st2 = objects st1" by (cases rule: PutIfAbsent_cases [OF assms(1)]) auto
  next
    assume "show_date (to_utc later) \<noteq> show_date (to_utc now)"
    then show "?k2 \<noteq> ?k1" by (simp add: archive_key_def)
    show "objects st2 (bucket, ?k1) \<noteq> None" using 1 le by (auto simp: map_le_def dom_def)
    show "objects st2 (bucket, ?k2) \<noteq> None" by (rule 2)
  qed
qed

section \<open>The partition\<close>

text \<open>
  The archive files a payload where the write model puts its rows: for a message the
  connector normalizes, the partition is the tenant its installation resolves to, the very
  lookup the normalizer makes; an installation nobody owns goes to a partition of its own, and
  a lookup that fails otherwise is an error, never a partition.
\<close>

theorem archive_partition:
  assumes "Normalize raw = Inr r" "\<not> rs_Skip r"
  shows "tenantPartition resolve (re_Body raw) =
    (case resolve (rs_InstallationID r) of
       Inr tenant \<Rightarrow> Inr tenant
     | Inl UnknownInstallation \<Rightarrow> Inr (''_unresolved/'' @ show_int (rs_InstallationID r))
     | Inl ResolveFault \<Rightarrow> Inl ResolveFault)"
proof -
  have "rs_InstallationID r \<noteq> 0" using Normalize_result_wf [OF assms(1)] assms(2) by (simp add: result_wf_def)
  with Normalize_installation [OF assms] show ?thesis
    by (auto simp: tenantPartition_def split: sum.splits resolve_error.splits)
qed

section \<open>Samples\<close>

definition sample_archive_msg :: message where
  "sample_archive_msg = \<lparr>msg_Key = ''acme/app'', msg_Value = sample_pr, msg_Headers = [HeaderGitHubDeliv \<mapsto> ''d-1'']\<rparr>"

definition sample_resolve :: "int \<Rightarrow> resolve_error + string" where
  "sample_resolve i = (if i = 42424242 then Inr ''acme'' else Inl UnknownInstallation)"

lemma sample_partition: "tenantPartition sample_resolve (msg_Value sample_archive_msg) = Inr ''acme''"
  by code_simp

text \<open>The sample archived at the epoch's first second and a day later.\<close>

definition day_one :: gtime where "day_one = GTime 0 0"
definition day_two :: gtime where "day_two = GTime (86400 * nanos) 0"

lemma sample_days: "show_date (to_utc day_two) \<noteq> show_date (to_utc day_one)"
  by code_simp

lemma sample_archived:
  "\<exists>st'. archive sample_resolve map_put ''raw-github'' now sample_archive_msg st = (Inr (), st')"
  unfolding archive_put [OF sample_partition]
  by (simp add: PutIfAbsent_def map_put_def precondition_error_def preconditionFailed_def split: prod.split)

theorem archive_write_once_witness:
  "\<exists>st'. archive sample_resolve map_put ''raw-github'' day_one sample_archive_msg Map.empty = (Inr (), st') \<and>
     st' (''raw-github'', archive_key ''acme'' day_one ''d-1'') = Some sample_pr"
proof -
  obtain st' where a: "archive sample_resolve map_put ''raw-github'' day_one sample_archive_msg Map.empty = (Inr (), st')"
    using sample_archived by blast
  have "archive_delivery sample_archive_msg = ''d-1''" by (simp add: archive_delivery_def sample_archive_msg_def)
  with archive_write_once [OF map_put_law a] sample_partition a show ?thesis
    by (simp add: Let_def) (simp add: sample_archive_msg_def)
qed

theorem archive_redelivery_witness:
  "\<exists>st1 st2. archive sample_resolve map_put ''raw-github'' day_one sample_archive_msg Map.empty = (Inr (), st1) \<and>
     archive sample_resolve map_put ''raw-github'' day_two sample_archive_msg st1 = (Inr (), st2) \<and>
     archive_key ''acme'' day_two ''d-1'' \<noteq> archive_key ''acme'' day_one ''d-1'' \<and>
     st2 (''raw-github'', archive_key ''acme'' day_one ''d-1'') \<noteq> None \<and>
     st2 (''raw-github'', archive_key ''acme'' day_two ''d-1'') \<noteq> None"
proof -
  obtain st1 where 1: "archive sample_resolve map_put ''raw-github'' day_one sample_archive_msg Map.empty = (Inr (), st1)"
    using sample_archived by blast
  obtain st2 where 2: "archive sample_resolve map_put ''raw-github'' day_two sample_archive_msg st1 = (Inr (), st2)"
    using sample_archived by blast
  have "archive_delivery sample_archive_msg = ''d-1''" by (simp add: archive_delivery_def sample_archive_msg_def)
  with archive_redelivery [OF map_put_law 1 sample_partition 2] sample_days 1 2 show ?thesis by auto
qed

theorem archive_partition_witness:
  "tenantPartition sample_resolve sample_pr = Inr ''acme''"
proof -
  have "(case Normalize (raw_sample ''pull_request'' sample_pr) of Inl _ \<Rightarrow> False | Inr r \<Rightarrow> \<not> rs_Skip r \<and> rs_InstallationID r = 42424242)"
    by code_simp
  then obtain r where r: "Normalize (raw_sample ''pull_request'' sample_pr) = Inr r" "\<not> rs_Skip r" "rs_InstallationID r = 42424242"
    by (auto split: sum.splits)
  from archive_partition [OF r(1,2), of sample_resolve] r(3) show ?thesis by (simp add: sample_resolve_def raw_sample_def)
qed

end
