(* ===== verification/Consumers.thy ===== *)
theory Consumers
  imports Consumer NormalizerProps EnricherProps Archiver
begin

text \<open>
  The three consumers in their loop: what one round of each does, as an instance of the loop of
  theory Consumer, and that each leaves its effect of every message it commits.
\<close>

section \<open>The rounds\<close>

text \<open>
  The normalizer's round: a success is committed, a permanent error once the dead-letter write
  succeeded. The world is the database and the dead-letter topic; \<open>reason\<close> is the error's text.
\<close>

definition normalizer_round :: "(gh_error proc_error \<Rightarrow> string) \<Rightarrow> tx_env \<Rightarrow> bool \<Rightarrow> write_outcome \<Rightarrow> message
    \<Rightarrow> database \<times> message list \<Rightarrow> verdict \<times> database \<times> message list" where
  "normalizer_round reason env fault wr msg st =
     (case st of (db, dlq) \<Rightarrow>
      case process Normalize env fault msg db of
        (Inr _, db') \<Rightarrow> (Commit, db', dlq)
      | (Inl e, db') \<Rightarrow>
          if isPermanent e then
            (case wr of
               WriteOk \<Rightarrow> (Commit, db', dlq @ [deadLetter msg (reason e)])
             | WriteFail \<Rightarrow> (Retry, db', dlq)
             | WriteLost \<Rightarrow> (Retry, db', dlq @ [deadLetter msg (reason e)]))
          else (Retry, db', dlq))"

definition normalizer_body :: "(gh_error proc_error \<Rightarrow> string) \<Rightarrow> (database \<times> message list) loop_body" where
  "normalizer_body reason msg st v st' \<longleftrightarrow>
     (\<exists>env fault wr. quiet env \<and> normalizer_round reason env fault wr msg st = (v, st'))"

text \<open>The enricher's: its world is the client's state and the topic it writes.\<close>

definition connector_round :: "enricher \<Rightarrow> headers \<Rightarrow> api_env \<Rightarrow> write_outcome \<Rightarrow> message
    \<Rightarrow> api_state \<times> message list \<Rightarrow> verdict \<times> api_state \<times> message list" where
  "connector_round c inject env wr msg st =
     (case st of (s, out) \<Rightarrow>
      case enriched_message c inject msg env s of
        (m, s') \<Rightarrow>
          (case wr of
             WriteOk \<Rightarrow> (Commit, s', out @ [m])
           | WriteFail \<Rightarrow> (Retry, s', out)
           | WriteLost \<Rightarrow> (Retry, s', out @ [m])))"

definition connector_body :: "enricher \<Rightarrow> (api_state \<times> message list) loop_body" where
  "connector_body c msg st v st' \<longleftrightarrow>
     (\<exists>inject env wr. dom inject \<subseteq> w3c_keys \<and> connector_round c inject env wr msg st = (v, st'))"

text \<open>The archiver's: its world is the object store.\<close>

definition archiver_round :: "(int \<Rightarrow> resolve_error + string) \<Rightarrow> (put_input \<Rightarrow> 's s3_call) \<Rightarrow> string \<Rightarrow> gtime \<Rightarrow> message
    \<Rightarrow> 's \<Rightarrow> verdict \<times> 's" where
  "archiver_round resolve put bucket now msg st =
     (case archive resolve put bucket now msg st of
        (Inr _, st') \<Rightarrow> (Commit, st')
      | (Inl _, st') \<Rightarrow> (Retry, st'))"

definition archiver_body :: "('s \<Rightarrow> objects) \<Rightarrow> string \<Rightarrow> 's loop_body" where
  "archiver_body objects bucket msg st v st' \<longleftrightarrow>
     (\<exists>resolve put now. s3_put_law objects put \<and> archiver_round resolve put bucket now msg st = (v, st'))"

section \<open>Their effects\<close>

text \<open>
  A message the connector rejects is dead-lettered; one with a tenant is recorded as delivered.
  (One without needs nothing done: it is skipped, or belongs to an unknown installation.)
\<close>

definition normalizer_effect :: "message \<Rightarrow> database \<times> message list \<Rightarrow> bool" where
  "normalizer_effect msg st \<longleftrightarrow>
     (case st of (db, dlq) \<Rightarrow>
      case Normalize (raw_of undefined msg) of
        Inl _ \<Rightarrow> \<exists>r. deadLetter msg r \<in> set dlq
      | Inr _ \<Rightarrow>
          (case target msg db of
             None \<Rightarrow> True
           | Some (_, tenant) \<Rightarrow> delivery_of msg \<noteq> [] \<longrightarrow> delivered tenant (delivery_of msg) (db_tabs db)))"

definition connector_effect :: "message \<Rightarrow> api_state \<times> message list \<Rightarrow> bool" where
  "connector_effect msg st \<longleftrightarrow>
     (\<exists>m \<in> set (snd st). msg_Key m = msg_Key msg \<and> delivery_of m = delivery_of msg \<and> event_of m = event_of msg \<and>
        (msg_Headers m HeaderEnrichStatus \<noteq> Some statusEnriched \<longrightarrow> msg_Value m = msg_Value msg))"

definition archiver_effect :: "('s \<Rightarrow> objects) \<Rightarrow> string \<Rightarrow> message \<Rightarrow> 's \<Rightarrow> bool" where
  "archiver_effect objects bucket msg st \<longleftrightarrow>
     (\<exists>part now. objects st (bucket, archive_key part now (archive_delivery msg)) \<noteq> None)"

lemma normalizer_round_cases:
  assumes "normalizer_round reason env fault wr msg (db, dlq) = (v, db', dlq')"
  obtains r where "process Normalize env fault msg db = (r, db')"
    "dlq' = dlq \<or> (\<exists>e. r = Inl e \<and> isPermanent e \<and> dlq' = dlq @ [deadLetter msg (reason e)])"
    "v = Commit \<longrightarrow> r = Inr () \<or> (\<exists>e. r = Inl e \<and> isPermanent e \<and> deadLetter msg (reason e) \<in> set dlq')"
  using assms by (auto simp: normalizer_round_def split: prod.splits sum.splits if_splits write_outcome.splits)

lemma rejected_iff: "(case Normalize (raw_of undefined msg) of Inl _ \<Rightarrow> True | Inr _ \<Rightarrow> False) =
    (case fst (run env fault msg db) of Inl e \<Rightarrow> isPermanent e | Inr _ \<Rightarrow> False)"
  unfolding permanent_iff normalize_msg_env [of env msg undefined] ..

interpretation normalizer_loop: at_least_once "normalizer_body reason" normalizer_effect for reason
proof
  fix msg v and st st' :: "database \<times> message list"
  assume "normalizer_body reason msg st Commit st'"
  then obtain env fault wr where q: "quiet env" and n: "normalizer_round reason env fault wr msg st = (Commit, st')"
    unfolding normalizer_body_def by blast
  obtain db dlq db' dlq' where st: "st = (db, dlq)" "st' = (db', dlq')" by (cases st, cases st') auto
  obtain r where r: "run env fault msg db = (r, db')"
    "r = Inr () \<or> (\<exists>e. r = Inl e \<and> isPermanent e \<and> deadLetter msg (reason e) \<in> set dlq')"
    using normalizer_round_cases [OF n [unfolded st]] by metis
  show "normalizer_effect msg st'"
  proof (cases "Normalize (raw_of undefined msg)")
    case (Inl x)
    with rejected_iff [of msg env fault db] r show ?thesis by (auto simp: normalizer_effect_def st(2))
  next
    case (Inr res)
    with rejected_iff [of msg env fault db] r have ok: "run env fault msg db = (Inr (), db')" by auto
    have t: "target msg db' = target msg db" using target_after [of msg env fault msg db] ok by simp
    show ?thesis
      using run_records [OF ok _ q] Inr by (auto simp: normalizer_effect_def st(2) t split: option.splits)
  qed
next
  fix m msg v and st st' :: "database \<times> message list"
  assume e: "normalizer_effect m st" and "normalizer_body reason msg st v st'"
  then obtain env fault wr where q: "quiet env" and n: "normalizer_round reason env fault wr msg st = (v, st')"
    unfolding normalizer_body_def by blast
  obtain db dlq db' dlq' where st: "st = (db, dlq)" "st' = (db', dlq')" by (cases st, cases st') auto
  obtain r where r: "run env fault msg db = (r, db')" "set dlq \<subseteq> set dlq'"
    using normalizer_round_cases [OF n [unfolded st]] by (metis set_append subset_refl Un_upper1)
  have t: "target m db' = target m db" using target_after [of m env fault msg db] r(1) by simp
  have "grows (db_tabs db) (db_tabs db')"
    by (rule frame_run [OF r(1) q]) (rule growth.R_refl, rule growth.frame_deliver)
  with e r(2) t show "normalizer_effect m st'"
    by (auto simp: normalizer_effect_def st split: sum.splits option.splits dest: delivered_grows)
qed

lemma inject_keeps:
  assumes "enriched_message c inject msg env s = (m, s')" "dom inject \<subseteq> w3c_keys"
  shows "msg_Key m = msg_Key msg \<and> delivery_of m = delivery_of msg \<and> event_of m = event_of msg \<and>
    (msg_Headers m HeaderEnrichStatus \<noteq> Some statusEnriched \<longrightarrow> msg_Value m = msg_Value msg)"
proof -
  have d: "HeaderEnrichStatus \<notin> dom inject" "HeaderGitHubDeliv \<notin> dom inject" "HeaderGitHubEvent \<notin> dom inject"
    using assms(2) by (auto simp: w3c_keys_def header_names)
  have n: "HeaderGitHubDeliv \<notin> {HeaderEnrichStatus, HeaderOccurredAt}" "HeaderGitHubEvent \<notin> {HeaderEnrichStatus, HeaderOccurredAt}"
    by (simp_all add: header_names)
  from message_kept [OF assms(1) d(1)] d n show ?thesis by (auto simp: delivery_of_def event_of_def hget_def)
qed

lemma connector_round_cases:
  assumes "connector_round c inject env wr msg (s, out) = (v, s', out')"
  obtains m where "enriched_message c inject msg env s = (m, s')" "out' = out \<or> out' = out @ [m]" "v = Commit \<longrightarrow> out' = out @ [m]"
proof (cases "enriched_message c inject msg env s")
  case (Pair m s1)
  with assms have "s1 = s' \<and> (out' = out \<or> out' = out @ [m]) \<and> (v = Commit \<longrightarrow> out' = out @ [m])"
    by (cases wr) (simp_all add: connector_round_def)
  with Pair that [of m] show ?thesis by blast
qed

interpretation connector_loop: at_least_once "connector_body c" connector_effect for c
proof
  fix msg v and st st' :: "api_state \<times> message list"
  assume "connector_body c msg st Commit st'"
  then obtain inject env wr where d: "dom inject \<subseteq> w3c_keys" and n: "connector_round c inject env wr msg st = (Commit, st')"
    unfolding connector_body_def by blast
  obtain s out s' out' where st: "st = (s, out)" "st' = (s', out')" by (cases st, cases st') auto
  obtain m where "enriched_message c inject msg env s = (m, s')" "out' = out @ [m]"
    using connector_round_cases [OF n [unfolded st]] by metis
  with inject_keeps [OF this(1) d] show "connector_effect msg st'" by (auto simp: connector_effect_def st)
next
  fix m msg v and st st' :: "api_state \<times> message list"
  assume e: "connector_effect m st" and "connector_body c msg st v st'"
  then obtain inject env wr where n: "connector_round c inject env wr msg st = (v, st')"
    unfolding connector_body_def by blast
  obtain s out s' out' where st: "st = (s, out)" "st' = (s', out')" by (cases st, cases st') auto
  have "set out \<subseteq> set out'" by (rule connector_round_cases [OF n [unfolded st]]) auto
  with e show "connector_effect m st'" by (auto simp: connector_effect_def st)
qed

lemma archiver_round_cases:
  assumes "archiver_round resolve put bucket now msg st = (v, st')"
  obtains r where "archive resolve put bucket now msg st = (r, st')" "v = Commit \<longrightarrow> r = Inr ()"
proof (cases "archive resolve put bucket now msg st")
  case (Pair r s1)
  with assms have "s1 = st' \<and> (v = Commit \<longrightarrow> r = Inr ())" by (cases r) (simp_all add: archiver_round_def)
  with Pair that [of r] show ?thesis by blast
qed

interpretation archiver_loop: at_least_once "archiver_body objects bucket" "archiver_effect objects bucket" for objects bucket
proof
  fix msg st st'
  assume "archiver_body objects bucket msg st Commit st'"
  then obtain resolve put now where l: "s3_put_law objects put"
    and n: "archiver_round resolve put bucket now msg st = (Commit, st')"
    unfolding archiver_body_def by blast
  have a: "archive resolve put bucket now msg st = (Inr (), st')" by (rule archiver_round_cases [OF n]) simp
  then obtain part where "tenantPartition resolve (msg_Value msg) = Inr part"
    by (cases "tenantPartition resolve (msg_Value msg)") (auto simp: archive_def Let_def)
  with archive_stores [OF l a] show "archiver_effect objects bucket msg st'" by (auto simp: archiver_effect_def)
next
  fix m msg st v st'
  assume e: "archiver_effect objects bucket m st" and "archiver_body objects bucket msg st v st'"
  then obtain resolve put now where l: "s3_put_law objects put" and n: "archiver_round resolve put bucket now msg st = (v, st')"
    unfolding archiver_body_def by blast
  have "objects st \<subseteq>\<^sub>m objects st'" using archive_grows [OF l] by (rule archiver_round_cases [OF n])
  with e show "archiver_effect objects bucket m st'" unfolding archiver_effect_def map_le_def dom_def by fastforce
qed

section \<open>At least once, but for failures\<close>

text \<open>
  C37. Nothing is committed unhandled: in every run of a consumer's loop, restarts and failed
  commits included, each offset below the committed one whose processing never failed has had
  its effect: the normalizer recorded its delivery for its tenant, or dead-lettered it, or had
  nothing to do; the enricher wrote a message with its key and delivery id, and with its bytes
  unless enriched; the archiver holds an object for it.
\<close>

theorem committed_handled:
  "(consumer_reach (normalizer_body reason) log w c \<and> k < cn_committed c \<and> k \<notin> cn_failed c \<longrightarrow>
      normalizer_effect (log ! k) (cn_world c)) \<and>
   (consumer_reach (connector_body e) log w' c' \<and> k < cn_committed c' \<and> k \<notin> cn_failed c' \<longrightarrow>
      connector_effect (log ! k) (cn_world c')) \<and>
   (consumer_reach (archiver_body objects bucket) log w'' c'' \<and> k < cn_committed c'' \<and> k \<notin> cn_failed c'' \<longrightarrow>
      archiver_effect objects bucket (log ! k) (cn_world c''))"
  by (intro conjI impI; elim conjE)
    (erule (2) normalizer_loop.committed_effect connector_loop.committed_effect archiver_loop.committed_effect)+

text \<open>
  C39. A transient failure can lose a message: the loop goes on to the next message without
  committing the failed one, and the commit of the next one covers both. From any state in
  which processing the message at offset \<open>k\<close> fails transiently and the one after it then
  succeeds, the loop reaches a state after which the first is never handled, whatever happens
  later, restarts included: it is not redelivered, as the comments say it is.
\<close>

theorem transient_failure_loses:
  assumes "consumer_reach (normalizer_body reason) log w c" "cn_next c = k" "k \<notin> cn_done c" "Suc k < length log"
    "process Normalize env fault (log ! k) (fst (cn_world c)) = (Inl e, db1)" "\<not> isPermanent e" "quiet env"
    "process Normalize env' fault' (log ! Suc k) db1 = (Inr (), db2)" "quiet env'"
  shows "\<exists>c'. consumer_steps (normalizer_body reason) log c c' \<and> cn_committed c' = k + 2 \<and>
    (\<forall>c''. consumer_steps (normalizer_body reason) log c' c'' \<longrightarrow> k \<notin> cn_done c'')"
proof -
  obtain db dlq where w: "cn_world c = (db, dlq)" by fastforce
  have "normalizer_body reason (log ! k) (cn_world c) Retry (db1, dlq)"
    using assms(5-7) unfolding normalizer_body_def w by (intro exI [of _ env] exI [of _ fault]) (simp add: normalizer_round_def)
  moreover have "normalizer_body reason (log ! Suc k) (db1, dlq) Commit (db2, dlq)"
    using assms(8,9) unfolding normalizer_body_def by (intro exI [of _ env'] exI [of _ fault']) (simp add: normalizer_round_def)
  ultimately show ?thesis using retry_then_commit [OF assms(1-4)] by (simp add: eval_nat_numeral)
qed

section \<open>Samples\<close>

text \<open>A pull request and a ping, on an empty database.\<close>

definition sample_log :: "message list" where
  "sample_log = [sample_msg ''pull_request'' sample_pr, sample_msg ''ping'' ''{}'']"

definition sample_reason :: "gh_error proc_error \<Rightarrow> string" where
  "sample_reason e = ''decode payload''"

lemma sample_ping: "process Normalize env fault (sample_msg ''ping'' ''{}'') db = (Inr (), db)"
  by (simp add: process_def Let_def Normalize_def skip_result_def zero_result_def)

theorem committed_handled_witness:
  "\<exists>c. consumer_reach (normalizer_body sample_reason) sample_log (sample_db, []) c \<and> cn_committed c = 1 \<and>
     normalizer_effect (sample_log ! 0) (cn_world c)"
proof -
  obtain db1 where r: "pr_run never = (Inr (), db1)" by (rule pr_run_never)
  let ?c0 = "consumer_start (sample_db, []) :: (database \<times> message list) consumer"
  let ?c1 = "committing True (db1, []) ?c0"
  have "normalizer_round sample_reason (sample_env never) False WriteOk (sample_log ! 0) (sample_db, []) = (Commit, db1, [])"
    using r by (simp add: normalizer_round_def sample_log_def)
  then have "normalizer_body sample_reason (sample_log ! cn_next ?c0) (cn_world ?c0) Commit (db1, [])"
    unfolding normalizer_body_def using sample_quiet(1) [of never]
    by (intro exI [of _ "sample_env never"] exI [of _ False] exI [of _ WriteOk]) (simp add: consumer_start_def)
  then have s: "consumer_step (normalizer_body sample_reason) sample_log ?c0 ?c1"
    by (intro consumer_step.commit) (simp_all add: consumer_start_def sample_log_def)
  have c: "consumer_reach (normalizer_body sample_reason) sample_log (sample_db, []) ?c1"
    by (rule consumer_reach.step [OF consumer_reach.start s])
  have n: "cn_committed ?c1 = 1" "0 \<notin> cn_failed ?c1" by (simp_all add: committing_def consumer_start_def)
  have "normalizer_effect (sample_log ! 0) (cn_world ?c1)"
    by (rule committed_handled [THEN conjunct1, THEN mp]) (intro conjI, rule c, use n in simp_all)
  with c n show ?thesis by blast
qed

theorem transient_failure_loses_witness:
  "\<exists>c'. consumer_steps (normalizer_body sample_reason) sample_log (consumer_start (sample_db, [])) c' \<and> cn_committed c' = 2 \<and>
     (\<forall>c''. consumer_steps (normalizer_body sample_reason) sample_log c' c'' \<longrightarrow> 0 \<notin> cn_done c'')"
proof -
  let ?c0 = "consumer_start (sample_db, []) :: (database \<times> message list) consumer"
  obtain res where t: "target (sample_msg ''pull_request'' sample_pr) sample_db = Some (res, acme)"
    by (rule sample_target [of sample_db]) (simp_all add: sample_db_def)
  have f: "process Normalize (sample_env never) True (sample_log ! 0) (fst (cn_world ?c0)) = (Inl ResolveError, sample_db)"
    using run_target_Some [OF t, of "sample_env never" True] by (simp add: consumer_start_def sample_log_def)
  have g: "process Normalize (sample_env never) True (sample_log ! Suc 0) sample_db = (Inr (), sample_db)"
    by (simp add: sample_log_def sample_ping)
  have "\<not> isPermanent (ResolveError :: gh_error proc_error)" by (simp add: isPermanent_def)
  moreover have "cn_next ?c0 = 0" "0 \<notin> cn_done ?c0" "Suc 0 < length sample_log"
    by (simp_all add: consumer_start_def sample_log_def)
  ultimately show ?thesis
    using transient_failure_loses [OF consumer_reach.start _ _ _ f _ sample_quiet(1) g sample_quiet(1), of sample_reason]
    by (simp add: eval_nat_numeral)
qed

end
