(* ===== verification/Gateway.thy ===== *)
theory Gateway
  imports GoCrypto Kafka Events
begin

text \<open>
  The webhook gateway (services/webhook-gateway/main.go): the signature check and
  \<open>handleGitHub\<close>, from the request to the response and the message it enqueues.
\<close>

section \<open>The code\<close>

definition signature_prefix :: string where
  "signature_prefix = ''sha256=''"

text \<open>\<open>hmac.Equal\<close> compares length and content (in constant time).\<close>

definition validSignature :: "bytes \<Rightarrow> string \<Rightarrow> bytes \<Rightarrow> bool" where
  "validSignature secret header body =
     (if \<not> has_prefix header signature_prefix then False
      else case hex_decode (trim_prefix header signature_prefix) of
        None \<Rightarrow> False
      | Some want \<Rightarrow> hmac_sha256 secret body = want)"

text \<open>
  A request: \<open>rq_header\<close> is \<open>Header.Get\<close> (the empty string for an absent header),
  \<open>rq_broken\<close> says that reading the body fails after the bytes of \<open>rq_body\<close>.
\<close>

record request =
  rq_method :: string
  rq_header :: "string \<Rightarrow> string"
  rq_body :: bytes
  rq_broken :: bool

definition body_limit :: nat where
  "body_limit = 5 * 2 ^ 20"

text \<open>\<open>io.ReadAll(io.LimitReader(...))\<close>: what lies past the limit is never read.\<close>

definition read_body :: "request \<Rightarrow> bytes option" where
  "read_body rq =
     (if rq_broken rq \<and> length (rq_body rq) < body_limit then None
      else Some (take body_limit (rq_body rq)))"

text \<open>The trace of the request: its id and what the propagator injects.\<close>

record edge_trace =
  et_id :: string
  et_inject :: headers

definition gateway_message :: "edge_trace \<Rightarrow> request \<Rightarrow> bytes \<Rightarrow> message" where
  "gateway_message tr rq body =
     \<lparr>msg_Key = rq_header rq ''X-GitHub-Delivery'', msg_Value = body,
      msg_Headers =
        [HeaderGitHubEvent \<mapsto> rq_header rq ''X-GitHub-Event'',
         HeaderGitHubDeliv \<mapsto> rq_header rq ''X-GitHub-Delivery'',
         HeaderTraceID \<mapsto> et_id tr] ++ et_inject tr\<rparr>"

text \<open>The status code, and the message handed to the writer, if any.\<close>

definition handleGitHub :: "bytes \<Rightarrow> edge_trace \<Rightarrow> bool \<Rightarrow> request \<Rightarrow> nat \<times> message option" where
  "handleGitHub secret tr write_ok rq =
     (if rq_method rq \<noteq> ''POST'' then (405, None)
      else case read_body rq of
        None \<Rightarrow> (400, None)
      | Some body \<Rightarrow>
          if \<not> validSignature secret (rq_header rq ''X-Hub-Signature-256'') body then (401, None)
          else
            let msg = gateway_message tr rq body
            in if write_ok then (202, Some msg) else (503, Some msg))"

section \<open>Properties\<close>

text \<open>
  A header is accepted exactly when it is \<open>sha256=\<close> followed by the hexadecimal form of the
  HMAC-SHA256 of the body under the secret, in either case of the digits; in particular the
  header GitHub sends is accepted, and two bodies accepted under one header have one MAC.
\<close>

theorem validSignature_iff:
  "validSignature secret header body =
     (\<exists>h. header = signature_prefix @ h \<and> hex_decode h = Some (hmac_sha256 secret body)) \<and>
   validSignature secret (signature_prefix @ hex_encode (hmac_sha256 secret body)) body"
  by (auto simp: validSignature_def has_prefix_conv split: option.split)

lemma handle_accepts:
  "handleGitHub secret tr ok rq = (st, Some msg) \<Longrightarrow>
     rq_method rq = ''POST'' \<and> (\<exists>body. read_body rq = Some body \<and> msg = gateway_message tr rq body \<and>
       validSignature secret (rq_header rq ''X-Hub-Signature-256'') body) \<and> st = (if ok then 202 else 503)"
  by (auto simp: handleGitHub_def Let_def split: if_splits option.splits)

lemma gateway_sound:
  assumes "handleGitHub secret tr write_ok rq = (status, Some msg)" "dom (et_inject tr) \<subseteq> w3c_keys"
  shows "rq_method rq = ''POST'' \<and>
    (\<exists>h. rq_header rq ''X-Hub-Signature-256'' = signature_prefix @ h \<and>
         hex_decode h = Some (hmac_sha256 secret (msg_Value msg))) \<and>
    msg_Key msg = rq_header rq ''X-GitHub-Delivery'' \<and>
    hget (msg_Headers msg) HeaderGitHubDeliv = rq_header rq ''X-GitHub-Delivery'' \<and>
    hget (msg_Headers msg) HeaderGitHubEvent = rq_header rq ''X-GitHub-Event'' \<and>
    hget (msg_Headers msg) HeaderTraceID = et_id tr \<and>
    (status = 202) = write_ok"
proof -
  from handle_accepts [OF assms(1)] obtain body where b: "rq_method rq = ''POST''" "msg = gateway_message tr rq body"
    "validSignature secret (rq_header rq ''X-Hub-Signature-256'') body" "status = (if write_ok then 202 else 503)"
    by blast
  have none: "et_inject tr k = None" if "k \<notin> w3c_keys" for k using assms(2) that by (auto simp: dom_def)
  have "et_inject tr HeaderGitHubDeliv = None" "et_inject tr HeaderGitHubEvent = None" "et_inject tr HeaderTraceID = None"
    by (rule none; simp add: w3c_keys_def header_names)+
  then have "hget (msg_Headers msg) HeaderGitHubDeliv = rq_header rq ''X-GitHub-Delivery''"
    "hget (msg_Headers msg) HeaderGitHubEvent = rq_header rq ''X-GitHub-Event''"
    "hget (msg_Headers msg) HeaderTraceID = et_id tr"
    unfolding b(2) gateway_message_def
    by (simp_all add: hget_def map_add_def) (simp_all add: header_names)
  moreover have "\<exists>h. rq_header rq ''X-Hub-Signature-256'' = signature_prefix @ h \<and>
         hex_decode h = Some (hmac_sha256 secret (msg_Value msg))"
    using b(2,3) by (auto simp: validSignature_def gateway_message_def has_prefix_conv split: if_splits option.splits)
  ultimately show ?thesis using b by (simp add: gateway_message_def)
qed

lemma gateway_headers:
  assumes "handleGitHub secret tr write_ok rq = (status, Some msg)" "dom (et_inject tr) \<subseteq> w3c_keys"
  shows "hget (msg_Headers msg) HeaderGitHubDeliv = rq_header rq ''X-GitHub-Delivery''"
    "hget (msg_Headers msg) HeaderGitHubEvent = rq_header rq ''X-GitHub-Event''"
  using gateway_sound [OF assms] by simp_all

text \<open>
  C14. Nothing unauthenticated reaches Kafka: whatever message the gateway hands to the writer
  comes from a POST whose signature header is the MAC of exactly the bytes enqueued, is keyed
  by the delivery id and carries the event name and delivery id of the request, whatever the
  tracer injects; and 202 is answered only for a message the writer took.
\<close>

theorem gateway_authentic:
  assumes "handleGitHub secret tr write_ok rq = (status, Some msg)" "dom (et_inject tr) \<subseteq> w3c_keys"
  shows "rq_method rq = ''POST'' \<and>
    (\<exists>h. rq_header rq ''X-Hub-Signature-256'' = signature_prefix @ h \<and>
         hex_decode h = Some (hmac_sha256 secret (msg_Value msg))) \<and>
    msg_Key msg = rq_header rq ''X-GitHub-Delivery'' \<and>
    hget (msg_Headers msg) HeaderGitHubDeliv = rq_header rq ''X-GitHub-Delivery'' \<and>
    hget (msg_Headers msg) HeaderGitHubEvent = rq_header rq ''X-GitHub-Event'' \<and>
    hget (msg_Headers msg) HeaderTraceID = et_id tr \<and>
    (status = 202) = write_ok"
  using gateway_sound [OF assms] .

text \<open>A request signed as GitHub signs it.\<close>

definition signed_request :: "bytes \<Rightarrow> bytes \<Rightarrow> request" where
  "signed_request secret body =
     \<lparr>rq_method = ''POST'',
      rq_header = (\<lambda>k. if k = ''X-Hub-Signature-256'' then signature_prefix @ hex_encode (hmac_sha256 secret body)
                      else if k = ''X-GitHub-Delivery'' then ''d-1''
                      else if k = ''X-GitHub-Event'' then ''push'' else []),
      rq_body = body, rq_broken = False\<rparr>"

theorem gateway_authentic_witness:
  "\<exists>msg. handleGitHub ''dev-secret'' \<lparr>et_id = [], et_inject = Map.empty\<rparr> True (signed_request ''dev-secret'' ''{}'') =
      (202, Some msg) \<and> msg_Key msg = ''d-1'' \<and> msg_Value msg = ''{}''"
proof -
  let ?tr = "\<lparr>et_id = [], et_inject = Map.empty\<rparr>" and ?rq = "signed_request ''dev-secret'' ''{}''"
  have "read_body ?rq = Some ''{}''" by (simp add: read_body_def signed_request_def body_limit_def)
  moreover have "validSignature ''dev-secret'' (rq_header ?rq ''X-Hub-Signature-256'') ''{}''"
    by (simp add: signed_request_def validSignature_def)
  ultimately have h: "handleGitHub ''dev-secret'' ?tr True ?rq = (202, Some (gateway_message ?tr ?rq ''{}''))"
    by (simp add: handleGitHub_def Let_def) (simp add: signed_request_def)
  have "msg_Key (gateway_message ?tr ?rq ''{}'') = ''d-1''"
    using gateway_authentic [OF h] by (simp add: signed_request_def)
  with h show ?thesis by (simp add: gateway_message_def)
qed

end
