(* ===== verification/Pipeline.thy ===== *)
theory Pipeline
  imports Consumers Gateway
begin

text \<open>
  The services in a row: what the gateway enqueues passes the enrichment stage and reaches the
  normalizer and, as it is, the archiver. The stage may see a delivery more than once, with
  GitHub answering differently each time, and GitHub may send it more than once; the results are
  about the deliveries, not about the messages.
\<close>

section \<open>What the stages agree on\<close>

text \<open>The tenant a message belongs to depends on its event and its bytes.\<close>

abbreviation tenant_of :: "message \<Rightarrow> database \<Rightarrow> string option" where
  "tenant_of msg db \<equiv> map_option snd (target msg db)"

lemma Normalize_same:
  assumes "event_of m = event_of m'" "msg_Value m = msg_Value m'"
  shows "normalize_msg env m = normalize_msg env m'"
  using assms by (simp add: Normalize_def)

lemma tenant_of_same:
  assumes "event_of m = event_of m'" "msg_Value m = msg_Value m'"
  shows "tenant_of m db = tenant_of m' db"
  using Normalize_same [OF assms, of undefined] by (simp add: target_def)

lemma enrich_result_keeps [simp]:
  "rs_Skip (enrich_result e r) = rs_Skip r" "result_empty (enrich_result e r) = result_empty r"
  "rs_InstallationID (enrich_result e r) = rs_InstallationID r"
  by (simp_all add: enrich_result_def result_empty_def)

text \<open>What has to hold of a payload for the merge to be exact; only pull requests are merged.\<close>

definition mergeable :: "message \<Rightarrow> bool" where
  "mergeable msg \<longleftrightarrow> (event_of msg = ''pull_request'' \<longrightarrow> plain_object (msg_Value msg))"

lemma enriched_value:
  assumes "enriched_message c inject msg env s = (m, s')"
  obtains "msg_Value m = msg_Value msg"
  | enr where "event_of msg = ''pull_request''" "enrichment_ok enr" "mergeEnrichment (msg_Value msg) enr = Inr (msg_Value m)"
proof -
  obtain body st t s1 where e: "enrich c (event_of msg) (msg_Value msg) env s = ((body, st, t), s1)" by (metis surj_pair)
  with assms have "msg_Value m = body" by (auto simp: enriched_message_def event_of_def Let_def)
  with e that show ?thesis by (cases rule: enrich_cases) (auto dest: fetchEnrichment_ok)
qed

lemma enriched_tenant:
  assumes "enriched_message c inject msg env s = (m, s')" "dom inject \<subseteq> w3c_keys" "mergeable msg"
  shows "tenant_of m db = tenant_of msg db"
proof -
  have ev: "event_of m = event_of msg" using inject_keeps [OF assms(1,2)] by simp
  from assms(1) show ?thesis
  proof (cases rule: enriched_value)
    case 1
    with ev show ?thesis by (rule tenant_of_same)
  next
    case (2 enr)
    then have "plain_object (msg_Value msg)" using assms(3) by (simp add: mergeable_def)
    from normalize_merged [OF this 2(2,3)] have
      "map_sum (\<lambda>_. ()) id (normalizePullRequest (msg_Value m)) = map_sum (\<lambda>_. ()) (enrich_result enr) (normalizePullRequest (msg_Value msg))" .
    with ev 2(1) show ?thesis
      by (auto simp: target_def Normalize_def split: sum.splits) (auto simp: map_option.compositionality comp_def)
  qed
qed

section \<open>Once per delivery, end to end\<close>

text \<open>
  C6. One delivery, one effect: let GitHub send a webhook twice (the same body, event and
  delivery id, and a delivery id there is), let the gateway accept both, and let the enrichment
  stage pass each on, whatever GitHub's API answers it either time; a pull request's payload
  must be an object without repeated members, since the stage would keep only the last of them. Once the normalizer has processed one of the two enriched
  messages successfully, processing the other changes no table, under any faults, clock and ids,
  although their bytes and headers may differ.
\<close>

theorem pipeline_once:
  assumes "handleGitHub secret tr1 ok1 rq1 = (st1, Some raw1)" "handleGitHub secret tr2 ok2 rq2 = (st2, Some raw2)"
    "dom (et_inject tr1) \<subseteq> w3c_keys" "dom (et_inject tr2) \<subseteq> w3c_keys"
    "rq_body rq2 = rq_body rq1" "rq_header rq2 ''X-GitHub-Event'' = rq_header rq1 ''X-GitHub-Event''"
    "rq_header rq2 ''X-GitHub-Delivery'' = rq_header rq1 ''X-GitHub-Delivery''" "rq_header rq1 ''X-GitHub-Delivery'' \<noteq> []"
    "mergeable raw1"
    "enriched_message c1 inj1 raw1 env1 s1 = (m1, s1')" "enriched_message c2 inj2 raw2 env2 s2 = (m2, s2')"
    "dom inj1 \<subseteq> w3c_keys" "dom inj2 \<subseteq> w3c_keys"
    "process Normalize env fault m1 db = (Inr (), db1)" "quiet env" "quiet env'"
  shows "db_tabs (snd (process Normalize env' fault' m2 db1)) = db_tabs db1"
proof -
  have raw: "delivery_of raw1 = rq_header rq1 ''X-GitHub-Delivery''" "event_of raw1 = rq_header rq1 ''X-GitHub-Event''"
    "delivery_of raw2 = rq_header rq2 ''X-GitHub-Delivery''" "event_of raw2 = rq_header rq2 ''X-GitHub-Event''"
    using gateway_headers [OF assms(1,3)] gateway_headers [OF assms(2,4)] by (simp_all add: delivery_of_def event_of_def)
  have "msg_Value raw1 = take body_limit (rq_body rq1)" "msg_Value raw2 = take body_limit (rq_body rq2)"
    using handle_accepts [OF assms(1)] handle_accepts [OF assms(2)]
    by (auto simp: read_body_def gateway_message_def split: if_splits)
  with assms(5) have val: "msg_Value raw2 = msg_Value raw1" by simp
  have ev: "event_of raw2 = event_of raw1" using raw assms(6) by simp
  have m2: "mergeable raw2" using assms(9) ev val by (simp add: mergeable_def)
  have del: "delivery_of m1 = delivery_of raw1" "delivery_of m2 = delivery_of raw2"
    using inject_keeps [OF assms(10,12)] inject_keeps [OF assms(11,13)] by simp_all
  have "tenant_of m2 db = tenant_of m1 db"
    unfolding enriched_tenant [OF assms(10,12,9)] enriched_tenant [OF assms(11,13) m2] using ev val by (rule tenant_of_same)
  with same_delivery_once [OF assms(14) _ assms(15,16)] show ?thesis using del raw assms(7,8) by simp
qed

section \<open>The archive and the write model\<close>

text \<open>
  C16. The archive can rebuild what was written: whenever the enriched copy of a message with a
  delivery id belongs to a tenant of the database, the archiver, which sees the original, files
  the original's bytes under that tenant, in a key that names the delivery the normalizer
  records. A pull request's payload must be an object without repeated members.
\<close>

theorem archive_matches:
  assumes "enriched_message c inject raw env s = (m, s')" "dom inject \<subseteq> w3c_keys" "mergeable raw"
    "target m db = Some (res, tenant)" "delivery_of m \<noteq> []"
    "s3_put_law objects put" "archive (ResolveTenant False db) put bucket now raw st = (Inr (), st')"
  shows "objects st' (bucket, archive_key tenant now (delivery_of m)) =
    Some (case objects st (bucket, archive_key tenant now (delivery_of m)) of None \<Rightarrow> msg_Value raw | Some old \<Rightarrow> old)"
proof -
  from enriched_tenant [OF assms(1-3), of db] assms(4) obtain res' where t: "target raw db = Some (res', tenant)"
    by (cases "target raw db") auto
  have i: "normalize_msg undefined raw = Inr res'" "\<not> rs_Skip res'" "db_installations db (rs_InstallationID res') = Some tenant"
    using target_Some [OF t] by blast+
  have "unmarshal dec_installation 0 (msg_Value raw) = Some (rs_InstallationID res')"
    using Normalize_installation [OF i(1,2)] by simp
  moreover have "rs_InstallationID res' \<noteq> 0"
    using Normalize_result_wf [OF i(1)] i(2) by (simp add: result_wf_def)
  ultimately have p: "tenantPartition (ResolveTenant False db) (msg_Value raw) = Inr tenant"
    using i(3) by (simp add: tenantPartition_def ResolveTenant_def)
  have "delivery_of raw = delivery_of m" using inject_keeps [OF assms(1,2)] by simp
  then have "archive_delivery raw = delivery_of m" using assms(5) by (simp add: archive_delivery_def delivery_of_def)
  with archive_effect [OF assms(6,7)] p show ?thesis by (simp add: Let_def)
qed

section \<open>Samples\<close>

definition pr_request :: request where
  "pr_request = (signed_request ''dev-secret'' sample_pr)\<lparr>rq_header := (rq_header (signed_request ''dev-secret'' sample_pr))
     (''X-GitHub-Event'' := ''pull_request'')\<rparr>"

definition no_trace :: edge_trace where
  "no_trace = \<lparr>et_id = [], et_inject = Map.empty\<rparr>"

abbreviation pr_raw :: message where
  "pr_raw \<equiv> gateway_message no_trace pr_request sample_pr"

lemma pr_accepted: "handleGitHub ''dev-secret'' tr True pr_request = (202, Some (gateway_message tr pr_request sample_pr))"
proof -
  have "length sample_pr \<le> body_limit" by (simp add: sample_pr_def body_limit_def)
  then have "read_body pr_request = Some sample_pr" by (simp add: read_body_def pr_request_def signed_request_def)
  moreover have "validSignature ''dev-secret'' (rq_header pr_request ''X-Hub-Signature-256'') sample_pr"
    by (simp add: pr_request_def signed_request_def validSignature_def)
  moreover have "rq_method pr_request = ''POST''" by (simp add: pr_request_def signed_request_def)
  ultimately show ?thesis by (simp add: handleGitHub_def Let_def)
qed

lemma pr_raw_simps: "event_of pr_raw = ''pull_request''" "delivery_of pr_raw = ''d-1''" "msg_Value pr_raw = sample_pr"
  by (simp_all add: event_of_def delivery_of_def gateway_message_def no_trace_def pr_request_def signed_request_def hget_def header_names)

text \<open>The stage without credentials, and with them: two different messages.\<close>

definition idle_enricher :: enricher where
  "idle_enricher = sample_enricher\<lparr>en_client := False\<rparr>"

lemma status_stamped:
  assumes "enrich c (event_of raw) (msg_Value raw) env s = ((body, status, t), s')"
  obtains m where "enriched_message c Map.empty raw env s = (m, s')" "msg_Headers m HeaderEnrichStatus = Some status"
    "msg_Value m = body"
proof -
  have "HeaderEnrichStatus \<noteq> HeaderOccurredAt" by (simp add: header_names)
  with assms that show ?thesis
    unfolding enriched_message_def event_of_def [symmetric] by (cases "is_zero t") (simp_all add: Let_def)
qed

lemma idle_result:
  "\<exists>t. enrich idle_enricher ''pull_request'' sample_pr churn_env churn_state = ((sample_pr, statusDisabled, t), churn_state)"
proof -
  obtain pe where pe: "unmarshal (dec_struct pr_envelope_fields) zero_pr_envelope sample_pr = Some pe"
    "pv_Installation pe = sample_installation" "pv_FullName pe = ''acme/app''"
    using sample_envelope by (auto simp: map_option_eq_Some)
  then show ?thesis by (simp add: enrich_def Let_def idle_enricher_def sample_installation_def)
qed

lemma pr_disabled:
  obtains m s' where "enriched_message idle_enricher Map.empty pr_raw churn_env churn_state = (m, s')"
    "msg_Headers m HeaderEnrichStatus = Some statusDisabled" "msg_Value m = sample_pr"
proof -
  obtain t where "enrich idle_enricher (event_of pr_raw) (msg_Value pr_raw) churn_env churn_state = ((sample_pr, statusDisabled, t), churn_state)"
    using idle_result by (auto simp: pr_raw_simps)
  then show ?thesis using that by (rule status_stamped)
qed

lemma pr_enriched:
  obtains m s' where "enriched_message sample_enricher Map.empty pr_raw churn_env churn_state = (m, s')"
    "msg_Headers m HeaderEnrichStatus = Some statusEnriched"
proof -
  obtain merged t s' where "enrich sample_enricher (event_of pr_raw) (msg_Value pr_raw) churn_env churn_state = ((merged, statusEnriched, t), s')"
    using sample_merges by (auto simp: pr_raw_simps)
  then show ?thesis using that by (rule status_stamped)
qed

lemma pr_processed:
  assumes "event_of m = ''pull_request''" "delivery_of m = ''d-1''" "msg_Value m = sample_pr"
  obtains db' where "process Normalize (sample_env never) False m sample_db = (Inr (), db')" "length (t_items (db_tabs db')) = 1"
proof -
  have "raw_of (sample_env never) m = raw_of (sample_env never) (sample_msg ''pull_request'' sample_pr)"
    using assms by (simp add: raw_of_def sample_msg_def event_of_def delivery_of_def hget_def header_names)
  then have same: "process Normalize (sample_env never) False m sample_db = pr_run never" by (simp only: process_def)
  show ?thesis by (rule pr_run_never) (rule that, simp_all add: same)
qed

theorem pipeline_once_witness:
  "\<exists>m1 m2 db1. msg_Headers m1 HeaderEnrichStatus = Some statusDisabled \<and> msg_Headers m2 HeaderEnrichStatus = Some statusEnriched \<and>
     process Normalize (sample_env never) False m1 sample_db = (Inr (), db1) \<and> length (t_items (db_tabs db1)) = 1 \<and>
     db_tabs (snd (process Normalize (sample_env (fails_at 5)) False m2 db1)) = db_tabs db1"
proof -
  obtain m1 s1 where m1: "enriched_message idle_enricher Map.empty pr_raw churn_env churn_state = (m1, s1)"
    "msg_Headers m1 HeaderEnrichStatus = Some statusDisabled" "msg_Value m1 = sample_pr" by (rule pr_disabled)
  obtain m2 s2 where m2: "enriched_message sample_enricher Map.empty pr_raw churn_env churn_state = (m2, s2)"
    "msg_Headers m2 HeaderEnrichStatus = Some statusEnriched" by (rule pr_enriched)
  have e: "dom (Map.empty :: headers) \<subseteq> w3c_keys" by simp
  have "event_of m1 = ''pull_request''" "delivery_of m1 = ''d-1''" using inject_keeps [OF m1(1) e] pr_raw_simps by simp_all
  then obtain db1 where db1: "process Normalize (sample_env never) False m1 sample_db = (Inr (), db1)" "length (t_items (db_tabs db1)) = 1"
    using m1(3) by (rule pr_processed)
  have t: "dom (et_inject no_trace) \<subseteq> w3c_keys" by (simp add: no_trace_def)
  have d: "rq_header pr_request ''X-GitHub-Delivery'' \<noteq> []" by (simp add: pr_request_def signed_request_def)
  have "plain_object sample_pr" by code_simp
  then have "mergeable pr_raw" by (simp add: mergeable_def pr_raw_simps)
  from pipeline_once [OF pr_accepted pr_accepted t t refl refl refl d this m1(1) m2(1) e e db1(1) sample_quiet(1) sample_quiet(1)]
  have "db_tabs (snd (process Normalize (sample_env (fails_at 5)) False m2 db1)) = db_tabs db1" .
  with m1(2) m2(2) db1 show ?thesis by blast
qed

theorem archive_matches_witness:
  "\<exists>st'. archive (ResolveTenant False sample_db) map_put ''raw-github'' day_one pr_raw Map.empty = (Inr (), st') \<and>
     st' (''raw-github'', archive_key acme day_one ''d-1'') = Some sample_pr"
proof -
  obtain m s where m: "enriched_message idle_enricher Map.empty pr_raw churn_env churn_state = (m, s)" "msg_Value m = sample_pr"
    by (rule pr_disabled)
  have e: "dom (Map.empty :: headers) \<subseteq> w3c_keys" by simp
  have k: "event_of m = ''pull_request''" "delivery_of m = ''d-1''" using inject_keeps [OF m(1) e] pr_raw_simps by simp_all
  have "plain_object sample_pr" by code_simp
  then have g: "mergeable pr_raw" by (simp add: mergeable_def pr_raw_simps)
  obtain res where "target (sample_msg ''pull_request'' sample_pr) sample_db = Some (res, acme)"
    by (rule sample_target [of sample_db]) (simp_all add: sample_db_def)
  moreover have "raw_of undefined m = raw_of undefined (sample_msg ''pull_request'' sample_pr)"
    using k m(2) by (simp add: raw_of_def sample_msg_def event_of_def delivery_of_def hget_def header_names)
  ultimately have t: "target m sample_db = Some (res, acme)" by (simp add: target_def)
  have "tenantPartition (ResolveTenant False sample_db) sample_pr = Inr acme" by code_simp
  then obtain st' where a: "archive (ResolveTenant False sample_db) map_put ''raw-github'' day_one pr_raw Map.empty = (Inr (), st')"
    by (cases "archive (ResolveTenant False sample_db) map_put ''raw-github'' day_one pr_raw Map.empty")
      (auto simp: archive_put pr_raw_simps PutIfAbsent_def map_put_def precondition_error_def preconditionFailed_def split: if_splits)
  from archive_matches [OF m(1) e g t _ map_put_law a] k a show ?thesis by (simp add: pr_raw_simps)
qed

end
