(* ===== verification/OutboxRelay.thy ===== *)
theory OutboxRelay
  imports WriteModel Kafka Events
begin

text \<open>
  The outbox relay (services/outbox-relay/main.go): \<open>drainBatch\<close> on the outbox table and the
  broker's log, the polling decision of the main loop, and the system of a relay draining
  while transactions append rows, as a step relation.
\<close>

section \<open>The code\<close>

text \<open>A message as the broker keeps it.\<close>

record kmessage =
  km_topic :: string
  km_key :: string
  km_value :: bytes
  km_headers :: headers

text \<open>
  What a pass depends on: whether begin, the query and the update fail, the rows others hold
  locked, the broker's answers, the headers the tracer injects for a parent, the clock, and
  how the commit ends.
\<close>

record drain_env =
  dr_begin_fails :: bool
  dr_query_fails :: bool
  dr_locked :: "int \<Rightarrow> bool"
  dr_write :: "nat \<Rightarrow> write_outcome"
  dr_inject :: "string \<Rightarrow> headers"
  dr_now :: gtime
  dr_update_fails :: bool
  dr_commit_ok :: bool
  dr_commit_applied :: bool

text \<open>
  The query: unpublished rows in the order of their ids, locked ones skipped, at most
  \<open>batchSize\<close>; a negative limit is an error of the database.
\<close>

definition select_batch :: "(int \<Rightarrow> bool) \<Rightarrow> int \<Rightarrow> outbox_row list \<Rightarrow> outbox_row list option" where
  "select_batch locked batchSize rows =
     (if batchSize < 0 then None
      else Some (take (nat batchSize)
             (filter (\<lambda>o'. \<not> locked (o_id o')) (sort_key o_id (filter (\<lambda>o'. o_published o' = None) rows)))))"

definition row_message :: "(string \<Rightarrow> headers) \<Rightarrow> outbox_row \<Rightarrow> kmessage" where
  "row_message inject o' =
     \<lparr>km_topic = o_topic o', km_key = o_key o', km_value = o_payload o',
      km_headers = (let h = inject (o_traceparent o')
                    in if o_trace o' \<noteq> [] then h(HeaderTraceID \<mapsto> o_trace o') else h)\<rparr>"

text \<open>
  The loop over the batch: the messages that reach the broker, each with its row's id, and the
  ids it counts as published.
\<close>

definition sent :: "(string \<Rightarrow> headers) \<Rightarrow> outbox_row \<Rightarrow> int \<times> kmessage" where
  "sent inject o' = (o_id o', row_message inject o')"

fun publish :: "(string \<Rightarrow> headers) \<Rightarrow> (nat \<Rightarrow> write_outcome) \<Rightarrow> nat \<Rightarrow> outbox_row list \<Rightarrow> (int \<times> kmessage) list \<times> int list" where
  "publish inject w n [] = ([], [])"
| "publish inject w n (o' # os) =
     (case w n of
        WriteOk \<Rightarrow> (let (ms, ids) = publish inject w (Suc n) os in (sent inject o' # ms, o_id o' # ids))
      | WriteFail \<Rightarrow> ([], [])
      | WriteLost \<Rightarrow> ([sent inject o'], []))"

definition mark_published :: "gtime \<Rightarrow> int list \<Rightarrow> outbox_row list \<Rightarrow> outbox_row list" where
  "mark_published now ids rows =
     map (\<lambda>o'. if o_id o' \<in> set ids then o'\<lparr>o_published := Some (pg_time now)\<rparr> else o') rows"

text \<open>One pass: the count or an error, the table after it, and the messages sent.\<close>

definition drainBatch :: "drain_env \<Rightarrow> int \<Rightarrow> outbox_row list \<Rightarrow> (unit + nat) \<times> outbox_row list \<times> (int \<times> kmessage) list" where
  "drainBatch env batchSize rows =
     (if dr_begin_fails env \<or> dr_query_fails env then (Inl (), rows, [])
      else case select_batch (dr_locked env) batchSize rows of
        None \<Rightarrow> (Inl (), rows, [])
      | Some batch \<Rightarrow>
          if batch = [] then (Inr 0, rows, [])
          else
            (case publish (dr_inject env) (dr_write env) 0 batch of
               (msgs, ids) \<Rightarrow>
                 if ids \<noteq> [] \<and> dr_update_fails env then (Inl (), rows, msgs)
                 else
                   let rows' = (if ids = [] then rows else mark_published (dr_now env) ids rows)
                   in if dr_commit_ok env then (Inr (length ids), rows', msgs)
                      else (Inl (), if dr_commit_applied env then rows' else rows, msgs)))"

text \<open>The main loop sleeps after a pass that published nothing, errors included.\<close>

definition idles :: "unit + nat \<Rightarrow> bool" where
  "idles r \<longleftrightarrow> (case r of Inl _ \<Rightarrow> True | Inr n \<Rightarrow> n = 0)"

section \<open>A pass\<close>

definition pending :: "outbox_row list \<Rightarrow> outbox_row list" where
  "pending rows = filter (\<lambda>o'. o_published o' = None) rows"

lemma mark_none [simp]: "mark_published t [] rows = rows"
  by (simp add: mark_published_def)

lemma publish_prefix:
  "publish inject w n os = (ms, ids) \<Longrightarrow>
     \<exists>k l. ids = map o_id (take k os) \<and> ms = map (sent inject) (take l os) \<and> k \<le> l \<and> k \<le> length os"
proof (induction os arbitrary: n ms ids)
  case (Cons o' os)
  show ?case
  proof (cases "w n")
    case WriteOk
    obtain ms' ids' where p: "publish inject w (Suc n) os = (ms', ids')" by fastforce
    with Cons.IH obtain k l where "ids' = map o_id (take k os)" "ms' = map (sent inject) (take l os)"
      "k \<le> l" "k \<le> length os" by blast
    with Cons.prems WriteOk p show ?thesis by (intro exI [of _ "Suc k"] exI [of _ "Suc l"]) auto
  next
    case WriteFail
    with Cons.prems show ?thesis by (intro exI [of _ 0]) simp
  next
    case WriteLost
    with Cons.prems show ?thesis by (intro exI [of _ 0] exI [of _ 1]) simp
  qed
qed auto

lemma publish_all: "\<forall>n. w n = WriteOk \<Longrightarrow> publish inject w n os = (map (sent inject) os, map o_id os)"
  by (induction os arbitrary: n) simp_all

text \<open>
  What a pass does, whatever fails: it sends the messages of a prefix of the selected rows and
  marks a shorter or equal prefix.
\<close>

lemma drain_shape:
  assumes "drainBatch env batchSize rows = (r, rows', msgs)"
  obtains batch k l where "select_batch (dr_locked env) batchSize rows = Some batch" "k \<le> l" "k \<le> length batch"
      "rows' = mark_published (dr_now env) (map o_id (take k batch)) rows"
      "msgs = map (sent (dr_inject env)) (take l batch)"
      "r = Inr (length (take k batch)) \<or> r = Inl ()"
    | "rows' = rows" "msgs = []" "r = Inl ()"
proof (cases "dr_begin_fails env \<or> dr_query_fails env \<or> select_batch (dr_locked env) batchSize rows = None")
  case True
  with assms have "rows' = rows \<and> msgs = [] \<and> r = Inl ()"
    by (auto simp: drainBatch_def split: if_splits)
  with that(2) show ?thesis by blast
next
  case False
  then obtain batch where b: "select_batch (dr_locked env) batchSize rows = Some batch" by auto
  obtain ms ids where p: "publish (dr_inject env) (dr_write env) 0 batch = (ms, ids)" by fastforce
  from publish_prefix [OF p] obtain k l where kl: "ids = map o_id (take k batch)"
    "ms = map (sent (dr_inject env)) (take l batch)" "k \<le> l" "k \<le> length batch" by blast
  show ?thesis
  proof (cases "batch = []")
    case True
    with assms False b that(1) [of "[]" 0 0] show ?thesis by (auto simp: drainBatch_def)
  next
    case ne: False
    have "rows' = mark_published (dr_now env) ids rows \<and> msgs = ms \<and> (r = Inr (length ids) \<or> r = Inl ()) \<or>
        rows' = rows \<and> msgs = ms \<and> r = Inl ()"
      using assms False b p ne by (auto simp: drainBatch_def Let_def split: if_splits)
    then show ?thesis
    proof
      assume "rows' = mark_published (dr_now env) ids rows \<and> msgs = ms \<and> (r = Inr (length ids) \<or> r = Inl ())"
      with b kl that(1) [of batch k l] show ?thesis by simp
    next
      assume "rows' = rows \<and> msgs = ms \<and> r = Inl ()"
      with b kl that(1) [of batch 0 l] show ?thesis by simp
    qed
  qed
qed

section \<open>The system\<close>

text \<open>
  The part of the system in which transactions do not overlap, as with one normalizer: a relay
  drains, with any faults, and between its passes a transaction appends unpublished rows with
  ids above every id handed out before. Other relays hold no locks. Overlapping transactions,
  whose ids become visible in any order, are in theory Relays; \<open>relay_is_fleet\<close> of theory
  VisibleOrder shows that every run here is one there.
\<close>

record relay_state =
  rl_rows :: "outbox_row list"
  rl_seq :: int
  rl_log :: "(int \<times> kmessage) list"

inductive relay_step :: "relay_state \<Rightarrow> relay_state \<Rightarrow> bool" where
  stage: "rl_seq s \<le> seq' \<Longrightarrow> sorted_wrt (<) (map o_id new) \<Longrightarrow>
      \<forall>o' \<in> set new. rl_seq s \<le> o_id o' \<and> o_id o' < seq' \<and> o_published o' = None \<Longrightarrow>
      relay_step s (s\<lparr>rl_rows := rl_rows s @ new, rl_seq := seq'\<rparr>)"
| drain: "drainBatch env batchSize (rl_rows s) = (r, rows', msgs) \<Longrightarrow> \<forall>i. \<not> dr_locked env i \<Longrightarrow>
      relay_step s (s\<lparr>rl_rows := rows', rl_log := rl_log s @ msgs\<rparr>)"

inductive relay_reach :: "relay_state \<Rightarrow> bool" where
  start: "relay_reach \<lparr>rl_rows = [], rl_seq = n, rl_log = []\<rparr>"
| step: "relay_reach s \<Longrightarrow> relay_step s s' \<Longrightarrow> relay_reach s'"

lemma relay_stepE:
  assumes "relay_step s s'"
  obtains (stage) seq' new where "s' = s\<lparr>rl_rows := rl_rows s @ new, rl_seq := seq'\<rparr>" "rl_seq s \<le> seq'"
      "sorted_wrt (<) (map o_id new)"
      "\<forall>o' \<in> set new. rl_seq s \<le> o_id o' \<and> o_id o' < seq' \<and> o_published o' = None"
    | (drain) env batchSize r rows' msgs where "s' = s\<lparr>rl_rows := rows', rl_log := rl_log s @ msgs\<rparr>"
      "drainBatch env batchSize (rl_rows s) = (r, rows', msgs)" "\<forall>i. \<not> dr_locked env i"
  using assms by (cases rule: relay_step.cases) blast+

text \<open>The rows' ids increase, below the sequence.\<close>

definition ids_ordered :: "relay_state \<Rightarrow> bool" where
  "ids_ordered s \<longleftrightarrow>
     sorted_wrt (<) (map o_id (rl_rows s)) \<and> (\<forall>o' \<in> set (rl_rows s). o_id o' < rl_seq s)"

text \<open>What is marked was sent, and what was sent is a row.\<close>

definition marked_sent :: "relay_state \<Rightarrow> bool" where
  "marked_sent s \<longleftrightarrow> (\<forall>o' \<in> set (rl_rows s). o_published o' = None \<or> o_id o' \<in> fst ` set (rl_log s))"

definition carries :: "int \<times> kmessage \<Rightarrow> outbox_row \<Rightarrow> bool" where
  "carries im o' \<longleftrightarrow> fst im = o_id o' \<and> km_topic (snd im) = o_topic o' \<and> km_key (snd im) = o_key o' \<and>
     km_value (snd im) = o_payload o'"

definition sent_rows :: "relay_state \<Rightarrow> bool" where
  "sent_rows s \<longleftrightarrow> (\<forall>im \<in> set (rl_log s). \<exists>o' \<in> set (rl_rows s). carries im o')"

text \<open>No event overtakes one with a smaller id.\<close>

definition in_order :: "relay_state \<Rightarrow> bool" where
  "in_order s \<longleftrightarrow>
     (\<forall>j < length (rl_log s). \<forall>o' \<in> set (rl_rows s).
        o_id o' < fst (rl_log s ! j) \<longrightarrow> (\<exists>i < j. fst (rl_log s ! i) = o_id o'))"

lemma sorted_key_id: "sorted_wrt (<) (map o_id rows) \<Longrightarrow> sort_key o_id rows = rows"
  by (rule sort_key_id_if_sorted) (simp add: sorted_wrt_map sorted_wrt_mono_rel [of _ "\<lambda>x y. o_id x < o_id y"])

lemma pending_sorted: "sorted_wrt (<) (map o_id rows) \<Longrightarrow> sorted_wrt (<) (map o_id (pending rows))"
  by (simp add: pending_def sorted_wrt_map sorted_wrt_filter)

lemma select_pending:
  assumes "sorted_wrt (<) (map o_id rows)" "\<forall>i. \<not> locked i"
  shows "select_batch locked n rows = (if n < 0 then None else Some (take (nat n) (pending rows)))"
proof -
  have "filter (\<lambda>o'. \<not> locked (o_id o')) rs = rs" for rs :: "outbox_row list" using assms(2) by (induction rs) auto
  moreover have "sort_key o_id (filter (\<lambda>o'. o_published o' = None) rows) = pending rows"
    using sorted_key_id [OF pending_sorted [OF assms(1)]] by (simp add: pending_def)
  ultimately show ?thesis unfolding select_batch_def by simp
qed

lemma mark_ids [simp]: "map o_id (mark_published t ids rows) = map o_id rows"
  by (simp add: mark_published_def comp_def cong: if_cong)

lemma mark_mem:
  "o' \<in> set (mark_published t ids rows) \<Longrightarrow>
   \<exists>q \<in> set rows. o_id o' = o_id q \<and> o_topic o' = o_topic q \<and> o_key o' = o_key q \<and> o_payload o' = o_payload q \<and>
     (o_published o' = o_published q \<or> o_id q \<in> set ids)"
  by (auto simp: mark_published_def)

lemma mark_mem_back:
  "q \<in> set rows \<Longrightarrow> \<exists>o' \<in> set (mark_published t ids rows).
     o_id o' = o_id q \<and> o_topic o' = o_topic q \<and> o_key o' = o_key q \<and> o_payload o' = o_payload q"
  by (rule bexI [of _ "if o_id q \<in> set ids then q\<lparr>o_published := Some (pg_time t)\<rparr> else q"])
    (auto simp: mark_published_def)

text \<open>A drain of ordered rows, spelled out over the pending ones.\<close>

lemma drain_pending:
  assumes "drainBatch env batchSize rows = (r, rows', msgs)" "\<forall>i. \<not> dr_locked env i"
    "sorted_wrt (<) (map o_id rows)"
  obtains k l where "k \<le> l" "rows' = mark_published (dr_now env) (map o_id (take k (pending rows))) rows"
    "msgs = map (sent (dr_inject env)) (take l (pending rows))"
  using assms(1)
proof (cases rule: drain_shape)
  case (1 batch k l)
  from 1(1) have "batch = take (nat batchSize) (pending rows)"
    unfolding select_pending [OF assms(3,2)] by (simp split: if_splits)
  with 1 that [of "min k (nat batchSize)" "min l (nat batchSize)"] show ?thesis by (auto simp: min_def)
next
  case 2
  with that [of 0 0] show ?thesis by simp
qed

lemma take_sorted_smaller:
  assumes "sorted_wrt (<) (map o_id ps)" "j < length (take l ps)" "o' \<in> set ps" "o_id o' < o_id (take l ps ! j)"
  shows "\<exists>i < j. o_id (take l ps ! i) = o_id o'"
proof -
  from assms(3) obtain i where i: "i < length ps" "ps ! i = o'" by (auto simp: in_set_conv_nth)
  have "i < j"
  proof (rule ccontr)
    assume "\<not> i < j"
    then have "i = j \<or> o_id (ps ! j) < o_id (ps ! i)"
      using sorted_wrt_nth_less [OF assms(1), of j i] i(1) by fastforce
    with assms(2,4) i(2) show False by auto
  qed
  with assms(2) i show ?thesis by (intro exI [of _ i]) simp
qed

definition relay_inv :: "relay_state \<Rightarrow> bool" where
  "relay_inv s \<longleftrightarrow> ids_ordered s \<and> marked_sent s \<and> sent_rows s \<and> in_order s"

lemma relay_step_inv:
  assumes "relay_step s s'" "relay_inv s"
  shows "relay_inv s'"
  using assms(1)
proof (cases rule: relay_stepE)
  case (stage seq' new)
  have old: "o_id o' < rl_seq s" if "o' \<in> set (rl_rows s)" for o'
    using assms(2) that by (simp add: relay_inv_def ids_ordered_def)
  have "ids_ordered s'"
    using assms(2) stage old by (force simp: relay_inv_def ids_ordered_def sorted_wrt_append)
  moreover have "marked_sent s'" "sent_rows s'"
    using assms(2) stage by (auto simp: relay_inv_def marked_sent_def sent_rows_def)
  moreover have "in_order s'"
    unfolding in_order_def
  proof (intro allI impI ballI)
    fix j o' assume j: "j < length (rl_log s')" and o': "o' \<in> set (rl_rows s')" and less: "o_id o' < fst (rl_log s' ! j)"
    have log: "rl_log s' = rl_log s" using stage by simp
    with j have "rl_log s ! j \<in> set (rl_log s)" by simp
    then have "fst (rl_log s ! j) < rl_seq s"
      using assms(2) old unfolding relay_inv_def sent_rows_def carries_def by metis
    with less log stage o' have "o' \<in> set (rl_rows s)" by force
    with assms(2) j less log show "\<exists>i<j. fst (rl_log s' ! i) = o_id o'"
      by (simp add: relay_inv_def in_order_def)
  qed
  ultimately show ?thesis by (simp add: relay_inv_def)
next
  case (drain env batchSize r rows' msgs)
  let ?ps = "pending (rl_rows s)"
  have sorted: "sorted_wrt (<) (map o_id (rl_rows s))" using assms(2) by (simp add: relay_inv_def ids_ordered_def)
  obtain k l where kl: "k \<le> l" and rows: "rows' = mark_published (dr_now env) (map o_id (take k ?ps)) (rl_rows s)"
    and msgs: "msgs = map (sent (dr_inject env)) (take l ?ps)"
    using drain_pending [OF drain(2,3) sorted] .
  have s': "rl_rows s' = rows'" "rl_log s' = rl_log s @ msgs" "rl_seq s' = rl_seq s" using drain(1) by simp_all
  have ids: "map fst msgs = map o_id (take l ?ps)" by (simp add: msgs sent_def)
  have "ids_ordered s'"
    using assms(2) rows s' unfolding relay_inv_def ids_ordered_def by (auto dest!: mark_mem)
  moreover have "marked_sent s'"
    unfolding marked_sent_def
  proof
    fix o' assume "o' \<in> set (rl_rows s')"
    then obtain q where q: "q \<in> set (rl_rows s)" "o_id o' = o_id q"
      "o_published o' = o_published q \<or> o_id q \<in> set (map o_id (take k ?ps))"
      using mark_mem rows s'(1) by metis
    have "set (map o_id (take k ?ps)) \<subseteq> fst ` set msgs"
      using kl arg_cong [OF ids, of set] set_take_subset_set_take [OF kl, of ?ps] by auto
    with q assms(2) s'(2) show "o_published o' = None \<or> o_id o' \<in> fst ` set (rl_log s')"
      unfolding relay_inv_def marked_sent_def by (auto simp: image_Un)
  qed
  moreover have "sent_rows s'"
    unfolding sent_rows_def
  proof
    fix im assume "im \<in> set (rl_log s')"
    moreover have "\<exists>q \<in> set (rl_rows s). carries im q" if "im \<in> set msgs"
      using that set_take_subset [of l ?ps]
      by (auto simp: msgs sent_def carries_def row_message_def pending_def Let_def)
    ultimately obtain q where "q \<in> set (rl_rows s)" "carries im q"
      using assms(2) s'(2) by (auto simp: relay_inv_def sent_rows_def)
    with mark_mem_back [OF this(1)] show "\<exists>o' \<in> set (rl_rows s'). carries im o'"
      unfolding s'(1) rows carries_def by metis
  qed
  moreover have "in_order s'"
    unfolding in_order_def
  proof (intro allI impI ballI)
    fix j o' assume j: "j < length (rl_log s')" and o': "o' \<in> set (rl_rows s')" and less: "o_id o' < fst (rl_log s' ! j)"
    obtain q where q: "q \<in> set (rl_rows s)" "o_id o' = o_id q" using mark_mem rows s'(1) o' by metis
    show "\<exists>i<j. fst (rl_log s' ! i) = o_id o'"
    proof (cases "j < length (rl_log s)")
      case True
      with less q have "o_id q < fst (rl_log s ! j)" by (simp add: s'(2) nth_append)
      with True q assms(2) obtain i where "i < j" "fst (rl_log s ! i) = o_id q"
        unfolding relay_inv_def in_order_def by blast
      with True q show ?thesis by (intro exI [of _ i]) (simp add: s'(2) nth_append)
    next
      case False
      define j' where "j' = j - length (rl_log s)"
      have len: "j' < length (take l ?ps)" using j False by (auto simp: s'(2) msgs j'_def)
      then have "fst (msgs ! j') = o_id (take l ?ps ! j')" by (simp add: msgs sent_def)
      with len False have j': "j' < length (take l ?ps)" "fst (rl_log s' ! j) = o_id (take l ?ps ! j')"
        by (simp_all add: s'(2) nth_append j'_def)
      show ?thesis
      proof (cases "q \<in> set ?ps")
        case True
        from take_sorted_smaller [OF pending_sorted [OF sorted] j'(1) True] less q j'(2)
        obtain i where "i < j'" "o_id (take l ?ps ! i) = o_id q" by auto
        with j'(1) False q show ?thesis
          by (intro exI [of _ "length (rl_log s) + i"]) (auto simp: s'(2) nth_append msgs sent_def j'_def)
      next
        case notin: False
        with q(1) have "o_published q \<noteq> None" by (simp add: pending_def)
        moreover have "marked_sent s" using assms(2) by (simp add: relay_inv_def)
        ultimately have "o_id q \<in> fst ` set (rl_log s)" using q(1) unfolding marked_sent_def by auto
        then obtain i where "i < length (rl_log s)" "fst (rl_log s ! i) = o_id q"
          by (metis imageE in_set_conv_nth)
        with False q show ?thesis by (intro exI [of _ i]) (simp add: s'(2) nth_append)
      qed
    qed
  qed
  ultimately show ?thesis by (simp add: relay_inv_def)
qed

lemma relay_reach_inv: "relay_reach s \<Longrightarrow> relay_inv s"
proof (induction rule: relay_reach.induct)
  case (start n)
  then show ?case by (simp add: relay_inv_def ids_ordered_def marked_sent_def sent_rows_def in_order_def)
next
  case (step s s')
  then show ?case using relay_step_inv by blast
qed

section \<open>Properties\<close>

text \<open>
  At least once and nothing else: in every reachable state each row stamped as published
  is in the broker's log, and each message of the log carries the topic, key and exact payload
  bytes of a row of the outbox.
\<close>

theorem relay_exact:
  assumes "relay_reach s"
  shows "(\<forall>o' \<in> set (rl_rows s). o_published o' \<noteq> None \<longrightarrow> (\<exists>im \<in> set (rl_log s). carries im o')) \<and>
    (\<forall>im \<in> set (rl_log s). \<exists>o' \<in> set (rl_rows s). carries im o')"
proof (intro conjI ballI impI)
  note inv = relay_reach_inv [OF assms]
  have sent: "\<exists>q \<in> set (rl_rows s). carries im q" if "im \<in> set (rl_log s)" for im
    using inv that by (simp add: relay_inv_def sent_rows_def)
  then show "\<exists>o' \<in> set (rl_rows s). carries im o'" if "im \<in> set (rl_log s)" for im using that .
  fix o' assume o': "o' \<in> set (rl_rows s)" "o_published o' \<noteq> None"
  with inv obtain im where im: "im \<in> set (rl_log s)" "fst im = o_id o'"
    unfolding relay_inv_def marked_sent_def by fastforce
  from sent [OF im(1)] obtain q where q: "q \<in> set (rl_rows s)" "carries im q" by blast
  have "distinct (map o_id (rl_rows s))"
    using inv by (simp add: relay_inv_def ids_ordered_def strict_sorted_iff)
  with q o'(1) im(2) have "q = o'" by (auto simp: carries_def distinct_map dest: inj_onD)
  with q(2) im(1) show "\<exists>im \<in> set (rl_log s). carries im o'" by blast
qed

text \<open>A pass in which nothing fails.\<close>

definition healthy :: "drain_env \<Rightarrow> bool" where
  "healthy env \<longleftrightarrow> \<not> dr_begin_fails env \<and> \<not> dr_query_fails env \<and> (\<forall>i. \<not> dr_locked env i) \<and>
     (\<forall>n. dr_write env n = WriteOk) \<and> \<not> dr_update_fails env \<and> dr_commit_ok env"

lemma pending_mark_ids: "pending (mark_published t ids rows) = filter (\<lambda>q. o_id q \<notin> set ids) (pending rows)"
  by (induction rows) (auto simp: pending_def mark_published_def)

lemma pending_mark:
  assumes "sorted_wrt (<) (map o_id rows)"
  shows "pending (mark_published t (map o_id (take n (pending rows))) rows) = drop n (pending rows)"
proof -
  let ?ids = "set (map o_id (take n (pending rows)))"
  have inj: "distinct (map o_id (pending rows))" using pending_sorted [OF assms] by (simp add: strict_sorted_iff)
  have "pending (mark_published t (map o_id (take n (pending rows))) rows) =
      filter (\<lambda>q. o_id q \<notin> ?ids) (pending rows)"
    by (rule pending_mark_ids)
  also have "\<dots> = filter (\<lambda>q. o_id q \<notin> ?ids) (take n (pending rows) @ drop n (pending rows))" by simp
  also have "\<dots> = drop n (pending rows)"
  proof -
    have "distinct (map o_id (take n (pending rows) @ drop n (pending rows)))" using inj by simp
    then have "\<forall>q \<in> set (drop n (pending rows)). o_id q \<notin> ?ids"
      unfolding map_append distinct_append by auto
    then show ?thesis unfolding filter_append by (simp add: filter_id_conv)
  qed
  finally show ?thesis .
qed

lemma healthy_pass:
  assumes "healthy env" "0 \<le> batchSize" "sorted_wrt (<) (map o_id rows)"
  shows "\<exists>rows' msgs. drainBatch env batchSize rows = (Inr (min (nat batchSize) (length (pending rows))), rows', msgs) \<and>
    pending rows' = drop (nat batchSize) (pending rows) \<and>
    map fst msgs = map o_id (take (nat batchSize) (pending rows)) \<and>
    map o_id rows' = map o_id rows"
proof -
  let ?b = "take (nat batchSize) (pending rows)"
  have sel: "select_batch (dr_locked env) batchSize rows = Some ?b"
    using select_pending [OF assms(3)] assms(1,2) by (simp add: healthy_def)
  have pub: "publish (dr_inject env) (dr_write env) 0 ?b = (map (sent (dr_inject env)) ?b, map o_id ?b)"
    using publish_all assms(1) by (simp add: healthy_def)
  have "drainBatch env batchSize rows =
      (Inr (length ?b), mark_published (dr_now env) (map o_id ?b) rows, map (sent (dr_inject env)) ?b)"
    using assms(1) sel pub by (auto simp: drainBatch_def healthy_def)
  then show ?thesis using pending_mark [OF assms(3)] by (simp add: sent_def comp_def min.commute)
qed

text \<open>
  Progress: a pass in which nothing fails publishes the first \<open>batchSize\<close> pending rows, in
  order, returns their number and leaves exactly the others pending; so after it the main
  loop idles only if the queue was empty.
\<close>

theorem drain_progress:
  assumes "healthy env" "0 < batchSize" "sorted_wrt (<) (map o_id rows)"
  shows "\<exists>r rows' msgs. drainBatch env batchSize rows = (r, rows', msgs) \<and>
    r = Inr (min (nat batchSize) (length (pending rows))) \<and>
    pending rows' = drop (nat batchSize) (pending rows) \<and>
    map fst msgs = map o_id (take (nat batchSize) (pending rows)) \<and>
    (idles r \<longleftrightarrow> pending rows = [])"
proof -
  have "min (nat batchSize) (length (pending rows)) = 0 \<longleftrightarrow> pending rows = []"
    using assms(2) by (auto simp: min_def)
  with healthy_pass [OF assms(1) less_imp_le [OF assms(2)] assms(3)] show ?thesis by (auto simp: idles_def)
qed

text \<open>Several passes, one after the other.\<close>

fun drain_times :: "drain_env \<Rightarrow> int \<Rightarrow> nat \<Rightarrow> outbox_row list \<Rightarrow> outbox_row list" where
  "drain_times env b 0 rows = rows"
| "drain_times env b (Suc n) rows = drain_times env b n (fst (snd (drainBatch env b rows)))"

text \<open>
  The queue drains: after n passes in which nothing fails, with n times \<open>batchSize\<close> at
  least the number of pending rows, no row is pending.
\<close>

theorem drain_empties:
  assumes "healthy env" "0 < batchSize" "sorted_wrt (<) (map o_id rows)"
    "length (pending rows) \<le> n * nat batchSize"
  shows "pending (drain_times env batchSize n rows) = []"
  using assms(3,4)
proof (induction n arbitrary: rows)
  case (Suc n)
  from healthy_pass [OF assms(1) less_imp_le [OF assms(2)] Suc.prems(1)] obtain rows' msgs where
    d: "drainBatch env batchSize rows = (Inr (min (nat batchSize) (length (pending rows))), rows', msgs)"
    and p: "pending rows' = drop (nat batchSize) (pending rows)" "map o_id rows' = map o_id rows" by blast
  have "sorted_wrt (<) (map o_id rows')" "length (pending rows') \<le> n * nat batchSize"
    using p Suc.prems by simp_all
  from Suc.IH [OF this] show ?case by (simp add: d)
qed simp

section \<open>A sample\<close>

definition sample_row :: "int \<Rightarrow> outbox_row" where
  "sample_row i = \<lparr>o_id = i, o_tenant = ''t'', o_event_id = ''e'', o_topic = TopicCanonical, o_key = ''t'',
     o_trace = [], o_traceparent = [], o_payload = ''p'', o_published = None\<rparr>"

text \<open>The second write is refused.\<close>

definition refuses_second :: "nat \<Rightarrow> write_outcome" where
  "refuses_second n = (if n = 1 then WriteFail else WriteOk)"

definition sample_drain :: "(nat \<Rightarrow> write_outcome) \<Rightarrow> drain_env" where
  "sample_drain w = \<lparr>dr_begin_fails = False, dr_query_fails = False, dr_locked = (\<lambda>_. False), dr_write = w,
     dr_inject = (\<lambda>_. Map.empty), dr_now = zero_time, dr_update_fails = False, dr_commit_ok = True,
     dr_commit_applied = True\<rparr>"

definition always_ok :: "nat \<Rightarrow> write_outcome" where
  "always_ok n = WriteOk"

lemma sample_healthy: "healthy (sample_drain always_ok)"
  by (simp add: healthy_def sample_drain_def always_ok_def)

definition sample_state :: relay_state where
  "sample_state = \<lparr>rl_rows = [sample_row 1, sample_row 2], rl_seq = 3, rl_log = []\<rparr>"

definition drain_state :: "(nat \<Rightarrow> write_outcome) \<Rightarrow> relay_state \<Rightarrow> relay_state" where
  "drain_state w s =
     (case drainBatch (sample_drain w) 10 (rl_rows s) of (r, rows', msgs) \<Rightarrow>
        s\<lparr>rl_rows := rows', rl_log := rl_log s @ msgs\<rparr>)"

lemma reach_sample: "relay_reach sample_state"
proof -
  let ?s0 = "\<lparr>rl_rows = [], rl_seq = 1, rl_log = []\<rparr>"
  have "relay_step ?s0 (?s0\<lparr>rl_rows := rl_rows ?s0 @ [sample_row 1, sample_row 2], rl_seq := 3\<rparr>)"
    by (rule relay_step.stage) (simp_all add: sample_row_def)
  with relay_reach.step [OF relay_reach.start] show ?thesis by (simp add: sample_state_def)
qed

lemma reach_drain: "relay_reach s \<Longrightarrow> relay_reach (drain_state w s)"
  by (rule relay_reach.step, assumption, unfold drain_state_def)
    (auto simp: sample_drain_def split: prod.split intro: relay_step.drain)

lemma reach_twice: "relay_reach (drain_state always_ok (drain_state refuses_second sample_state))"
  by (intro reach_drain reach_sample)

lemma twice_log:
  "map fst (rl_log (drain_state always_ok (drain_state refuses_second sample_state))) = [1, 2]"
  "map o_id (rl_rows (drain_state always_ok (drain_state refuses_second sample_state))) = [1, 2]"
  "list_all (\<lambda>q. o_published q \<noteq> None) (rl_rows (drain_state always_ok (drain_state refuses_second sample_state)))"
  by code_simp+

theorem relay_exact_witness:
  "\<exists>s. relay_reach s \<and> length (rl_log s) = 2 \<and> (\<exists>im \<in> set (rl_log s). \<exists>o' \<in> set (rl_rows s). carries im o')"
proof -
  let ?s = "drain_state always_ok (drain_state refuses_second sample_state)"
  have len: "length (rl_log ?s) = 2" using arg_cong [OF twice_log(1), of length] by simp
  then obtain im where im: "im \<in> set (rl_log ?s)" by (cases "rl_log ?s") auto
  from relay_exact [OF reach_twice] im have "\<exists>o' \<in> set (rl_rows ?s). carries im o'" by blast
  with im len reach_twice show ?thesis by blast
qed

lemma sample_rows: "sorted_wrt (<) (map o_id [sample_row 1, sample_row 2])"
  "pending [sample_row 1, sample_row 2] = [sample_row 1, sample_row 2]"
  by (simp_all add: sample_row_def pending_def)

theorem drain_progress_witness:
  "\<exists>r rows' msgs. drainBatch (sample_drain always_ok) 1 [sample_row 1, sample_row 2] = (r, rows', msgs) \<and>
     r = Inr 1 \<and> pending rows' = [sample_row 2]"
  using drain_progress [OF sample_healthy _ sample_rows(1), of 1] unfolding sample_rows(2) by auto

theorem drain_empties_witness:
  "pending (drain_times (sample_drain always_ok) 1 2 [sample_row 1, sample_row 2]) = []"
  using drain_empties [OF sample_healthy _ sample_rows(1), of 1 2] unfolding sample_rows(2) by simp

end
