(* ===== verification/TxRelation.thy ===== *)
theory TxRelation
  imports NormalizerFacts
begin

text \<open>
  A relation between the states before and after a computation of the normalizer's transaction,
  whatever its outcome: if the primitive steps keep it, the whole delivery does. Its instances
  here are the sequence, which never goes back, and the trace that new outbox rows carry.
\<close>

section \<open>The locale\<close>

text \<open>A statement that does not write to the outbox.\<close>

definition spares_outbox :: "(string \<Rightarrow> 'a statement) \<Rightarrow> bool" where
  "spares_outbox g \<longleftrightarrow> (\<forall>app t x t'. g app t = Some (x, t') \<longrightarrow> t_outbox t' = t_outbox t)"

lemma spares_outboxI: "(\<And>app t x t'. g app t = Some (x, t') \<Longrightarrow> t_outbox t' = t_outbox t) \<Longrightarrow> spares_outbox g"
  unfolding spares_outbox_def by blast

lemma spares_ops:
  "spares_outbox (\<lambda>app. stmt_item app merge w)" "spares_outbox (\<lambda>app. stmt_review app v)"
  "spares_outbox (\<lambda>app. stmt_check app k)" "spares_outbox (\<lambda>app. stmt_contributor app c)"
  "spares_outbox (\<lambda>app. stmt_link app l)" "spares_outbox (\<lambda>app. stmt_delivery app d)"
  "spares_outbox (\<lambda>app. stmt_select_link app p kd h)"
  by (rule spares_outboxI; erule stmt_outbox_only)+

locale tx_relation =
  fixes R :: "tx_env \<Rightarrow> tx_state \<Rightarrow> tx_state \<Rightarrow> bool"
  assumes R_refl: "R env s s"
    and R_trans: "R env s s' \<Longrightarrow> R env s' s'' \<Longrightarrow> R env s s''"
    and R_fresh: "R env s (s\<lparr>tx_uuid := Suc (tx_uuid s)\<rparr>)"
    and R_nextval: "R env s (s\<lparr>tx_seq := tx_seq s + 1\<rparr>)"
    and R_step: "quiet env \<Longrightarrow> R env s (s\<lparr>tx_stmt := Suc (tx_stmt s)\<rparr>)"
    and R_write: "t_outbox t = t_outbox (tx_tabs s) \<Longrightarrow> R env s (s\<lparr>tx_tabs := t\<rparr>)"
    and R_stage: "o_trace row = env_traceid env \<Longrightarrow> o_traceparent row = env_traceparent env \<Longrightarrow>
      R env s (s\<lparr>tx_tabs := (tx_tabs s)\<lparr>t_outbox := t_outbox (tx_tabs s) @ [row]\<rparr>\<rparr>)"
begin

definition kept :: "'a tx \<Rightarrow> bool" where
  "kept m \<longleftrightarrow> (\<forall>env s. quiet env \<longrightarrow> R env s (snd (m env s)))"

lemma kept_basic: "kept (eff_return x)" "kept (eff_fail e)" "kept tx_fresh" "kept (eff_ask f)" "kept tx_nextval"
  by (simp_all add: kept_def tx_defs R_refl R_fresh R_nextval)

lemma exec_step:
  assumes "quiet env" "\<And>x t. f (env_tenant env) (tx_tabs s) = Some (x, t) \<Longrightarrow>
    R env (s\<lparr>tx_stmt := Suc (tx_stmt s)\<rparr>) (s\<lparr>tx_stmt := Suc (tx_stmt s), tx_tabs := t\<rparr>)"
  shows "R env s (snd (tx_exec f env s))"
  using R_step [OF assms(1), of s] assms(2) R_trans [of env s "s\<lparr>tx_stmt := Suc (tx_stmt s)\<rparr>"]
  by (auto simp: tx_exec_def tx_step_def assms(1) [unfolded quiet_def] Let_def split: option.split)

lemma kept_exec: "spares_outbox g \<Longrightarrow> kept (tx_exec g)"
  unfolding kept_def
  by (intro allI impI exec_step) (auto simp: spares_outbox_def intro: R_write)

lemma kept_bind:
  assumes "kept m" "\<And>x. kept (f x)"
  shows "kept (eff_bind m f)"
  unfolding kept_def
proof (intro allI impI)
  fix env s assume q: "quiet env"
  obtain r s' where m: "m env s = (r, s')" by fastforce
  with assms(1) q have "R env s s'" unfolding kept_def by (metis snd_conv)
  with assms(2) m q show "R env s (snd (eff_bind m f env s))"
    by (cases r) (auto simp: eff_bind_def kept_def intro: R_trans)
qed

lemma kept_if: "(b \<Longrightarrow> kept m) \<Longrightarrow> (\<not> b \<Longrightarrow> kept m') \<Longrightarrow> kept (if b then m else m')"
  by simp

lemma kept_option:
  "(\<And>x. c = Some x \<Longrightarrow> kept (f x)) \<Longrightarrow> (c = None \<Longrightarrow> kept m) \<Longrightarrow> kept (case c of None \<Rightarrow> m | Some x \<Rightarrow> f x)"
  by (cases c) simp_all

lemma kept_emit: "kept (emit p t sid occ pl)"
  unfolding kept_def
proof (intro allI impI)
  fix env :: tx_env and s :: tx_state assume q: "quiet env"
  let ?s = "s\<lparr>tx_uuid := Suc (tx_uuid s)\<rparr>"
  show "R env s (snd (emit p t sid occ pl env s))"
  proof (cases "marshal_event (event_new (env_uuid env (tx_uuid s)) p t sid occ pl)")
    case None
    then show ?thesis by (simp add: emit_def enqueueOutbox_def tx_defs R_fresh)
  next
    case (Some payload)
    let ?s1 = "?s\<lparr>tx_seq := tx_seq s + 1\<rparr>"
    let ?row = "\<lparr>o_id = tx_seq s, o_tenant = p, o_event_id = ev_id (event_new (env_uuid env (tx_uuid s)) p t sid occ pl),
      o_topic = TopicCanonical, o_key = p, o_trace = env_traceid env, o_traceparent = env_traceparent env,
      o_payload = payload, o_published = None\<rparr>"
    have "snd (emit p t sid occ pl env s) = snd (tx_exec (\<lambda>app. stmt_outbox app ?row) env ?s1)"
      using Some by (simp add: emit_def enqueueOutbox_def tx_defs)
    moreover have "R env ?s1 (snd (tx_exec (\<lambda>app. stmt_outbox app ?row) env ?s1))"
      using R_stage [of ?row env "?s1\<lparr>tx_stmt := Suc (tx_stmt ?s1)\<rparr>"]
      by (intro exec_step [OF q]) (auto simp: stmt_outbox_def split: if_splits)
    moreover have "R env s ?s1" using R_trans [OF R_fresh R_nextval [of env ?s]] by simp
    ultimately show ?thesis using R_trans by simp
  qed
qed

lemmas kept_rules = kept_basic kept_bind kept_if kept_option kept_emit kept_exec spares_ops

lemma kept_ops:
  "kept (markDelivery p d e)" "kept (upsertWorkItem p wi)" "kept (ensureWorkItem p wi)"
  "kept (insertReview p i j rv)" "kept (upsertCheckRun p cr)" "kept (resolveContributor p login)"
  unfolding markDelivery_def upsertWorkItem_def ensureWorkItem_def insertReview_def upsertCheckRun_def
    resolveContributor_def Let_def
  by (intro kept_rules)+

lemma kept_items: "kept (persist_items p wis ids)"
  by (induction wis arbitrary: ids) (auto intro!: kept_rules kept_ops)

lemma kept_reviews: "kept (persist_reviews p ids rvs)"
  by (induction rvs) (auto intro!: kept_rules kept_ops split: option.split)

lemma kept_checks: "kept (persist_checks p crs)"
  by (induction crs) (auto intro!: kept_rules kept_ops)

lemma kept_comments: "kept (persist_comments p cms)"
  by (induction cms) (auto intro!: kept_rules kept_ops)

lemma kept_deliver: "kept (deliver p d e res)"
  unfolding deliver_def persist_def
  by (intro kept_rules kept_ops kept_items kept_reviews kept_checks kept_comments)

lemma deliver_run: "deliver p d e res env s = (r, s') \<Longrightarrow> quiet env \<Longrightarrow> R env s s'"
  using kept_deliver unfolding kept_def by (metis snd_conv)

end

section \<open>The instances\<close>

text \<open>No computation rewinds the sequence.\<close>

interpretation sequence: tx_relation "\<lambda>env s s'. tx_seq s \<le> tx_seq s'"
  by unfold_locales auto

text \<open>Every row a transaction stages carries the trace of its run.\<close>

definition stages_traced :: "tx_env \<Rightarrow> tx_state \<Rightarrow> tx_state \<Rightarrow> bool" where
  "stages_traced env s s' \<longleftrightarrow>
     (\<exists>new. t_outbox (tx_tabs s') = t_outbox (tx_tabs s) @ new \<and>
        (\<forall>row \<in> set new. o_trace row = env_traceid env \<and> o_traceparent row = env_traceparent env))"

interpretation traced: tx_relation stages_traced
proof
  fix env s s' s''
  show "stages_traced env s s" by (simp add: stages_traced_def)
  assume "stages_traced env s s'" "stages_traced env s' s''"
  then obtain new new' where "t_outbox (tx_tabs s') = t_outbox (tx_tabs s) @ new" "t_outbox (tx_tabs s'') = t_outbox (tx_tabs s') @ new'"
    "\<forall>row \<in> set new. o_trace row = env_traceid env \<and> o_traceparent row = env_traceparent env"
    "\<forall>row \<in> set new'. o_trace row = env_traceid env \<and> o_traceparent row = env_traceparent env"
    unfolding stages_traced_def by blast
  then show "stages_traced env s s''" unfolding stages_traced_def by (intro exI [of _ "new @ new'"]) auto
qed (auto simp: stages_traced_def)

end
