(* ===== verification/Config.thy ===== *)
theory Config
  imports Enricher
begin

text \<open>
  Configuration from the environment (libs/go/config, libs/go/githubapp/env.go, and what
  services/connector-github reads at its start). \<open>getenv\<close> is \<open>os.Getenv\<close>: the empty string for
  a variable that is not set. Reading a file, decoding PEM and parsing keys are arguments.
\<close>

section \<open>libs/go/config\<close>

type_synonym environment = "string \<Rightarrow> string"

definition config_String :: "environment \<Rightarrow> string \<Rightarrow> string \<Rightarrow> string" where
  "config_String getenv key d = (let v = getenv key in if v \<noteq> [] then v else d)"

definition config_List :: "environment \<Rightarrow> string \<Rightarrow> string \<Rightarrow> string list" where
  "config_List getenv key d = map trim_space (split_on (CHR '','') (config_String getenv key d))"

definition config_Int :: "environment \<Rightarrow> string \<Rightarrow> int \<Rightarrow> int" where
  "config_Int getenv key d =
     (let v = getenv key in
      if v \<noteq> [] then (case parse_int v of Some n \<Rightarrow> n | None \<Rightarrow> d) else d)"

text \<open>\<open>parse_duration\<close> is \<open>time.ParseDuration\<close>.\<close>

definition config_Duration :: "(string \<Rightarrow> int option) \<Rightarrow> environment \<Rightarrow> string \<Rightarrow> int \<Rightarrow> int" where
  "config_Duration parse_duration getenv key d =
     (let v = getenv key in
      if v \<noteq> [] then (case parse_duration v of Some n \<Rightarrow> n | None \<Rightarrow> d) else d)"

section \<open>The token source and the client\<close>

definition defaultAPIBase :: string where
  "defaultAPIBase = ''https://api.github.com''"

type_synonym token_option = "api_env \<Rightarrow> api_env"

definition WithAPIBase :: "string \<Rightarrow> token_option" where
  "WithAPIBase base env = env\<lparr>ae_base := base\<rparr>"

definition WithClock :: "(nat \<Rightarrow> gtime) \<Rightarrow> token_option" where
  "WithClock now env = env\<lparr>ae_now := now\<rparr>"

definition WithHTTPClient :: "(nat \<Rightarrow> http_request \<Rightarrow> http_response option) \<Rightarrow> token_option" where
  "WithHTTPClient http env = env\<lparr>ae_http := http\<rparr>"

text \<open>\<open>os\<close> is the outside world with the default clock and HTTP client.\<close>

definition NewTokenSource :: "api_env \<Rightarrow> app_credentials \<Rightarrow> token_option list \<Rightarrow> api_env" where
  "NewTokenSource os creds opts = foldl (\<lambda>ts opt. opt ts) (os\<lparr>ae_creds := creds, ae_base := defaultAPIBase\<rparr>) opts"

definition NewClient :: api_state where
  "NewClient = \<lparr>as_clock = 0, as_sent = [], as_budgets = Map.empty, as_cache = Map.empty\<rparr>"

datatype env_error = NotSet | AppIDNotNumeric string | KeyUnreadable string | BadCredentials key_error

definition LoadFromEnv :: "environment \<Rightarrow> (string \<Rightarrow> bytes option) \<Rightarrow> (bytes \<Rightarrow> key_error + private_key) \<Rightarrow> api_env
    \<Rightarrow> env_error + api_env \<times> api_state" where
  "LoadFromEnv getenv readFile parseKey os =
     (let appIDStr = config_String getenv ''GITHUB_APP_ID'' [];
          keyPath = config_String getenv ''GITHUB_APP_PRIVATE_KEY_PATH'' []
      in if appIDStr = [] \<or> keyPath = [] then Inl NotSet
         else case parse_int appIDStr of
           None \<Rightarrow> Inl (AppIDNotNumeric appIDStr)
         | Some appID \<Rightarrow>
             (case readFile keyPath of
                None \<Rightarrow> Inl (KeyUnreadable keyPath)
              | Some pemBytes \<Rightarrow>
                  (case (if appID = 0 then Inl ZeroAppID
                         else res_bind (parseKey pemBytes) (\<lambda>key. Inr \<lparr>ac_AppID = appID, ac_privateKey = key\<rparr>)) of
                     Inl e \<Rightarrow> Inl (BadCredentials e)
                   | Inr creds \<Rightarrow>
                       (let base = config_String getenv ''GITHUB_API_BASE'' [];
                            opts = (if base \<noteq> [] then [WithAPIBase base] else [])
                        in Inr (NewTokenSource os creds opts, NewClient)))))"

section \<open>The enrichment stage's settings\<close>

text \<open>The stage runs without a client when the credentials cannot be loaded.\<close>

definition connector_settings :: "environment \<Rightarrow> env_error + api_env \<times> api_state \<Rightarrow> bool \<Rightarrow> enricher" where
  "connector_settings getenv loaded slept =
     \<lparr>en_client = is_ok loaded, en_fetchPatches = config_String getenv ''ENRICH_PATCHES'' [] \<noteq> [],
      en_patchMaxBytes = config_Int getenv ''ENRICH_PATCH_MAX_BYTES'' 65536, en_slept = slept\<rparr>"

section \<open>What they give\<close>

lemma config_List_nonempty: "config_List getenv key d \<noteq> []"
  by (simp add: config_List_def)

lemma config_List_free: "s \<in> set (split_on (CHR '','') v) \<Longrightarrow> CHR '','' \<notin> set s"
  by (rule split_on_free)

text \<open>Without credentials nothing is enriched, and the messages pass as they are.\<close>

lemma unconfigured_passes:
  assumes "getenv ''GITHUB_APP_ID'' = [] \<or> getenv ''GITHUB_APP_PRIVATE_KEY_PATH'' = []"
  shows "fst (fst (enrich (connector_settings getenv (LoadFromEnv getenv readFile parseKey os) slept) ev body env s)) = body"
proof -
  have "LoadFromEnv getenv readFile parseKey os = Inl NotSet"
    using assms by (auto simp: LoadFromEnv_def config_String_def)
  then show ?thesis
    by (simp add: enrich_def connector_settings_def Let_def split: option.split)
qed

text \<open>
  Credentials are complete or there are none: \<open>LoadFromEnv\<close> succeeds exactly when both
  variables are set, the app id is a number that fits 64 bits and is not zero, and the key file
  can be read and parsed; then the token source has that app id and key and talks to
  \<open>GITHUB_API_BASE\<close>, or to api.github.com when it is not set, and the client starts with no
  token, no budget and nothing sent.
\<close>

lemma LoadFromEnv_iff:
  "LoadFromEnv getenv readFile parseKey os = Inr (env, s) \<longleftrightarrow>
     (\<exists>appID pem key. getenv ''GITHUB_APP_ID'' \<noteq> [] \<and> parse_int (getenv ''GITHUB_APP_ID'') = Some appID \<and>
        in64 appID \<and> appID \<noteq> 0 \<and> getenv ''GITHUB_APP_PRIVATE_KEY_PATH'' \<noteq> [] \<and>
        readFile (getenv ''GITHUB_APP_PRIVATE_KEY_PATH'') = Some pem \<and> parseKey pem = Inr key \<and>
        env = os\<lparr>ae_creds := \<lparr>ac_AppID = appID, ac_privateKey = key\<rparr>,
                 ae_base := (if getenv ''GITHUB_API_BASE'' = [] then defaultAPIBase else getenv ''GITHUB_API_BASE'')\<rparr> \<and>
        s = NewClient)"
  (is "?l \<longleftrightarrow> ?r")
proof
  assume ?l
  then show ?r
    by (auto simp: LoadFromEnv_def config_String_def Let_def NewTokenSource_def WithAPIBase_def res_bind_Inr_iff parse_int_in64
        split: if_splits option.splits sum.splits)
next
  assume ?r
  then show ?l
    by (auto simp: LoadFromEnv_def config_String_def Let_def NewTokenSource_def WithAPIBase_def)
qed

end
