(* ===== verification/Observability.thy ===== *)
theory Observability
  imports Pipeline OutboxRelay TxRelation Config
begin

text \<open>
  Tracing and logging (libs/go/observability/observability.go) over an OpenTelemetry SDK that is
  a parameter, and the propagation seam: the trace that starts at the gateway is the one on
  every outbox row and on every canonical message that comes of the request.
\<close>

section \<open>The SDK\<close>

text \<open>
  A context is whatever the SDK threads through calls: \<open>ot_span\<close> gives the trace and span id of
  the valid span it carries, as text; the propagator writes and reads headers; \<open>ot_start\<close> opens
  a span, the number standing for what the SDK draws.
\<close>

record 'c otel =
  ot_span :: "'c \<Rightarrow> (string \<times> string) option"
  ot_inject :: "'c \<Rightarrow> headers"
  ot_extract :: "headers \<Rightarrow> 'c \<Rightarrow> 'c"
  ot_start :: "nat \<Rightarrow> 'c \<Rightarrow> 'c"

text \<open>
  What the W3C specification and the SDK document: ids of 32 and 16 digits; only the three
  headers are written, \<open>traceparent\<close> whenever there is a span; a context read from headers with
  that \<open>traceparent\<close> continues its trace; a new span continues the trace of its parent, and is
  valid.
\<close>

definition w3c_law :: "'c otel \<Rightarrow> bool" where
  "w3c_law ot \<longleftrightarrow>
     (\<forall>c t s. ot_span ot c = Some (t, s) \<longrightarrow> length t = 32 \<and> length s = 16) \<and>
     (\<forall>c. dom (ot_inject ot c) \<subseteq> w3c_keys \<and> (ot_span ot c \<noteq> None \<longrightarrow> ot_inject ot c HeaderTraceParent \<noteq> None)) \<and>
     (\<forall>c h c0 t s. ot_span ot c = Some (t, s) \<longrightarrow> h HeaderTraceParent = ot_inject ot c HeaderTraceParent \<longrightarrow>
        (\<exists>s'. ot_span ot (ot_extract ot h c0) = Some (t, s'))) \<and>
     (\<forall>n c. ot_span ot (ot_start ot n c) \<noteq> None \<and>
        (\<forall>t s. ot_span ot c = Some (t, s) \<longrightarrow> (\<exists>s'. ot_span ot (ot_start ot n c) = Some (t, s'))))"

section \<open>The package\<close>

definition TraceID :: "'c otel \<Rightarrow> 'c \<Rightarrow> string" where
  "TraceID ot c = (case ot_span ot c of Some (t, s) \<Rightarrow> t | None \<Rightarrow> [])"

definition Inject :: "'c otel \<Rightarrow> 'c \<Rightarrow> headers \<Rightarrow> headers" where
  "Inject ot c h = h ++ ot_inject ot c"

definition Extract :: "'c otel \<Rightarrow> 'c \<Rightarrow> headers \<Rightarrow> 'c" where
  "Extract ot c h = ot_extract ot h c"

definition getenv_or :: "(string \<Rightarrow> string) \<Rightarrow> string \<Rightarrow> string \<Rightarrow> string" where
  "getenv_or env key def = (if env key \<noteq> [] then env key else def)"

text \<open>\<open>Init\<close>: the exporter may refuse; otherwise a provider for the service, sampling everything.\<close>

record tracing =
  tc_endpoint :: string
  tc_insecure :: bool
  tc_service :: string

definition Init :: "(string \<Rightarrow> string) \<Rightarrow> (string \<Rightarrow> bool) \<Rightarrow> string \<Rightarrow> unit + tracing" where
  "Init env exporter_ok service =
     (let endpoint = getenv_or env ''OTEL_EXPORTER_OTLP_ENDPOINT'' ''localhost:4318''
      in if \<not> exporter_ok endpoint then Inl ()
         else Inr \<lparr>tc_endpoint = endpoint, tc_insecure = True, tc_service = service\<rparr>)"

text \<open>\<open>Tracer\<close>: the platform's tracer, which opens every span.\<close>

definition Tracer :: "'c otel \<Rightarrow> nat \<Rightarrow> 'c \<Rightarrow> 'c" where
  "Tracer ot = ot_start ot"

text \<open>
  Logging: a record is its attributes; a handler of the library is a parameter, with what it
  does to a record and how it takes on attributes and groups.
\<close>

type_synonym attr = "string \<times> string"

record 'h slog =
  sl_handle :: "'h \<Rightarrow> attr list \<Rightarrow> attr list"
  sl_attrs :: "'h \<Rightarrow> attr list \<Rightarrow> 'h"
  sl_group :: "'h \<Rightarrow> string \<Rightarrow> 'h"

datatype 'h trace_handler = TraceHandler 'h

fun Handle :: "'h slog \<Rightarrow> 'c otel \<Rightarrow> 'h trace_handler \<Rightarrow> 'c \<Rightarrow> attr list \<Rightarrow> attr list" where
  "Handle sl ot (TraceHandler h) c r =
     sl_handle sl h (case ot_span ot c of Some (t, s) \<Rightarrow> r @ [(''trace_id'', t), (''span_id'', s)] | None \<Rightarrow> r)"

fun WithAttrs :: "'h slog \<Rightarrow> 'h trace_handler \<Rightarrow> attr list \<Rightarrow> 'h trace_handler" where
  "WithAttrs sl (TraceHandler h) as = TraceHandler (sl_attrs sl h as)"

fun WithGroup :: "'h slog \<Rightarrow> 'h trace_handler \<Rightarrow> string \<Rightarrow> 'h trace_handler" where
  "WithGroup sl (TraceHandler h) name = TraceHandler (sl_group sl h name)"

definition Logger :: "'h slog \<Rightarrow> 'h \<Rightarrow> string \<Rightarrow> 'h trace_handler" where
  "Logger sl base service = WithAttrs sl (TraceHandler base) [(''service'', service)]"

section \<open>Hops\<close>

lemma TraceID_span: "ot_span ot c = Some (t, s) \<Longrightarrow> TraceID ot c = t"
  by (simp add: TraceID_def)

text \<open>
  A hop: whoever reads headers that hold the \<open>traceparent\<close> of a context with a span, and starts
  a span of its own, is in the same trace.
\<close>

lemma hop:
  assumes "w3c_law ot" "ot_span ot c = Some (t, s)" "h HeaderTraceParent = ot_inject ot c HeaderTraceParent"
  obtains s' where "ot_span ot (ot_start ot n (Extract ot c0 h)) = Some (t, s')"
proof -
  obtain s1 where "ot_span ot (ot_extract ot h c0) = Some (t, s1)"
    using assms unfolding w3c_law_def by blast
  with assms(1) that show ?thesis unfolding w3c_law_def Extract_def by blast
qed

lemma started: "w3c_law ot \<Longrightarrow> \<exists>t s. ot_span ot (ot_start ot n c) = Some (t, s) \<and> t \<noteq> []"
  unfolding w3c_law_def by (metis list.size(3) not_None_eq prod.collapse zero_neq_numeral)

lemma injected:
  assumes "w3c_law ot" "ot_span ot c = Some (t, s)"
  shows "\<exists>tp. ot_inject ot c HeaderTraceParent = Some tp" "dom (ot_inject ot c) \<subseteq> w3c_keys"
    "(h ++ ot_inject ot c) HeaderTraceParent = ot_inject ot c HeaderTraceParent"
proof -
  show "\<exists>tp. ot_inject ot c HeaderTraceParent = Some tp" "dom (ot_inject ot c) \<subseteq> w3c_keys"
    using assms unfolding w3c_law_def by (metis not_None_eq, blast)
  then show "(h ++ ot_inject ot c) HeaderTraceParent = ot_inject ot c HeaderTraceParent"
    by (auto simp: map_add_def)
qed

text \<open>What the normalizer stages carries the trace of its run.\<close>

lemma run_traced:
  assumes "run env fault msg db = (r, db')" "quiet env"
    "row \<in> set (t_outbox (db_tabs db'))" "row \<notin> set (t_outbox (db_tabs db))"
  shows "o_trace row = env_traceid env \<and> o_traceparent row = env_traceparent env"
  using assms(1)
proof (cases rule: run_cases)
  case none
  with assms(3,4) show ?thesis by simp
next
  case (tx res tenant r')
  obtain r1 s where d: "deliver tenant (delivery_of msg) (event_of msg) res (env\<lparr>env_tenant := tenant\<rparr>) (tx_begin env db) = (r1, s)"
    by fastforce
  have "tx_others s = db_tabs db"
    using others_deliver d assms(2) unfolding keeps_others_def
    by (metis quiet_tenant snd_conv tx_begin_def tx_state.select_convs(2))
  with tx(2) d assms(3,4) have "db_tabs db' = tx_tabs s"
    by (cases r1) (auto simp: WithTenant_def split: if_splits commit_outcome.splits)
  with traced.deliver_run [OF d] assms(2-4) show ?thesis by (auto simp: stages_traced_def tx_begin_def)
qed

text \<open>The relay's injection for a row: continue the row's trace, open a span, inject it.\<close>

definition relay_inject :: "'c otel \<Rightarrow> 'c \<Rightarrow> nat \<Rightarrow> string \<Rightarrow> headers" where
  "relay_inject ot c n traceparent = Inject ot (ot_start ot n (Extract ot c [HeaderTraceParent \<mapsto> traceparent])) Map.empty"

text \<open>
  C15. One trace per request: with an SDK that keeps to the W3C documents, let the gateway open a
  span, the enrichment stage and the normalizer each continue from the headers they receive,
  and the relay from the outbox row. Then the id in the gateway's message is the trace id of
  every outbox row the normalizer stages for it and of the message the relay publishes, and a
  consumer that extracts the context of that message is in the same trace.
\<close>

theorem trace_continues:
  assumes "w3c_law ot"
    "handleGitHub secret \<lparr>et_id = TraceID ot (ot_start ot n0 c0), et_inject = ot_inject ot (ot_start ot n0 c0)\<rparr> ok rq = (status, Some raw)"
    "enriched_message c (ot_inject ot (ot_start ot n1 (Extract ot c1 (msg_Headers raw)))) raw aenv s = (m, s')"
    "process Normalize env fault m db = (r, db')" "quiet env"
    "env_traceid env = TraceID ot (ot_start ot n2 (Extract ot c2 (msg_Headers m)))"
    "env_traceparent env = hget (Inject ot (ot_start ot n2 (Extract ot c2 (msg_Headers m))) Map.empty) HeaderTraceParent"
    "row \<in> set (t_outbox (db_tabs db'))" "row \<notin> set (t_outbox (db_tabs db))"
  shows "hget (msg_Headers raw) HeaderTraceID \<noteq> [] \<and> o_trace row = hget (msg_Headers raw) HeaderTraceID \<and>
    hget (km_headers (row_message (relay_inject ot c3 n3) row)) HeaderTraceID = hget (msg_Headers raw) HeaderTraceID \<and>
    TraceID ot (Extract ot c4 (km_headers (row_message (relay_inject ot c3 n3) row))) = hget (msg_Headers raw) HeaderTraceID"
proof -
  note law = assms(1)
  obtain t s0 where g: "ot_span ot (ot_start ot n0 c0) = Some (t, s0)" "t \<noteq> []" using started [OF law] by blast
  have raw: "hget (msg_Headers raw) HeaderTraceID = t"
    using gateway_sound [OF assms(2)] injected(2) [OF law g(1)] TraceID_span [OF g(1)] by simp
  have "msg_Headers raw HeaderTraceParent = ot_inject ot (ot_start ot n0 c0) HeaderTraceParent"
    using handle_accepts [OF assms(2)] injected(3) [OF law g(1)] by (auto simp: gateway_message_def)
  then obtain s1 where e: "ot_span ot (ot_start ot n1 (Extract ot c1 (msg_Headers raw))) = Some (t, s1)"
    by (rule hop [OF law g(1)])
  have "msg_Headers m HeaderTraceParent = ot_inject ot (ot_start ot n1 (Extract ot c1 (msg_Headers raw))) HeaderTraceParent"
    using assms(3) injected(3) [OF law e] by (auto simp: enriched_message_def Let_def split: prod.splits if_splits)
  then obtain s2 where p: "ot_span ot (ot_start ot n2 (Extract ot c2 (msg_Headers m))) = Some (t, s2)"
    by (rule hop [OF law e])
  obtain tp where tp: "ot_inject ot (ot_start ot n2 (Extract ot c2 (msg_Headers m))) HeaderTraceParent = Some tp"
    using injected(1) [OF law p] by blast
  have row: "o_trace row = t" "o_traceparent row = tp"
    using run_traced [OF assms(4,5,8,9)] assms(6,7) TraceID_span [OF p] tp by (simp_all add: Inject_def hget_def)
  obtain s3 where l: "ot_span ot (ot_start ot n3 (Extract ot c3 [HeaderTraceParent \<mapsto> tp])) = Some (t, s3)"
    by (rule hop [OF law p, where h = "[HeaderTraceParent \<mapsto> tp]"]) (simp add: tp)
  let ?h = "km_headers (row_message (relay_inject ot c3 n3) row)"
  have "?h HeaderTraceParent = ot_inject ot (ot_start ot n3 (Extract ot c3 [HeaderTraceParent \<mapsto> tp])) HeaderTraceParent"
    using row g(2) by (simp add: row_message_def relay_inject_def Inject_def Let_def header_names)
  then obtain s4 where "ot_span ot (ot_extract ot ?h c4) = Some (t, s4)"
    using law l unfolding w3c_law_def by blast
  then have "TraceID ot (Extract ot c4 ?h) = t" by (simp add: Extract_def TraceID_def)
  moreover have "hget ?h HeaderTraceID = t" using row g(2) by (simp add: row_message_def Let_def)
  ultimately show ?thesis using raw row g(2) by simp
qed

text \<open>A handler stamps what is logged under a span, however attributes were added to it.\<close>

lemma logs_traced:
  "ot_span ot c = Some (t, s) \<Longrightarrow>
   Handle sl ot (WithAttrs sl (Logger sl base service) as) c r =
     sl_handle sl (sl_attrs sl (sl_attrs sl base [(''service'', service)]) as) (r @ [(''trace_id'', t), (''span_id'', s)])"
  by (simp add: Logger_def)

section \<open>A sample\<close>

text \<open>The format of the specification, with fixed ids: \<open>00-\<close>, the trace, the span and the flags.\<close>

definition fixed_span :: "(string \<times> string) option \<Rightarrow> (string \<times> string) option" where
  "fixed_span c = (case c of Some (t, s) \<Rightarrow> if length t = 32 \<and> length s = 16 then Some (t, s) else None | None \<Rightarrow> None)"

definition fixed_otel :: "(string \<times> string) option otel" where
  "fixed_otel =
     \<lparr>ot_span = fixed_span,
      ot_inject = (\<lambda>c. case fixed_span c of None \<Rightarrow> Map.empty
        | Some (t, s) \<Rightarrow> [HeaderTraceParent \<mapsto> ''00-'' @ t @ ''-'' @ s @ ''-01'']),
      ot_extract = (\<lambda>h c. case h HeaderTraceParent of None \<Rightarrow> c
        | Some v \<Rightarrow> Some (take 32 (drop 3 v), take 16 (drop 36 v))),
      ot_start = (\<lambda>n c. case fixed_span c of None \<Rightarrow> Some (replicate 32 (CHR ''a''), replicate 16 (CHR ''b''))
        | Some (t, s) \<Rightarrow> Some (t, replicate 16 (CHR ''c'')))\<rparr>"

lemma fixed_law: "w3c_law fixed_otel"
  unfolding w3c_law_def fixed_otel_def
  by (auto simp: fixed_span_def w3c_keys_def header_names split: option.split if_splits)

abbreviation edge_span :: "(string \<times> string) option" where
  "edge_span \<equiv> ot_start fixed_otel 0 None"

definition traced_raw :: message where
  "traced_raw = gateway_message \<lparr>et_id = TraceID fixed_otel edge_span, et_inject = ot_inject fixed_otel edge_span\<rparr> pr_request sample_pr"

lemma traced_accepted:
  "handleGitHub ''dev-secret'' \<lparr>et_id = TraceID fixed_otel edge_span, et_inject = ot_inject fixed_otel edge_span\<rparr> True pr_request =
     (202, Some traced_raw)"
  unfolding traced_raw_def by (rule pr_accepted)

lemma traced_raw_simps: "event_of traced_raw = ''pull_request''" "delivery_of traced_raw = ''d-1''" "msg_Value traced_raw = sample_pr"
proof -
  have "dom (et_inject \<lparr>et_id = TraceID fixed_otel edge_span, et_inject = ot_inject fixed_otel edge_span\<rparr>) \<subseteq> w3c_keys"
    using fixed_law unfolding w3c_law_def by simp
  from gateway_headers [OF traced_accepted this] show "event_of traced_raw = ''pull_request''" "delivery_of traced_raw = ''d-1''"
    by (simp_all add: event_of_def delivery_of_def pr_request_def signed_request_def)
qed (simp add: traced_raw_def gateway_message_def)

definition traced_env :: tx_env where
  "traced_env = (sample_env never)
     \<lparr>env_traceid := replicate 32 (CHR ''a''),
      env_traceparent := ''00-'' @ replicate 32 (CHR ''a'') @ ''-'' @ replicate 16 (CHR ''c'') @ ''-01''\<rparr>"

lemma traced_ok:
  "(case process Normalize traced_env False (sample_msg ''pull_request'' sample_pr) sample_db of
      (r, db') \<Rightarrow> is_ok r \<and> length (t_outbox (db_tabs db')) = 1)"
  by code_simp

theorem trace_continues_witness:
  "\<exists>m db' row. process Normalize traced_env False m sample_db = (Inr (), db') \<and> t_outbox (db_tabs db') = [row] \<and>
     hget (msg_Headers traced_raw) HeaderTraceID = replicate 32 (CHR ''a'') \<and>
     hget (km_headers (row_message (relay_inject fixed_otel None 0) row)) HeaderTraceID = replicate 32 (CHR ''a'')"
proof -
  let ?e = "ot_start fixed_otel 0 (Extract fixed_otel None (msg_Headers traced_raw))"
  obtain m s' where m: "enriched_message idle_enricher (ot_inject fixed_otel ?e) traced_raw churn_env churn_state = (m, s')" by fastforce
  have "dom (ot_inject fixed_otel ?e) \<subseteq> w3c_keys" using fixed_law unfolding w3c_law_def by blast
  from inject_keeps [OF m this] have k: "event_of m = ''pull_request''" "delivery_of m = ''d-1''" by (simp_all add: traced_raw_simps)
  have v: "msg_Value m = sample_pr"
    using m idle_result traced_raw_simps(1) unfolding enriched_message_def event_of_def [symmetric]
    by (auto simp: traced_raw_simps Let_def)
  have g: "ot_span fixed_otel edge_span = Some (replicate 32 (CHR ''a''), replicate 16 (CHR ''b''))"
    by (simp add: fixed_otel_def fixed_span_def)
  have h: "msg_Headers traced_raw HeaderTraceParent = ot_inject fixed_otel edge_span HeaderTraceParent"
    using injected(3) [OF fixed_law g] by (simp add: traced_raw_def gateway_message_def)
  have "raw_of traced_env m = raw_of traced_env (sample_msg ''pull_request'' sample_pr)"
    using k v by (simp add: raw_of_def sample_msg_def event_of_def delivery_of_def hget_def header_names)
  then have same: "process Normalize traced_env False m sample_db =
    process Normalize traced_env False (sample_msg ''pull_request'' sample_pr) sample_db" by (simp only: process_def)
  obtain db' where db': "process Normalize traced_env False m sample_db = (Inr (), db')" "length (t_outbox (db_tabs db')) = 1"
    using traced_ok unfolding same by (auto simp: is_ok_def split: prod.splits sum.splits)
  then obtain row where row: "t_outbox (db_tabs db') = [row]" by (cases "t_outbox (db_tabs db')") auto
  let ?p = "ot_start fixed_otel 0 (Extract fixed_otel None (msg_Headers m))"
  have e: "?e = Some (replicate 32 (CHR ''a''), replicate 16 (CHR ''c''))"
    using h by (simp add: Extract_def fixed_otel_def fixed_span_def)
  then have es: "ot_span fixed_otel ?e = Some (replicate 32 (CHR ''a''), replicate 16 (CHR ''c''))"
    by (simp add: fixed_otel_def fixed_span_def)
  have "msg_Headers m HeaderTraceParent = ot_inject fixed_otel ?e HeaderTraceParent"
    using m injected(3) [OF fixed_law es] by (auto simp: enriched_message_def Let_def split: prod.splits if_splits)
  then have p: "?p = Some (replicate 32 (CHR ''a''), replicate 16 (CHR ''c''))"
    unfolding e by (simp add: Extract_def fixed_otel_def fixed_span_def)
  have "quiet traced_env" by (simp add: traced_env_def sample_env_def quiet_def)
  moreover have "env_traceid traced_env = TraceID fixed_otel ?p" unfolding p by (simp add: traced_env_def TraceID_def fixed_otel_def fixed_span_def)
  moreover have "env_traceparent traced_env = hget (Inject fixed_otel ?p Map.empty) HeaderTraceParent"
    unfolding p by (simp add: traced_env_def Inject_def hget_def fixed_otel_def fixed_span_def)
  moreover have "row \<in> set (t_outbox (db_tabs db'))" "row \<notin> set (t_outbox (db_tabs sample_db))"
    using row by (simp_all add: sample_db_def no_tables_def)
  ultimately have "hget (km_headers (row_message (relay_inject fixed_otel None 0) row)) HeaderTraceID = hget (msg_Headers traced_raw) HeaderTraceID"
    using trace_continues [OF fixed_law traced_accepted m db'(1), of 0 None row] by blast
  moreover have "hget (msg_Headers traced_raw) HeaderTraceID = replicate 32 (CHR ''a'')"
    using gateway_sound [OF traced_accepted] injected(2) [OF fixed_law g] TraceID_span [OF g] by simp
  ultimately show ?thesis using db'(1) row by (intro exI [of _ m] exI [of _ db'] exI [of _ row]) simp
qed

end
