(* ===== verification/Loops.thy ===== *)
theory Loops
  imports Services
begin

text \<open>
  The loops of the three consumers as they run: \<open>main\<close> of services/normalizer,
  services/connector-github and services/archiver from the first fetch on, over what the outside
  answers turn by turn. Every run is a run of the step relation of theory Consumer, so what holds
  of its reachable states holds of the loops, and a loop returns only when it is cancelled.
\<close>

section \<open>The code\<close>

text \<open>
  What a turn meets: how \<open>Fetch\<close> ends, what the processing of the message depends on, whether
  the commit succeeds, and after how many nanoseconds of a backoff the context is cancelled, if
  it is.
\<close>

datatype fetch_result = Fetched | FetchCancelled | FetchError

record 'e turn =
  tn_fetch :: fetch_result
  tn_env :: 'e
  tn_commit_ok :: bool
  tn_cancel :: "int option"

text \<open>\<open>sleep\<close>: whether the timer fires before the context is cancelled.\<close>

definition sleep :: "int option \<Rightarrow> duration \<Rightarrow> bool" where
  "sleep cancel d = (case cancel of None \<Rightarrow> True | Some c \<Rightarrow> sint d \<le> c)"

text \<open>
  The loop: it runs on, has returned, or has panicked in its backoff. A failed fetch is logged and
  tried again at once; with no message to fetch the call blocks. A failed commit is only logged.
\<close>

datatype loop_end = Running | Returned | Panicked

fun consumer_loop :: "(int \<Rightarrow> duration option) \<Rightarrow> ('e \<Rightarrow> message \<Rightarrow> 'w \<Rightarrow> verdict \<times> 'w) \<Rightarrow> message list \<Rightarrow> 'e turn list
    \<Rightarrow> 'w consumer \<Rightarrow> loop_end \<times> 'w consumer" where
  "consumer_loop delay round log [] c = (Running, c)"
| "consumer_loop delay round log (t # ts) c =
     (case tn_fetch t of
        FetchCancelled \<Rightarrow> (Returned, c)
      | FetchError \<Rightarrow> consumer_loop delay round log ts c
      | Fetched \<Rightarrow>
          if cn_next c < length log then
            (case round (tn_env t) (log ! cn_next c) (cn_world c) of
               (Commit, w) \<Rightarrow> consumer_loop delay round log ts (committing (tn_commit_ok t) w c)
             | (Retry, w) \<Rightarrow>
                 (case delay (cn_attempt c + 1) of
                    None \<Rightarrow> (Panicked, retrying w c)
                  | Some d \<Rightarrow>
                      if sleep (tn_cancel t) d then consumer_loop delay round log ts (retrying w c)
                      else (Returned, retrying w c)))
          else consumer_loop delay round log ts c)"

text \<open>\<open>connector.process\<close>: the span, the message, and whether the write returned an error.\<close>

definition connector_process :: "'c otel \<Rightarrow> enricher \<Rightarrow> 'c \<Rightarrow> nat \<Rightarrow> message \<Rightarrow> api_env \<Rightarrow> api_state \<Rightarrow> write_outcome
    \<Rightarrow> bool \<times> message list \<times> api_state" where
  "connector_process ot c ctx n msg env s wr =
     (let ctx = Extract ot ctx (msg_Headers msg);
          ctx = Tracer ot n ctx
      in case enriched_message c (Inject ot ctx Map.empty) msg env s of
           (m, s') \<Rightarrow> (wr = WriteOk, if wr = WriteFail then [] else [m], s'))"

definition normalizer_loop_run :: "(gh_error proc_error \<Rightarrow> string) \<Rightarrow> message list \<Rightarrow> (tx_env \<times> bool \<times> write_outcome) turn list
    \<Rightarrow> (database \<times> message list) consumer \<Rightarrow> loop_end \<times> (database \<times> message list) consumer" where
  "normalizer_loop_run reason =
     consumer_loop (\<lambda>attempt. Some (backoff attempt)) (\<lambda>(env, fault, wr). normalizer_round reason env fault wr)"

definition connector_loop_run :: "'c otel \<Rightarrow> enricher \<Rightarrow> message list \<Rightarrow> ('c \<times> nat \<times> api_env \<times> write_outcome) turn list
    \<Rightarrow> (api_state \<times> message list) consumer \<Rightarrow> loop_end \<times> (api_state \<times> message list) consumer" where
  "connector_loop_run ot c =
     consumer_loop (\<lambda>attempt. Some (connector_backoff attempt)) (\<lambda>(ctx, n, env, wr) msg (s, out).
       case connector_process ot c ctx n msg env s wr of
         (ok, ms, s') \<Rightarrow> (if ok then Commit else Retry, s', out @ ms))"

definition archiver_loop_run :: "(put_input \<Rightarrow> 's s3_call) \<Rightarrow> string \<Rightarrow> message list
    \<Rightarrow> ((int \<Rightarrow> resolve_error + string) \<times> gtime) turn list \<Rightarrow> 's consumer \<Rightarrow> loop_end \<times> 's consumer" where
  "archiver_loop_run put bucket =
     consumer_loop archiver_backoff (\<lambda>(resolve, now). archiver_round resolve put bucket now)"

section \<open>The loop is a run of its steps\<close>

definition cancelled :: "'e turn \<Rightarrow> bool" where
  "cancelled t \<longleftrightarrow> tn_fetch t = FetchCancelled \<or> tn_fetch t = Fetched \<and> tn_cancel t \<noteq> None"

lemma loop_steps:
  assumes "consumer_loop delay round log ts c = (e, c')"
    "\<forall>t \<in> set ts. \<forall>m w v w'. round (tn_env t) m w = (v, w') \<longrightarrow> body m w v w'"
  shows "consumer_steps body log c c'"
  using assms
proof (induction ts arbitrary: c)
  case (Cons t ts)
  have "\<forall>t \<in> set ts. \<forall>m w v w'. round (tn_env t) m w = (v, w') \<longrightarrow> body m w v w'" using Cons.prems(2) by simp
  note IH = Cons.IH [OF _ this]
  show ?case
  proof (cases "tn_fetch t = Fetched \<and> cn_next c < length log")
    case False
    with Cons.prems(1) IH show ?thesis by (cases "tn_fetch t") auto
  next
    case True
    obtain v w where r: "round (tn_env t) (log ! cn_next c) (cn_world c) = (v, w)" by fastforce
    then have b: "body (log ! cn_next c) (cn_world c) v w" using Cons.prems(2) by simp
    show ?thesis
    proof (cases v)
      case Commit
      with b True have "consumer_step body log c (committing (tn_commit_ok t) w c)" by (intro consumer_step.commit) simp_all
      moreover have "consumer_steps body log (committing (tn_commit_ok t) w c) c'"
        using Cons.prems(1) True r Commit by (intro IH) simp_all
      ultimately show ?thesis by (rule converse_rtranclp_into_rtranclp)
    next
      case Retry
      with b True have s: "consumer_step body log c (retrying w c)" by (intro consumer_step.retry) simp_all
      have "c' = retrying w c \<or> consumer_steps body log (retrying w c) c'"
        using Cons.prems(1) True r Retry IH by (auto split: option.splits if_splits)
      with s show ?thesis by (auto intro: converse_rtranclp_into_rtranclp)
    qed
  qed
qed simp

lemma loop_returns: "consumer_loop delay round log ts c = (Returned, c') \<Longrightarrow> \<exists>t \<in> set ts. cancelled t"
proof (induction ts arbitrary: c)
  case (Cons t ts)
  show ?case
  proof (cases "cancelled t")
    case False
    with Cons.prems obtain c1 where "consumer_loop delay round log ts c1 = (Returned, c')"
      by (auto simp: cancelled_def sleep_def split: fetch_result.splits if_splits prod.splits verdict.splits option.splits)
    from Cons.IH [OF this] show ?thesis by simp
  qed simp
qed simp

text \<open>With an attempt number that counts from 0 the backoff never panics.\<close>

lemma loop_calm:
  "\<forall>a. 1 \<le> a \<longrightarrow> delay a \<noteq> None \<Longrightarrow> 0 \<le> cn_attempt c \<Longrightarrow> fst (consumer_loop delay round log ts c) \<noteq> Panicked"
proof (induction ts arbitrary: c)
  case (Cons t ts)
  have "1 \<le> cn_attempt c + 1" using Cons.prems(2) by simp
  with Cons.prems(1) obtain d where "delay (cn_attempt c + 1) = Some d" by blast
  with Cons show ?case
    by (auto simp: round_defs split: fetch_result.split prod.split verdict.split option.split)
qed simp

text \<open>A fetch that answers the cancellation ends the loop, if nothing did before.\<close>

lemma loop_stops: "FetchCancelled \<in> tn_fetch ` set ts \<Longrightarrow> fst (consumer_loop delay round log ts c) \<noteq> Running"
  by (induction ts arbitrary: c) (auto split: fetch_result.split prod.split verdict.split option.split)

lemma reach_steps: "consumer_steps body log c c' \<Longrightarrow> consumer_reach body log w c \<Longrightarrow> consumer_reach body log w c'"
  by (induction rule: rtranclp_induct) (auto intro: consumer_reach.step)

lemma loop_reach:
  assumes "consumer_loop delay round log ts (consumer_start w) = (e, c)"
    "\<forall>t \<in> set ts. \<forall>m w v w'. round (tn_env t) m w = (v, w') \<longrightarrow> body m w v w'"
  shows "consumer_reach body log w c"
  using loop_steps [OF assms] consumer_reach.start by (rule reach_steps)

definition ends_well :: "'e turn list \<Rightarrow> loop_end \<Rightarrow> bool" where
  "ends_well ts e \<longleftrightarrow> e \<noteq> Panicked \<and> (e = Returned \<longrightarrow> (\<exists>t \<in> set ts. cancelled t)) \<and>
     (FetchCancelled \<in> tn_fetch ` set ts \<longrightarrow> e = Returned)"

lemma loop_end:
  assumes "consumer_loop delay round log ts (consumer_start w) = (e, c)" "\<forall>a. 1 \<le> a \<longrightarrow> delay a \<noteq> None"
  shows "ends_well ts e"
proof -
  have "e \<noteq> Panicked" using loop_calm [OF assms(2), of "consumer_start w" round log ts] assms(1) by (simp add: consumer_start_def)
  moreover have "FetchCancelled \<in> tn_fetch ` set ts \<Longrightarrow> e \<noteq> Running"
    using loop_stops [of ts delay round log "consumer_start w"] assms(1) by simp
  ultimately show ?thesis
    using loop_returns [of delay round log ts "consumer_start w" c] assms(1) by (cases e) (auto simp: ends_well_def)
qed

section \<open>The three loops\<close>

lemma normalizer_reach:
  assumes "normalizer_loop_run reason log ts (consumer_start w) = (e, c)" "\<forall>t \<in> set ts. quiet (fst (tn_env t))"
  shows "consumer_reach (normalizer_body reason) log w c"
proof (rule loop_reach [OF assms(1) [unfolded normalizer_loop_run_def]], intro ballI allI impI)
  fix t m w v w' assume "t \<in> set ts" and r: "(case tn_env t of (env, fault, wr) \<Rightarrow> normalizer_round reason env fault wr) m w = (v, w')"
  obtain env fault wr where "tn_env t = (env, fault, wr)" by (cases "tn_env t") auto
  with r assms(2) \<open>t \<in> set ts\<close> show "normalizer_body reason m w v w'" unfolding normalizer_body_def by force
qed

lemma connector_process_round:
  "connector_round c (Inject ot (ot_start ot n (Extract ot ctx (msg_Headers msg))) Map.empty) env wr msg (s, out) =
     (case connector_process ot c ctx n msg env s wr of
        (ok, ms, s') \<Rightarrow> (if ok then Commit else Retry, s', out @ ms))"
  by (cases wr) (simp_all add: connector_round_def connector_process_def Tracer_def Let_def split: prod.split)

lemma connector_reach:
  assumes "connector_loop_run ot en log ts (consumer_start w) = (e, c)" "w3c_law ot"
  shows "consumer_reach (connector_body en) log w c"
proof (rule loop_reach [OF assms(1) [unfolded connector_loop_run_def]], intro ballI allI impI)
  fix t :: "('a \<times> nat \<times> api_env \<times> write_outcome) turn" and m v and w w' :: "api_state \<times> message list"
  assume r: "(case tn_env t of (ctx, n, env, wr) \<Rightarrow> \<lambda>msg (s, out). case connector_process ot en ctx n msg env s wr of
         (ok, ms, s') \<Rightarrow> (if ok then Commit else Retry, s', out @ ms)) m w = (v, w')"
  obtain ctx n env wr s out where tw: "tn_env t = (ctx, n, env, wr)" "w = (s, out)" by (cases "tn_env t", cases w) auto
  let ?inject = "Inject ot (ot_start ot n (Extract ot ctx (msg_Headers m))) Map.empty"
  have "connector_round en ?inject env wr m w = (v, w')" using r unfolding tw connector_process_round by simp
  moreover have "dom ?inject \<subseteq> w3c_keys" using assms(2) unfolding w3c_law_def Inject_def by simp
  ultimately show "connector_body en m w v w'" unfolding connector_body_def by blast
qed

lemma archiver_reach:
  assumes "archiver_loop_run put bucket log ts (consumer_start w) = (e, c)" "s3_put_law objects put"
  shows "consumer_reach (archiver_body objects bucket) log w c"
proof (rule loop_reach [OF assms(1) [unfolded archiver_loop_run_def]], intro ballI allI impI)
  fix t m w v w' assume r: "(case tn_env t of (resolve, now) \<Rightarrow> archiver_round resolve put bucket now) m w = (v, w')"
  obtain resolve now where "tn_env t = (resolve, now)" by (cases "tn_env t") auto
  with r assms(2) show "archiver_body objects bucket m w v w'" unfolding archiver_body_def by force
qed

text \<open>
  C38. The loops as they run: from its start, through any turns (failed fetches, transient and
  permanent failures, failed commits, backoffs cut short), each of the three loops leaves the
  effect of every message it committed that did not fail; its backoff never panics; it returns
  only in a turn in which the context was cancelled, in the fetch or in the backoff; and it does
  return once a fetch answers the cancellation.
\<close>

theorem loops_handle:
  "(normalizer_loop_run reason log ts (consumer_start w) = (e, c) \<and> (\<forall>t \<in> set ts. quiet (fst (tn_env t))) \<longrightarrow>
      (\<forall>k < cn_committed c. k \<notin> cn_failed c \<longrightarrow> normalizer_effect (log ! k) (cn_world c)) \<and> ends_well ts e) \<and>
   (connector_loop_run ot en log ts' (consumer_start w') = (e', c') \<and> w3c_law ot \<longrightarrow>
      (\<forall>k < cn_committed c'. k \<notin> cn_failed c' \<longrightarrow> connector_effect (log ! k) (cn_world c')) \<and> ends_well ts' e') \<and>
   (archiver_loop_run put bucket log ts'' (consumer_start w'') = (e'', c'') \<and> s3_put_law objects put \<longrightarrow>
      (\<forall>k < cn_committed c''. k \<notin> cn_failed c'' \<longrightarrow> archiver_effect objects bucket (log ! k) (cn_world c'')) \<and> ends_well ts'' e'')"
proof (rule conjI [OF impI conjI [OF impI impI]]; elim conjE)
  assume l: "normalizer_loop_run reason log ts (consumer_start w) = (e, c)" "\<forall>t \<in> set ts. quiet (fst (tn_env t))"
  show "(\<forall>k < cn_committed c. k \<notin> cn_failed c \<longrightarrow> normalizer_effect (log ! k) (cn_world c)) \<and> ends_well ts e"
    using normalizer_loop.committed_effect [OF normalizer_reach [OF l]] loop_end [OF l(1) [unfolded normalizer_loop_run_def]]
    by simp
next
  assume l: "connector_loop_run ot en log ts' (consumer_start w') = (e', c')" "w3c_law ot"
  show "(\<forall>k < cn_committed c'. k \<notin> cn_failed c' \<longrightarrow> connector_effect (log ! k) (cn_world c')) \<and> ends_well ts' e'"
    using connector_loop.committed_effect [OF connector_reach [OF l]] loop_end [OF l(1) [unfolded connector_loop_run_def]]
    by simp
next
  assume l: "archiver_loop_run put bucket log ts'' (consumer_start w'') = (e'', c'')" "s3_put_law objects put"
  show "(\<forall>k < cn_committed c''. k \<notin> cn_failed c'' \<longrightarrow> archiver_effect objects bucket (log ! k) (cn_world c'')) \<and> ends_well ts'' e''"
    using archiver_loop.committed_effect [OF archiver_reach [OF l]] loop_end [OF l(1) [unfolded archiver_loop_run_def]]
    by (simp add: archiver_backoff_eq)
qed

section \<open>A sample\<close>

text \<open>The sample pull request is processed, and the next fetch is cancelled.\<close>

definition sample_turns :: "(tx_env \<times> bool \<times> write_outcome) turn list" where
  "sample_turns =
     [\<lparr>tn_fetch = Fetched, tn_env = (sample_env never, False, WriteOk), tn_commit_ok = True, tn_cancel = None\<rparr>,
      \<lparr>tn_fetch = FetchCancelled, tn_env = (sample_env never, False, WriteOk), tn_commit_ok = True, tn_cancel = None\<rparr>]"

theorem loops_handle_witness:
  "\<exists>c. normalizer_loop_run sample_reason sample_log sample_turns (consumer_start (sample_db, [])) = (Returned, c) \<and>
     cn_committed c = 1 \<and> normalizer_effect (sample_log ! 0) (cn_world c)"
proof (rule pr_run_never)
  fix db1 assume r: "pr_run never = (Inr (), db1)"
  let ?c = "committing True (db1, []) (consumer_start (sample_db, [])) :: (database \<times> message list) consumer"
  have "normalizer_round sample_reason (sample_env never) False WriteOk (sample_log ! 0) (sample_db, []) = (Commit, db1, [])"
    using r by (simp add: normalizer_round_def sample_log_def)
  then have run: "normalizer_loop_run sample_reason sample_log sample_turns (consumer_start (sample_db, [])) = (Returned, ?c)"
    by (simp add: normalizer_loop_run_def sample_turns_def consumer_start_def sample_log_def)
  have c: "cn_committed ?c = 1" "0 \<notin> cn_failed ?c" by (simp_all add: committing_def consumer_start_def)
  have "\<forall>t \<in> set sample_turns. quiet (fst (tn_env t))" by (simp add: sample_turns_def)
  with run have "\<forall>k < cn_committed ?c. k \<notin> cn_failed ?c \<longrightarrow> normalizer_effect (sample_log ! k) (cn_world ?c)"
    by (intro loops_handle [THEN conjunct1, THEN mp, THEN conjunct1] conjI)
  with c have "normalizer_effect (sample_log ! 0) (cn_world ?c)" by simp
  with run c(1) show ?thesis by (intro exI [of _ ?c] conjI)
qed

end
