(* ===== verification/Ledger.thy ===== *)
theory Ledger
  imports NormalizerProps
begin

text \<open>
  What the write model promises, without its rows: a ledger of facts by natural key, with no
  surrogate ids, no clock and no statements. \<open>represents\<close> relates the tables to a ledger, and
  a transaction of the normalizer implements \<open>ledger_deliver\<close> (a forward simulation). Since a
  ledger holds nothing that depends on the run, replaying the same messages into an empty
  database rebuilds the same ledger.
\<close>

section \<open>The abstract state\<close>

type_synonym item_id = "string \<times> string \<times> string \<times> string"

record item_fact =
  if_number :: int
  if_title :: string
  if_status :: string
  if_stage :: string
  if_author :: string
  if_changed :: int
  if_additions :: int
  if_deletions :: int
  if_created :: gtime
  if_merged :: "gtime option"
  if_closed :: "gtime option"

text \<open>A review names its pull request by key and its reviewer by the hash of the login.\<close>

record review_fact =
  vf_state :: string
  vf_comments :: int
  vf_submitted :: gtime
  vf_item :: item_id
  vf_reviewer :: string

record check_fact =
  kf_head_sha :: string
  kf_name :: string
  kf_conclusion :: "string option"
  kf_started :: "gtime option"
  kf_completed :: "gtime option"

record ledger =
  lg_items :: "item_id \<rightharpoonup> item_fact"
  lg_reviews :: "string \<times> string \<rightharpoonup> review_fact"
  lg_checks :: "string \<times> string \<rightharpoonup> check_fact"
  lg_people :: "(string \<times> string) set"
  lg_deliveries :: "(string \<times> string) set"
  lg_events :: "(string \<times> event_spec) list"

definition empty_ledger :: ledger where
  "empty_ledger = \<lparr>lg_items = Map.empty, lg_reviews = Map.empty, lg_checks = Map.empty, lg_people = {},
     lg_deliveries = {}, lg_events = []\<rparr>"

section \<open>What a delivery does to a ledger\<close>

definition record_events :: "string \<Rightarrow> event_spec list \<Rightarrow> ledger \<Rightarrow> ledger" where
  "record_events tenant specs a = a\<lparr>lg_events := lg_events a @ map (Pair tenant) specs\<rparr>"

definition item_id :: "string \<Rightarrow> work_item \<Rightarrow> item_id" where
  "item_id tenant wi = (tenant, wi_Repo wi, wi_Type wi, wi_NodeID wi)"

definition new_item :: "work_item \<Rightarrow> item_fact" where
  "new_item wi =
     \<lparr>if_number = wi_Number wi, if_title = wi_Title wi, if_status = wi_Status wi, if_stage = wi_CurrentStage wi,
      if_author = wi_AuthorLogin wi, if_changed = wi_ChangedFiles wi, if_additions = wi_Additions wi,
      if_deletions = wi_Deletions wi, if_created = pg_time (wi_CreatedAt wi),
      if_merged = map_option pg_time (wi_MergedAt wi), if_closed = map_option pg_time (wi_ClosedAt wi)\<rparr>"

text \<open>A later item with an event refreshes what can change; one without leaves the fact alone.\<close>

definition refresh_item :: "work_item \<Rightarrow> item_fact \<Rightarrow> item_fact" where
  "refresh_item wi old =
     (if wi_Event wi = [] then old
      else (new_item wi)\<lparr>if_number := if_number old, if_author := if_author old, if_created := if_created old\<rparr>)"

abbreviation with_item :: "string \<Rightarrow> work_item \<Rightarrow> ledger \<Rightarrow> ledger" where
  "with_item tenant wi a \<equiv> a\<lparr>lg_items := (lg_items a)(item_id tenant wi \<mapsto>
     (case lg_items a (item_id tenant wi) of None \<Rightarrow> new_item wi | Some old \<Rightarrow> refresh_item wi old))\<rparr>"

definition ledger_item :: "string \<Rightarrow> work_item \<Rightarrow> ledger \<Rightarrow> ledger" where
  "ledger_item tenant wi a = record_events tenant (item_specs wi) (with_item tenant wi a)"

text \<open>The pull request of a review is the last item of the delivery with its node id.\<close>

definition parents :: "string \<Rightarrow> work_item list \<Rightarrow> string \<rightharpoonup> item_id" where
  "parents tenant wis = map_of (rev (map (\<lambda>wi. (wi_NodeID wi, item_id tenant wi)) wis))"

definition new_review :: "item_id \<Rightarrow> review \<Rightarrow> review_fact" where
  "new_review item rv =
     \<lparr>vf_state = rv_State rv, vf_comments = rv_CommentCount rv, vf_submitted = pg_time (rv_SubmittedAt rv),
      vf_item = item, vf_reviewer = hashIdentifier (rv_ReviewerLogin rv)\<rparr>"

definition refresh_review :: "review_fact \<Rightarrow> review_fact \<Rightarrow> review_fact" where
  "refresh_review new old = new\<lparr>vf_item := vf_item old, vf_reviewer := vf_reviewer old\<rparr>"

abbreviation with_person :: "string \<Rightarrow> string \<Rightarrow> ledger \<Rightarrow> ledger" where
  "with_person tenant login a \<equiv> a\<lparr>lg_people := insert (tenant, hashIdentifier login) (lg_people a)\<rparr>"

abbreviation with_review :: "string \<times> string \<Rightarrow> review_fact \<Rightarrow> ledger \<Rightarrow> ledger" where
  "with_review key new a \<equiv> a\<lparr>lg_reviews := (lg_reviews a)(key \<mapsto>
     (case lg_reviews a key of None \<Rightarrow> new | Some old \<Rightarrow> refresh_review new old))\<rparr>"

definition ledger_review :: "string \<Rightarrow> (string \<rightharpoonup> item_id) \<Rightarrow> review \<Rightarrow> ledger \<Rightarrow> ledger" where
  "ledger_review tenant pars rv a =
     (case pars (rv_PRNodeID rv) of
        None \<Rightarrow> a
      | Some item \<Rightarrow>
          if rv_ReviewerLogin rv = [] then a
          else record_events tenant (review_specs rv)
                 (with_review (tenant, rv_SourceID rv) (new_review item rv) (with_person tenant (rv_ReviewerLogin rv) a)))"

definition new_check :: "check_run \<Rightarrow> check_fact" where
  "new_check cr =
     \<lparr>kf_head_sha = cr_HeadSHA cr, kf_name = cr_Name cr, kf_conclusion = nullIfEmpty (cr_Conclusion cr),
      kf_started = map_option pg_time (cr_StartedAt cr), kf_completed = map_option pg_time (cr_CompletedAt cr)\<rparr>"

definition refresh_check :: "check_run \<Rightarrow> check_fact \<Rightarrow> check_fact" where
  "refresh_check cr old = (new_check cr)\<lparr>kf_head_sha := kf_head_sha old, kf_name := kf_name old\<rparr>"

abbreviation with_check :: "string \<Rightarrow> check_run \<Rightarrow> ledger \<Rightarrow> ledger" where
  "with_check tenant cr a \<equiv> a\<lparr>lg_checks := (lg_checks a)((tenant, cr_SourceID cr) \<mapsto>
     (case lg_checks a (tenant, cr_SourceID cr) of None \<Rightarrow> new_check cr | Some old \<Rightarrow> refresh_check cr old))\<rparr>"

definition ledger_check :: "string \<Rightarrow> check_run \<Rightarrow> ledger \<Rightarrow> ledger" where
  "ledger_check tenant cr a = record_events tenant [check_spec cr] (with_check tenant cr a)"

definition ledger_persist :: "string \<Rightarrow> result \<Rightarrow> ledger \<Rightarrow> ledger" where
  "ledger_persist tenant res =
     record_events tenant (map comment_spec (rs_Comments res)) \<circ>
     fold (ledger_check tenant) (rs_CheckRuns res) \<circ>
     fold (ledger_review tenant (parents tenant (rs_WorkItems res))) (rs_Reviews res) \<circ>
     fold (ledger_item tenant) (rs_WorkItems res)"

definition ledger_deliver :: "string \<Rightarrow> string \<Rightarrow> result \<Rightarrow> ledger \<Rightarrow> ledger" where
  "ledger_deliver tenant delivery res a =
     (if delivery = [] then ledger_persist tenant res a
      else if (tenant, delivery) \<in> lg_deliveries a then a
      else ledger_persist tenant res (a\<lparr>lg_deliveries := insert (tenant, delivery) (lg_deliveries a)\<rparr>))"

section \<open>Representation\<close>

definition item_fact :: "work_item_row \<Rightarrow> item_fact" where
  "item_fact w =
     \<lparr>if_number = w_number w, if_title = w_title w, if_status = w_status w, if_stage = w_stage w,
      if_author = w_author w, if_changed = w_changed w, if_additions = w_additions w,
      if_deletions = w_deletions w, if_created = w_created w, if_merged = w_merged w, if_closed = w_closed w\<rparr>"

definition check_fact :: "check_run_row \<Rightarrow> check_fact" where
  "check_fact k =
     \<lparr>kf_head_sha = k_head_sha k, kf_name = k_name k, kf_conclusion = k_conclusion k,
      kf_started = k_started k, kf_completed = k_completed k\<rparr>"

text \<open>The foreign keys: a surrogate id stands for the row that holds it.\<close>

definition names_item :: "work_item_row list \<Rightarrow> string \<Rightarrow> item_id \<Rightarrow> bool" where
  "names_item items i k \<longleftrightarrow> (\<exists>w. find_row item_key k items = Some w \<and> w_id w = i)"

definition names_person :: "identity_row list \<Rightarrow> string \<Rightarrow> string \<Rightarrow> string \<Rightarrow> bool" where
  "names_person links tenant i h \<longleftrightarrow> (\<exists>l. find_row link_key (tenant, github_login, h) links = Some l \<and> i_contributor l = i)"

definition is_review :: "work_item_row list \<Rightarrow> identity_row list \<Rightarrow> review_row \<Rightarrow> review_fact \<Rightarrow> bool" where
  "is_review items links v f \<longleftrightarrow>
     v_state v = vf_state f \<and> v_comments v = vf_comments f \<and> v_submitted v = vf_submitted f \<and>
     names_item items (v_work_item v) (vf_item f) \<and> names_person links (v_tenant v) (v_reviewer v) (vf_reviewer f)"

text \<open>An outbox row holds_event its event, relayed or not.\<close>

definition holds_event :: "string \<times> event_spec \<Rightarrow> outbox_row \<Rightarrow> bool" where
  "holds_event e o' \<longleftrightarrow> staged (fst e) (snd e) (o'\<lparr>o_published := None\<rparr>)"

definition represents :: "tables \<Rightarrow> ledger \<Rightarrow> bool" where
  "represents t a \<longleftrightarrow>
     (\<forall>k. lg_items a k = map_option item_fact (find_row item_key k (t_items t))) \<and>
     (\<forall>k. rel_option (is_review (t_items t) (t_links t)) (find_row review_key k (t_reviews t)) (lg_reviews a k)) \<and>
     (\<forall>k. lg_checks a k = map_option check_fact (find_row check_key k (t_checks t))) \<and>
     (\<forall>tn h. (tn, h) \<in> lg_people a \<longleftrightarrow> find_row link_key (tn, github_login, h) (t_links t) \<noteq> None) \<and>
     (\<forall>l \<in> set (t_links t). \<exists>c \<in> set (t_contributors t). c_id c = i_contributor l \<and> c_tenant c = i_tenant l) \<and>
     (\<forall>k. k \<in> lg_deliveries a \<longleftrightarrow> find_row delivery_key k (t_deliveries t) \<noteq> None) \<and>
     list_all2 holds_event (lg_events a) (t_outbox t)"

lemma representsI:
  assumes "\<And>k. lg_items a k = map_option item_fact (find_row item_key k (t_items t))"
    "\<And>k. rel_option (is_review (t_items t) (t_links t)) (find_row review_key k (t_reviews t)) (lg_reviews a k)"
    "\<And>k. lg_checks a k = map_option check_fact (find_row check_key k (t_checks t))"
    "\<And>tn h. (tn, h) \<in> lg_people a \<longleftrightarrow> find_row link_key (tn, github_login, h) (t_links t) \<noteq> None"
    "\<And>l. l \<in> set (t_links t) \<Longrightarrow> \<exists>c \<in> set (t_contributors t). c_id c = i_contributor l \<and> c_tenant c = i_tenant l"
    "\<And>k. k \<in> lg_deliveries a \<longleftrightarrow> find_row delivery_key k (t_deliveries t) \<noteq> None"
    "list_all2 holds_event (lg_events a) (t_outbox t)"
  shows "represents t a"
  using assms unfolding represents_def by blast

lemma representsD:
  assumes "represents t a"
  shows "lg_items a k = map_option item_fact (find_row item_key k (t_items t))"
    "rel_option (is_review (t_items t) (t_links t)) (find_row review_key k' (t_reviews t)) (lg_reviews a k')"
    "lg_checks a k' = map_option check_fact (find_row check_key k' (t_checks t))"
    "(tn, h) \<in> lg_people a \<longleftrightarrow> find_row link_key (tn, github_login, h) (t_links t) \<noteq> None"
    "l \<in> set (t_links t) \<Longrightarrow> \<exists>c \<in> set (t_contributors t). c_id c = i_contributor l \<and> c_tenant c = i_tenant l"
    "k' \<in> lg_deliveries a \<longleftrightarrow> find_row delivery_key k' (t_deliveries t) \<noteq> None"
    "list_all2 holds_event (lg_events a) (t_outbox t)"
  using assms unfolding represents_def by blast+

lemma represents_empty: "represents no_tables empty_ledger"
  by (rule representsI) (simp_all add: no_tables_def empty_ledger_def)

section \<open>Triples\<close>

text \<open>
  What holds of the tables after a computation that succeeds, without interference. A failure
  says nothing: its transaction is rolled back.
\<close>

definition triple :: "string \<Rightarrow> (tables \<Rightarrow> bool) \<Rightarrow> 'a tx \<Rightarrow> ('a \<Rightarrow> tables \<Rightarrow> bool) \<Rightarrow> bool" where
  "triple tenant P m Q \<longleftrightarrow>
     (\<forall>env s x s'. quiet env \<longrightarrow> env_tenant env = tenant \<longrightarrow> P (tx_tabs s) \<longrightarrow> m env s = (Inr x, s') \<longrightarrow> Q x (tx_tabs s'))"

lemma triple_return: "(\<And>t. P t \<Longrightarrow> Q x t) \<Longrightarrow> triple tenant P (eff_return x) Q"
  by (simp add: triple_def eff_return_def)

lemma triple_fail: "triple tenant P (eff_fail e) Q"
  by (simp add: triple_def eff_fail_def)

lemma triple_bind:
  assumes "triple tenant P m R" "\<And>x. triple tenant (R x) (f x) Q"
  shows "triple tenant P (eff_bind m f) Q"
  unfolding triple_def
proof (intro allI impI)
  fix env s y s'' assume e: "quiet env" "env_tenant env = tenant" "P (tx_tabs s)" and "eff_bind m f env s = (Inr y, s'')"
  then obtain x s' where "m env s = (Inr x, s')" "f x env s' = (Inr y, s'')" by (elim eff_bind_Inr)
  with assms e show "Q y (tx_tabs s'')" unfolding triple_def by blast
qed

text \<open>The ids, the clock and the sequence do not touch the tables.\<close>

lemma triple_fresh: "(\<And>x. triple tenant P (f x) Q) \<Longrightarrow> triple tenant P (eff_bind tx_fresh f) Q"
  by (rule triple_bind [where R = "\<lambda>_. P"]) (auto simp: triple_def tx_defs)

lemma triple_nextval: "(\<And>x. triple tenant P (f x) Q) \<Longrightarrow> triple tenant P (eff_bind tx_nextval f) Q"
  by (rule triple_bind [where R = "\<lambda>_. P"]) (auto simp: triple_def tx_defs)

lemma triple_ask: "(\<And>x. triple tenant P (f x) Q) \<Longrightarrow> triple tenant P (eff_bind (eff_ask g) f) Q"
  by (rule triple_bind [where R = "\<lambda>_. P"]) (auto simp: triple_def tx_defs)

lemma triple_exec:
  assumes "\<And>t x t'. P t \<Longrightarrow> f tenant t = Some (x, t') \<Longrightarrow> Q x t'"
  shows "triple tenant P (tx_exec f) Q"
  using assms by (auto simp: triple_def tx_exec_quiet Let_def split: if_splits option.splits)

lemma triple_run:
  "triple tenant P m Q \<Longrightarrow> m env s = (Inr x, s') \<Longrightarrow> quiet env \<Longrightarrow> env_tenant env = tenant \<Longrightarrow> P (tx_tabs s) \<Longrightarrow> Q x (tx_tabs s')"
  unfolding triple_def by blast

lemma triple_if: "(b \<Longrightarrow> triple tenant P m Q) \<Longrightarrow> (\<not> b \<Longrightarrow> triple tenant P m' Q) \<Longrightarrow> triple tenant P (if b then m else m') Q"
  by simp

lemma triple_weaken: "triple tenant P' m Q' \<Longrightarrow> (\<And>t. P t \<Longrightarrow> P' t) \<Longrightarrow> (\<And>x t. Q' x t \<Longrightarrow> Q x t) \<Longrightarrow> triple tenant P m Q"
  unfolding triple_def by blast

section \<open>The statements on a ledger\<close>

definition names_all :: "work_item_row list \<Rightarrow> (string \<rightharpoonup> string) \<Rightarrow> (string \<rightharpoonup> item_id) \<Rightarrow> bool" where
  "names_all items ids pars \<longleftrightarrow> (\<forall>n. rel_option (names_item items) (ids n) (pars n))"

text \<open>The two writes of a work item keep every id, so what names a row still does.\<close>

locale item_write = keyed_upsert item_key merge for merge :: "work_item_row \<Rightarrow> work_item_row \<Rightarrow> work_item_row" +
  assumes merge_id: "w_id (merge old new) = w_id old"
begin

lemma names_kept: "names_item items i k \<Longrightarrow> names_item (upsert item_key merge new items) i k"
  by (auto simp: names_item_def upsert_find merge_id)

lemma names_new: "names_item (upsert item_key merge new items) (w_id (the (find_row item_key (item_key new) (upsert item_key merge new items)))) (item_key new)"
  by (simp add: names_item_def upsert_find)

lemma is_review_kept: "is_review items links v f \<Longrightarrow> is_review (upsert item_key merge new items) links v f"
  using names_kept by (simp add: is_review_def)

lemma names_all_upsert:
  assumes "names_all items ids pars" "names_item (upsert item_key merge new items) i k"
  shows "names_all (upsert item_key merge new items) (ids(n \<mapsto> i)) (pars(n \<mapsto> k))"
proof -
  have "rel_option (names_item (upsert item_key merge new items)) (ids m) (pars m)" for m
    using assms(1) names_kept unfolding names_all_def by (blast intro: option.rel_mono_strong)
  with assms(2) show ?thesis by (simp add: names_all_def)
qed

lemma represents_upsert:
  assumes "represents t a" "\<And>old. item_fact (merge old new) = upd (item_fact old)"
  shows "represents (t\<lparr>t_items := upsert item_key merge new (t_items t)\<rparr>)
    (a\<lparr>lg_items := (lg_items a)(item_key new \<mapsto>
        (case lg_items a (item_key new) of None \<Rightarrow> item_fact new | Some old \<Rightarrow> upd old))\<rparr>)"
proof (rule representsI, goal_cases)
  case (1 k)
  show ?case using assms(2) representsD(1) [OF assms(1)] by (simp add: upsert_find split: option.split)
next
  case (2 k)
  have "rel_option (is_review (upsert item_key merge new (t_items t)) (t_links t)) (find_row review_key k (t_reviews t)) (lg_reviews a k)"
    using representsD(2) [OF assms(1), of k] is_review_kept by (blast intro: option.rel_mono_strong)
  then show ?case by simp
qed (use representsD [OF assms(1)] in simp_all)

end

interpretation refreshing: item_write item_update
  by unfold_locales (simp add: item_update_def)

interpretation ensuring: item_write item_ensure
  by unfold_locales (simp add: item_ensure_def)

lemma represents_outbox:
  assumes "represents t a" "holds_event (tenant, spec) row"
  shows "represents (t\<lparr>t_outbox := t_outbox t @ [row]\<rparr>) (record_events tenant [spec] a)"
  by (rule representsI) (use representsD [OF assms(1)] assms(2) in \<open>simp_all add: record_events_def list_all2_appendI\<close>)

lemma represents_delivery:
  assumes "represents t a"
  shows "represents (t\<lparr>t_deliveries := fst (insert_new delivery_key d (t_deliveries t))\<rparr>)
    (a\<lparr>lg_deliveries := insert (delivery_key d) (lg_deliveries a)\<rparr>)"
proof (rule representsI, goal_cases)
  case (6 k)
  show ?case using representsD(6) [OF assms, of k] by (auto simp: insert_new_find)
qed (use representsD [OF assms] in simp_all)

lemma represents_check:
  assumes "represents t a" "check_fact new = new_check cr" "\<And>old. check_fact (check_update old new) = refresh_check cr (check_fact old)"
    "check_key new = (tenant, cr_SourceID cr)"
  shows "represents (t\<lparr>t_checks := upsert check_key check_update new (t_checks t)\<rparr>) (with_check tenant cr a)"
proof (rule representsI, goal_cases)
  case (3 k)
  show ?case using assms(2-4) representsD(3) [OF assms(1)] by (simp add: checks.upsert_find split: option.split)
qed (use representsD [OF assms(1)] in simp_all)

lemma represents_review:
  assumes "represents t a" "is_review (t_items t) (t_links t) new f"
  shows "represents (t\<lparr>t_reviews := upsert review_key review_update new (t_reviews t)\<rparr>) (with_review (review_key new) f a)"
proof (rule representsI, goal_cases)
  case (2 k)
  note r = representsD(2) [OF assms(1), of k]
  show ?case
  proof (cases "k = review_key new")
    case True
    have "is_review (t_items t) (t_links t) (review_update v new) (refresh_review f g)"
      if "is_review (t_items t) (t_links t) v g" for v g
      using that assms(2) by (simp add: is_review_def review_update_def refresh_review_def)
    with r True assms(2) show ?thesis
      by (auto simp: reviews.upsert_find option_rel_Some1 option_rel_Some2 split: option.split)
  next
    case False
    with r show ?thesis by (simp add: reviews.upsert_find)
  qed
qed (use representsD [OF assms(1)] in simp_all)

text \<open>A contributor that nothing links to is no fact; the link makes it one.\<close>

lemma represents_contributor:
  assumes "represents t a"
  shows "represents (t\<lparr>t_contributors := t_contributors t @ [c]\<rparr>) a"
proof (rule representsI, goal_cases)
  case (5 l)
  then show ?case using representsD(5) [OF assms, of l] by auto
qed (use representsD [OF assms] in simp_all)

lemma names_person_append:
  "names_person links tn i h \<Longrightarrow> names_person (links @ links') tn i h"
  by (auto simp: names_person_def find_row_append)

lemma represents_link:
  assumes "represents t a" "i_kind l = github_login" "find_row link_key (link_key l) (t_links t) = None"
    "\<exists>c \<in> set (t_contributors t). c_id c = i_contributor l \<and> c_tenant c = i_tenant l"
  shows "represents (t\<lparr>t_links := t_links t @ [l]\<rparr>) (a\<lparr>lg_people := insert (i_tenant l, i_hash l) (lg_people a)\<rparr>)"
proof (rule representsI, goal_cases)
  case (2 k)
  have "rel_option (is_review (t_items t) (t_links t @ [l])) (find_row review_key k (t_reviews t)) (lg_reviews a k)"
    using representsD(2) [OF assms(1), of k] names_person_append by (auto simp: is_review_def elim: option.rel_mono_strong)
  then show ?case by simp
next
  case (4 tn h)
  show ?case using representsD(4) [OF assms(1), of tn h] assms(2)
    by (auto simp: find_row_append find_row_Cons link_key_def split: option.split)
qed (use representsD [OF assms(1)] assms(4) in auto)

section \<open>The operations\<close>

text \<open>\<open>B\<close> is whatever the caller knows of the work items; the other operations leave them alone.\<close>

lemma triple_emit:
  "triple tenant (\<lambda>t. represents t a \<and> B (t_items t)) (emit tenant ty sid occ p)
     (\<lambda>_ t. represents t (record_events tenant [(ty, sid, occ, p)] a) \<and> B (t_items t))"
  unfolding triple_def
proof (intro allI impI)
  fix env s x s'
  assume q: "quiet env" "env_tenant env = tenant" and P: "represents (tx_tabs s) a \<and> B (t_items (tx_tabs s))"
    and run: "emit tenant ty sid occ p env s = (Inr x, s')"
  from run q(1) obtain row where
    "tx_tabs s' = (tx_tabs s)\<lparr>t_outbox := t_outbox (tx_tabs s) @ [row]\<rparr>" "holds_event (tenant, (ty, sid, occ, p)) row"
    by (auto simp: emit_def enqueueOutbox_def tx_defs tx_exec_quiet Let_def stmt_outbox_def holds_event_def event_new_def
        split: option.splits if_splits)
  with P show "represents (tx_tabs s') (record_events tenant [(ty, sid, occ, p)] a) \<and> B (t_items (tx_tabs s'))"
    using represents_outbox by simp
qed

lemma item_row_fact [simp]:
  "item_key (item_row tenant uuid now wi) = item_id tenant wi" "item_fact (item_row tenant uuid now wi) = new_item wi"
  by (simp_all add: item_row_def item_key_def item_id_def item_fact_def new_item_def)

lemma update_fact:
  "wi_Event wi \<noteq> [] \<Longrightarrow> item_fact (item_update old (item_row tenant uuid now wi)) = refresh_item wi (item_fact old)"
  "wi_Event wi = [] \<Longrightarrow> item_fact (item_ensure old new) = refresh_item wi (item_fact old)"
  by (simp_all add: item_fact_def item_update_def item_ensure_def item_row_def refresh_item_def new_item_def)

context item_write
begin

lemma triple_write:
  assumes "\<And>old uuid now. item_fact (merge old (item_row tenant uuid now wi)) = refresh_item wi (item_fact old)"
  shows "triple tenant (\<lambda>t. represents t a \<and> names_all (t_items t) ids pars)
    (tx_exec (\<lambda>app. stmt_item app merge (item_row tenant uuid now wi)))
    (\<lambda>i t. represents t (with_item tenant wi a) \<and>
       names_all (t_items t) (ids(wi_NodeID wi \<mapsto> i)) (pars(wi_NodeID wi \<mapsto> item_id tenant wi)))"
proof (rule triple_exec)
  fix t :: tables and i t'
  let ?row = "item_row tenant uuid now wi"
  let ?items = "upsert item_key merge ?row (t_items t)"
  assume P: "represents t a \<and> names_all (t_items t) ids pars" and st: "stmt_item tenant merge ?row t = Some (i, t')"
  from st have t': "t' = t\<lparr>t_items := ?items\<rparr>" and i: "i = w_id (the (find_row item_key (item_id tenant wi) ?items))"
    by (auto simp: stmt_item_def Let_def split: if_splits)
  have "names_item ?items i (item_id tenant wi)" using names_new [of ?row "t_items t"] i by simp
  with P have "names_all ?items (ids(wi_NodeID wi \<mapsto> i)) (pars(wi_NodeID wi \<mapsto> item_id tenant wi))"
    by (blast intro: names_all_upsert)
  moreover have "represents t' (with_item tenant wi a)"
    using represents_upsert [of t a ?row "refresh_item wi"] P assms unfolding t' item_row_fact by blast
  ultimately show "represents t' (with_item tenant wi a) \<and>
       names_all (t_items t') (ids(wi_NodeID wi \<mapsto> i)) (pars(wi_NodeID wi \<mapsto> item_id tenant wi))"
    using t' by simp
qed

end

lemma triple_item:
  "triple tenant (\<lambda>t. represents t a \<and> names_all (t_items t) ids pars)
     (if wi_Event wi = [] then ensureWorkItem tenant wi else upsertWorkItem tenant wi)
     (\<lambda>i t. represents t (with_item tenant wi a) \<and>
       names_all (t_items t) (ids(wi_NodeID wi \<mapsto> i)) (pars(wi_NodeID wi \<mapsto> item_id tenant wi)))"
  unfolding ensureWorkItem_def upsertWorkItem_def
  by (intro triple_if triple_fresh triple_ask ensuring.triple_write refreshing.triple_write update_fact)

lemma triple_items:
  "triple tenant (\<lambda>t. represents t a \<and> names_all (t_items t) ids pars) (persist_items tenant wis ids)
     (\<lambda>ids' t. represents t (fold (ledger_item tenant) wis a) \<and> names_all (t_items t) ids' (pars ++ parents tenant wis))"
proof (induction wis arbitrary: a ids pars)
  case Nil
  show ?case by (simp add: parents_def) (rule triple_return)
next
  case (Cons wi wis)
  let ?pars = "pars(wi_NodeID wi \<mapsto> item_id tenant wi)"
  have ev: "triple tenant (\<lambda>t. represents t (with_item tenant wi a) \<and> names_all (t_items t) ids' ?pars)
    (if wi_Event wi = [] then eff_return ()
     else emit tenant (wi_Event wi) (wi_NodeID wi) (wi_OccurredAt wi) (workItemPayload wi))
    (\<lambda>_ t. represents t (ledger_item tenant wi a) \<and> names_all (t_items t) ids' ?pars)" for ids'
    using triple_emit [of tenant "with_item tenant wi a" "\<lambda>items. names_all items ids' ?pars"]
    by (cases "wi_Event wi = []") (simp_all add: triple_return ledger_item_def item_specs_def, simp add: record_events_def triple_return)
  have p: "pars ++ parents tenant (wi # wis) = ?pars ++ parents tenant wis"
    by (simp add: parents_def map_add_upd_left)
  show ?case unfolding persist_items.simps p fold_simps o_def
    by (rule triple_bind [OF triple_item triple_bind [OF ev Cons.IH]])
qed

lemma triple_check:
  "triple tenant (\<lambda>t. represents t a) (upsertCheckRun tenant cr) (\<lambda>_ t. represents t (with_check tenant cr a))"
  unfolding upsertCheckRun_def
proof (intro triple_fresh triple_exec)
  fix uuid t u t'
  let ?row = "\<lparr>k_tenant = tenant, k_id = uuid, k_source = cr_SourceID cr, k_head_sha = cr_HeadSHA cr,
    k_name = cr_Name cr, k_conclusion = nullIfEmpty (cr_Conclusion cr), k_started = map_option pg_time (cr_StartedAt cr),
    k_completed = map_option pg_time (cr_CompletedAt cr)\<rparr>"
  assume P: "represents t a" and "stmt_check tenant ?row t = Some (u, t')"
  then have t': "t' = t\<lparr>t_checks := upsert check_key check_update ?row (t_checks t)\<rparr>"
    by (auto simp: stmt_check_def split: if_splits)
  show "represents t' (with_check tenant cr a)"
    unfolding t' by (rule represents_check [OF P]) (simp_all add: check_fact_def new_check_def refresh_check_def check_update_def check_key_def)
qed

lemma triple_checks:
  "triple tenant (\<lambda>t. represents t a) (persist_checks tenant crs) (\<lambda>_ t. represents t (fold (ledger_check tenant) crs a))"
proof (induction crs arbitrary: a)
  case Nil
  show ?case by (simp add: triple_return)
next
  case (Cons cr crs)
  have ev: "triple tenant (\<lambda>t. represents t (with_check tenant cr a))
    (emit tenant CheckCompleted (cr_SourceID cr) (occurred cr) (checkRunPayload cr)) (\<lambda>_ t. represents t (ledger_check tenant cr a))"
    using triple_emit [of tenant "with_check tenant cr a" "\<lambda>_. True"] by (simp add: ledger_check_def check_spec_def)
  show ?case unfolding persist_checks.simps fold_simps o_def
    by (rule triple_bind [OF triple_check triple_bind [OF ev Cons.IH]])
qed

lemma triple_comments:
  "triple tenant (\<lambda>t. represents t a) (persist_comments tenant cms) (\<lambda>_ t. represents t (record_events tenant (map comment_spec cms) a))"
proof (induction cms arbitrary: a)
  case Nil
  show ?case by (simp add: triple_return record_events_def)
next
  case (Cons cm cms)
  have ev: "triple tenant (\<lambda>t. represents t a) (emit tenant CommentAdded (cm_SourceID cm) (cm_CreatedAt cm) (commentPayload cm))
    (\<lambda>_ t. represents t (record_events tenant [comment_spec cm] a))"
    using triple_emit [of tenant a "\<lambda>_. True"] by (simp add: comment_spec_def)
  have "record_events tenant (map comment_spec cms) (record_events tenant [comment_spec cm] a) =
    record_events tenant (map comment_spec (cm # cms)) a"
    by (simp add: record_events_def)
  with triple_bind [OF ev Cons.IH] show ?case by simp
qed

text \<open>Looking a login up or creating its contributor and link; the ids do not matter, the hash does.\<close>

lemma find_row_filter: "(\<And>r. key r = k \<Longrightarrow> P r) \<Longrightarrow> find_row key k (filter P rows) = find_row key k rows"
  by (induction rows) (auto simp: find_row_Cons)

lemma select_link:
  "stmt_select_link app app kind hash t = Some (map_option i_contributor (find_row link_key (app, kind, hash) (t_links t)), t)"
proof -
  have "find_row link_key (app, kind, hash) (filter (\<lambda>i. i_tenant i = app) (t_links t)) = find_row link_key (app, kind, hash) (t_links t)"
    by (rule find_row_filter) (simp add: link_key_def)
  then show ?thesis by (simp add: stmt_select_link_def)
qed

lemma with_person_known: "(tenant, hashIdentifier login) \<in> lg_people a \<Longrightarrow> with_person tenant login a = a"
  by (simp add: insert_absorb)

lemma triple_resolve:
  "triple tenant (\<lambda>t. represents t a \<and> B (t_items t)) (resolveContributor tenant login)
     (\<lambda>i t. represents t (with_person tenant login a) \<and> B (t_items t) \<and> names_person (t_links t) tenant i (hashIdentifier login))"
proof -
  let ?hash = "hashIdentifier login"
  let ?found = "\<lambda>t. find_row link_key (tenant, github_login, ?hash) (t_links t)"
  let ?P = "\<lambda>t. represents t a \<and> B (t_items t)"
  let ?Q = "\<lambda>i t. represents t (with_person tenant login a) \<and> B (t_items t) \<and> names_person (t_links t) tenant i ?hash"
  have known: "?Q (i_contributor l) t" if "?P t" "?found t = Some l" for t l
  proof -
    have "(tenant, ?hash) \<in> lg_people a" using that representsD(4) [of t a tenant ?hash] by auto
    with that show ?thesis by (simp add: with_person_known names_person_def)
  qed
  have select: "triple tenant ?P (tx_exec (\<lambda>app. stmt_select_link app tenant github_login ?hash))
    (\<lambda>found t. ?P t \<and> found = map_option i_contributor (?found t))"
    by (rule triple_exec) (simp add: select_link)
  have insert: "triple tenant (\<lambda>t. ?P t \<and> ?found t = None)
    (tx_exec (\<lambda>app. stmt_contributor app \<lparr>c_tenant = tenant, c_id = uuid, c_name = login, c_is_bot = has_suffix login ''[bot]''\<rparr>))
    (\<lambda>cid t. ?P t \<and> ?found t = None \<and> (\<exists>c \<in> set (t_contributors t). c_id c = cid \<and> c_tenant c = tenant))" for uuid
    by (rule triple_exec) (auto simp: stmt_contributor_def represents_contributor split: if_splits)
  have link: "triple tenant (\<lambda>t. ?P t \<and> ?found t = None \<and> (\<exists>c \<in> set (t_contributors t). c_id c = cid \<and> c_tenant c = tenant))
    (tx_exec (\<lambda>app. stmt_link app \<lparr>i_tenant = tenant, i_id = i, i_contributor = cid, i_kind = github_login, i_hash = ?hash\<rparr>))
    (\<lambda>n t. n = 1 \<and> ?Q cid t)" for cid i
  proof (rule triple_exec)
    fix t :: tables and n t'
    let ?l = "\<lparr>i_tenant = tenant, i_id = i, i_contributor = cid, i_kind = github_login, i_hash = ?hash\<rparr>"
    assume P: "?P t \<and> ?found t = None \<and> (\<exists>c \<in> set (t_contributors t). c_id c = cid \<and> c_tenant c = tenant)"
      and st: "stmt_link tenant ?l t = Some (n, t')"
    have k: "link_key ?l = (tenant, github_login, ?hash)" by (simp add: link_key_def)
    with P have none: "find_row link_key (link_key ?l) (t_links t) = None" by simp
    with st k have t': "n = 1" "t' = t\<lparr>t_links := t_links t @ [?l]\<rparr>"
      by (auto simp: stmt_link_def insert_new_def find_row_None split: if_splits)
    have "represents t' (with_person tenant login a)"
      using represents_link [of t a ?l] P none unfolding t' by simp
    moreover have "names_person (t_links t') tenant cid ?hash"
      using none k t' by (simp add: names_person_def find_row_append find_row_Cons)
    ultimately show "n = 1 \<and> ?Q cid t'" using P t' by simp
  qed
  show ?thesis
    unfolding resolveContributor_def Let_def
  proof (rule triple_bind [OF select], goal_cases)
    case (1 found)
    show ?case
    proof (cases found)
      case None
      have tail: "triple tenant (\<lambda>t. n = 1 \<and> ?Q cid t)
        (if n = 0 then eff_bind (tx_exec (\<lambda>app. stmt_select_link app tenant github_login ?hash))
           (\<lambda>again. case again of None \<Rightarrow> eff_fail DbError | Some winner \<Rightarrow> eff_return winner) else eff_return cid) ?Q" for n :: nat and cid
        by (cases "n = 1") (simp_all add: triple_return, simp add: triple_def)
      have create: "triple tenant (\<lambda>t. ?P t \<and> ?found t = None)
        (eff_bind tx_fresh (\<lambda>uuid. eff_bind (tx_exec (\<lambda>app. stmt_contributor app
           \<lparr>c_tenant = tenant, c_id = uuid, c_name = login, c_is_bot = has_suffix login ''[bot]''\<rparr>)) (\<lambda>cid.
         eff_bind tx_fresh (\<lambda>link. eff_bind (tx_exec (\<lambda>app. stmt_link app
           \<lparr>i_tenant = tenant, i_id = link, i_contributor = cid, i_kind = github_login, i_hash = ?hash\<rparr>)) (\<lambda>n.
         if n = 0 then eff_bind (tx_exec (\<lambda>app. stmt_select_link app tenant github_login ?hash))
           (\<lambda>again. case again of None \<Rightarrow> eff_fail DbError | Some winner \<Rightarrow> eff_return winner) else eff_return cid))))) ?Q"
        by (intro triple_fresh triple_bind [OF insert] triple_bind [OF link] tail)
      show ?thesis unfolding None option.case by (rule triple_weaken [OF create]) auto
    next
      case (Some cid)
      show ?thesis unfolding Some option.case
      proof (rule triple_return)
        fix t assume t: "?P t \<and> Some cid = map_option i_contributor (?found t)"
        then obtain l where "?found t = Some l" "cid = i_contributor l" by (cases "?found t") auto
        with known t show "?Q cid t" by blast
      qed
    qed
  qed
qed

lemma triple_reviews:
  "triple tenant (\<lambda>t. represents t a \<and> names_all (t_items t) ids pars) (persist_reviews tenant ids rvs)
     (\<lambda>_ t. represents t (fold (ledger_review tenant pars) rvs a))"
proof (induction rvs arbitrary: a)
  case Nil
  show ?case by (simp, rule triple_return, simp)
next
  case (Cons rv rvs)
  let ?B = "\<lambda>items. names_all items ids pars"
  show ?case
  proof (cases "ids (rv_PRNodeID rv)")
    case None
    then show ?thesis by (simp add: triple_fail)
  next
    case (Some i)
    show ?thesis
    proof (cases "pars (rv_PRNodeID rv)")
      case None
      with Some have "\<not> names_all items ids pars" for items
        unfolding names_all_def by (intro notI, drule_tac x = "rv_PRNodeID rv" in spec) simp
      then show ?thesis by (simp add: triple_def)
    next
      case item: (Some item)
      show ?thesis
      proof (cases "rv_ReviewerLogin rv = []")
        case True
        then show ?thesis using Cons.IH Some item by (simp add: ledger_review_def)
      next
        case False
        let ?a = "with_person tenant (rv_ReviewerLogin rv) a"
        let ?key = "(tenant, rv_SourceID rv)"
        have ins: "triple tenant (\<lambda>t. represents t ?a \<and> ?B (t_items t) \<and> names_person (t_links t) tenant j (hashIdentifier (rv_ReviewerLogin rv)))
          (insertReview tenant i j rv)
          (\<lambda>_ t. represents t (with_review ?key (new_review item rv) ?a) \<and> ?B (t_items t))" for j
          unfolding insertReview_def
        proof (intro triple_fresh triple_exec)
          fix uuid t u t'
          let ?row = "\<lparr>v_tenant = tenant, v_id = uuid, v_work_item = i, v_reviewer = j, v_source = rv_SourceID rv,
            v_state = rv_State rv, v_comments = rv_CommentCount rv, v_submitted = pg_time (rv_SubmittedAt rv)\<rparr>"
          assume P: "represents t ?a \<and> ?B (t_items t) \<and> names_person (t_links t) tenant j (hashIdentifier (rv_ReviewerLogin rv))"
            and "stmt_review tenant ?row t = Some (u, t')"
          then have t': "t' = t\<lparr>t_reviews := upsert review_key review_update ?row (t_reviews t)\<rparr>"
            by (auto simp: stmt_review_def split: if_splits)
          from P Some item have "names_item (t_items t) i item"
            by (auto simp: names_all_def dest: spec [of _ "rv_PRNodeID rv"])
          with P have "is_review (t_items t) (t_links t) ?row (new_review item rv)" by (simp add: is_review_def new_review_def)
          with P represents_review [of t ?a ?row] have "represents t' (with_review (review_key ?row) (new_review item rv) ?a)"
            unfolding t' by blast
          with P t' show "represents t' (with_review ?key (new_review item rv) ?a) \<and> ?B (t_items t')"
            by (simp add: review_key_def)
        qed
        have ev: "triple tenant (\<lambda>t. represents t (with_review ?key (new_review item rv) ?a) \<and> ?B (t_items t))
          (emit tenant ReviewSubmitted (rv_SourceID rv) (rv_SubmittedAt rv) (reviewPayload rv))
          (\<lambda>_ t. represents t (ledger_review tenant pars rv a) \<and> ?B (t_items t))"
          using triple_emit [of tenant "with_review ?key (new_review item rv) ?a" ?B] False item
          by (simp add: ledger_review_def review_specs_def)
        show ?thesis using Some False
          by (simp add: triple_bind [OF triple_resolve triple_bind [OF ins triple_bind [OF ev Cons.IH]]])
      qed
    qed
  qed
qed

lemma triple_persist:
  "triple tenant (\<lambda>t. represents t a) (persist tenant res) (\<lambda>_ t. represents t (ledger_persist tenant res a))"
proof -
  let ?pars = "parents tenant (rs_WorkItems res)"
  have items: "triple tenant (\<lambda>t. represents t a) (persist_items tenant (rs_WorkItems res) Map.empty)
    (\<lambda>ids t. represents t (fold (ledger_item tenant) (rs_WorkItems res) a) \<and> names_all (t_items t) ids ?pars)"
    by (rule triple_weaken [OF triple_items [where pars = Map.empty]]) (simp_all add: names_all_def)
  show ?thesis unfolding persist_def ledger_persist_def o_def
    by (rule triple_bind [OF items triple_bind [OF triple_reviews triple_bind [OF triple_checks triple_comments]]])
qed

lemma triple_deliver:
  "triple tenant (\<lambda>t. represents t a) (deliver tenant delivery event res) (\<lambda>_ t. represents t (ledger_deliver tenant delivery res a))"
proof (cases "delivery = []")
  case True
  then show ?thesis
    by (simp add: deliver_def markDelivery_def ledger_deliver_def triple_persist)
next
  case False
  let ?d = "\<lparr>d_tenant = tenant, d_delivery = delivery, d_event = event\<rparr>"
  let ?a = "a\<lparr>lg_deliveries := insert (tenant, delivery) (lg_deliveries a)\<rparr>"
  have mark: "triple tenant (\<lambda>t. represents t a) (tx_exec (\<lambda>app. stmt_delivery app ?d))
    (\<lambda>n t. represents t ?a \<and> (n = 1 \<longleftrightarrow> (tenant, delivery) \<notin> lg_deliveries a))"
  proof (rule triple_exec)
    fix t :: tables and n t'
    assume P: "represents t a" and st: "stmt_delivery tenant ?d t = Some (n, t')"
    have k: "delivery_key ?d = (tenant, delivery)" by (simp add: delivery_key_def)
    from st have t': "t' = t\<lparr>t_deliveries := fst (insert_new delivery_key ?d (t_deliveries t))\<rparr>"
      "n = snd (insert_new delivery_key ?d (t_deliveries t))"
      by (auto simp: stmt_delivery_def Let_def split: if_splits prod.splits)
    then have "n = 1 \<longleftrightarrow> (tenant, delivery) \<notin> lg_deliveries a"
      using insert_new_fresh [of delivery_key ?d] representsD(6) [OF P, of "(tenant, delivery)"] k by auto
    with represents_delivery [OF P, of ?d] t' k show "represents t' ?a \<and> (n = 1 \<longleftrightarrow> (tenant, delivery) \<notin> lg_deliveries a)"
      by simp
  qed
  have test: "triple tenant (\<lambda>t. represents t ?a \<and> (n = 1 \<longleftrightarrow> (tenant, delivery) \<notin> lg_deliveries a)) (eff_return (n = 1))
    (\<lambda>fresh t. represents t ?a \<and> (fresh \<longleftrightarrow> (tenant, delivery) \<notin> lg_deliveries a))" for n :: nat
    by (rule triple_return)
  have body: "triple tenant (\<lambda>t. represents t ?a \<and> (fresh \<longleftrightarrow> (tenant, delivery) \<notin> lg_deliveries a))
    (if fresh then persist tenant res else eff_fail Duplicate) (\<lambda>_ t. represents t (ledger_deliver tenant delivery res a))" for fresh
  proof (rule triple_if)
    assume f: fresh
    show "triple tenant (\<lambda>t. represents t ?a \<and> (fresh \<longleftrightarrow> (tenant, delivery) \<notin> lg_deliveries a)) (persist tenant res)
      (\<lambda>_ t. represents t (ledger_deliver tenant delivery res a))"
    proof (cases "(tenant, delivery) \<in> lg_deliveries a")
      case True
      with f show ?thesis by (simp add: triple_def)
    next
      case new: False
      with False f triple_persist [of tenant ?a res] show ?thesis by (simp add: ledger_deliver_def)
    qed
  qed (rule triple_fail)
  show ?thesis unfolding deliver_def markDelivery_def if_not_P [OF False]
    by (rule triple_bind [OF triple_bind [OF mark test] body])
qed

section \<open>Processing refines the ledger\<close>

text \<open>A message of no tenant is no news; else its result is delivered for its tenant.\<close>

definition ledger_message :: "(int \<rightharpoonup> string) \<Rightarrow> message \<Rightarrow> ledger \<Rightarrow> ledger" where
  "ledger_message installations msg a =
     (case Normalize (raw_of undefined msg) of
        Inl _ \<Rightarrow> a
      | Inr res \<Rightarrow>
          if rs_Skip res \<or> result_empty res then a
          else (case installations (rs_InstallationID res) of
                  None \<Rightarrow> a
                | Some tenant \<Rightarrow> ledger_deliver tenant (delivery_of msg) res a))"

lemma ledger_message_target:
  "ledger_message (db_installations db) msg a =
     (case target msg db of None \<Rightarrow> a | Some (res, tenant) \<Rightarrow> ledger_deliver tenant (delivery_of msg) res a)"
  by (auto simp: ledger_message_def target_def split: sum.split option.split)

lemma duplicate_kept:
  assumes "transaction env msg res tenant db = (Inl Duplicate, db')" "quiet env" "represents (db_tabs db) a" "target msg db = Some (res, tenant)"
  shows "db_tabs db' = db_tabs db" "delivery_of msg \<noteq> []" "(tenant, delivery_of msg) \<in> lg_deliveries a"
proof -
  show "db_tabs db' = db_tabs db"
    using WithTenant_rollback [OF others_deliver assms(2) assms(1)] by simp
  obtain r1 s where d: "deliver tenant (delivery_of msg) (event_of msg) res (env\<lparr>env_tenant := tenant\<rparr>) (tx_begin env db) = (r1, s)"
    by fastforce
  with assms(1) have r1: "r1 = Inl Duplicate"
    by (auto simp: WithTenant_def split: if_splits sum.splits commit_outcome.splits)
  show ne: "delivery_of msg \<noteq> []"
  proof
    assume "delivery_of msg = []"
    with d r1 have "persist tenant res (env\<lparr>env_tenant := tenant\<rparr>) (tx_begin env db) = (Inl Duplicate, s)"
      by (simp add: deliver_def markDelivery_def)
    with transient_persist [OF target_reviews [OF assms(4)], of tenant] have "transient Duplicate" unfolding fails_only_def by blast
    then show False by simp
  qed
  have "delivered tenant (delivery_of msg) (db_tabs db)"
    using deliver_duplicate [OF _ _ ne d [unfolded r1]] assms(2) target_reviews [OF assms(4)] by (simp add: tx_begin_def)
  then show "(tenant, delivery_of msg) \<in> lg_deliveries a"
    using representsD(6) [OF assms(3)] by (simp add: delivered_def)
qed

text \<open>A run that succeeded, or whose commit took effect behind an error, has its effect; no other has one.\<close>

lemma message_refines:
  assumes "run env fault msg db = (r, db')" "quiet env" "represents (db_tabs db) a"
  shows "represents (db_tabs db') (if r = Inr () \<or> db_tabs db' \<noteq> db_tabs db then ledger_message (db_installations db) msg a else a)"
proof (cases "target msg db")
  case None
  with assms show ?thesis using run_target_None [of msg db env fault] by (simp add: ledger_message_target)
next
  case (Some rt)
  then obtain res tenant where t: "target msg db = Some (res, tenant)" by (cases rt) auto
  let ?a = "ledger_deliver tenant (delivery_of msg) res a"
  obtain r1 db1 where tr: "transaction env msg res tenant db = (r1, db1)" by fastforce
  have r: "db' = db \<and> r \<noteq> Inr () \<or> db' = db1 \<and> (r = Inr () \<longrightarrow> r1 = Inr () \<or> r1 = Inl Duplicate)"
    using assms(1) run_target_Some [OF t, of env fault] tr by (auto split: if_splits sum.splits)
  obtain r2 s where d: "deliver tenant (delivery_of msg) (event_of msg) res (env\<lparr>env_tenant := tenant\<rparr>) (tx_begin env db) = (r2, s)"
    by fastforce
  have ok: "represents (tx_tabs s) ?a" if "r2 = Inr ()"
  proof -
    have "represents (tx_tabs (tx_begin env db)) a" using assms(3) by (simp add: tx_begin_def)
    with d that show ?thesis using triple_run [OF triple_deliver, where env = "env\<lparr>env_tenant := tenant\<rparr>"] assms(2) by simp
  qed
  have kept: "tx_others s = db_tabs db"
    using others_deliver d assms(2) unfolding keeps_others_def
    by (metis quiet_tenant snd_conv tx_begin_def tx_state.select_convs(2))
  have "r1 = Inr () \<Longrightarrow> represents (db_tabs db1) ?a" "db_tabs db1 = db_tabs db \<or> represents (db_tabs db1) ?a"
    using tr d ok kept by (cases r2; auto simp: WithTenant_def split: if_splits commit_outcome.splits)+
  moreover have "represents (db_tabs db1) ?a" if "r1 = Inl Duplicate"
    using duplicate_kept [OF _ assms(2,3) t] tr that assms(3) by (simp add: ledger_deliver_def)
  ultimately show ?thesis using r assms(3) by (auto simp: ledger_message_target t)
qed

text \<open>
  C2. \<open>process\<close> implements its abstract specification: on tables that represent a ledger, a
  successful run leaves tables that represent the ledger with the message's delivery recorded,
  each work item created, refreshed or left alone by its key, each review filed under its pull
  request and reviewer, each check refreshed, and each event appended, or the same ledger when
  the delivery was already recorded; a run that fails leaves the ledger as it was, unless its
  commit took effect behind the error.
\<close>

theorem process_refines:
  assumes "process Normalize env fault msg db = (r, db')" "quiet env" "represents (db_tabs db) a"
  shows "represents (db_tabs db')
    (if r = Inr () \<or> db_tabs db' \<noteq> db_tabs db then ledger_message (db_installations db) msg a else a)"
  using message_refines [OF assms] .

section \<open>Redeliveries\<close>

lemma ledger_persist_deliveries [simp]: "lg_deliveries (ledger_persist tenant res a) = lg_deliveries a"
proof -
  have "lg_deliveries (fold (ledger_item tenant) wis b) = lg_deliveries b" for wis b
    by (induction wis arbitrary: b) (simp_all add: ledger_item_def record_events_def)
  moreover have "lg_deliveries (fold (ledger_review tenant pars) rvs b) = lg_deliveries b" for pars rvs b
    by (induction rvs arbitrary: b) (simp_all add: ledger_review_def record_events_def split: option.split)
  moreover have "lg_deliveries (fold (ledger_check tenant) crs b) = lg_deliveries b" for crs b
    by (induction crs arbitrary: b) (simp_all add: ledger_check_def record_events_def)
  moreover have "lg_deliveries (record_events tenant specs b) = lg_deliveries b" for specs b
    by (simp add: record_events_def)
  ultimately show ?thesis by (simp add: ledger_persist_def)
qed

lemma ledger_deliver_deliveries:
  "lg_deliveries (ledger_deliver tenant d res a) = (if d = [] then lg_deliveries a else insert (tenant, d) (lg_deliveries a))"
  by (auto simp: ledger_deliver_def)

text \<open>A delivery is on record from its first message on; any later message of it is absorbed.\<close>

lemma ledger_message_cases:
  obtains (none) "ledger_message m' msg = id"
  | (deliver) res tenant where "ledger_message m' msg = ledger_deliver tenant (delivery_of msg) res"
proof (cases "Normalize (raw_of undefined msg)")
  case (Inl e)
  then have "ledger_message m' msg = id" by (simp add: ledger_message_def fun_eq_iff)
  then show ?thesis by (rule none)
next
  case (Inr res)
  show ?thesis
  proof (cases "rs_Skip res \<or> result_empty res \<or> m' (rs_InstallationID res) = None")
    case True
    with Inr have "ledger_message m' msg = id" by (auto simp: ledger_message_def fun_eq_iff)
    then show ?thesis by (rule none)
  next
    case False
    then obtain tenant where "m' (rs_InstallationID res) = Some tenant" by auto
    with Inr False have "ledger_message m' msg = ledger_deliver tenant (delivery_of msg) res"
      by (simp add: ledger_message_def fun_eq_iff)
    then show ?thesis by (rule deliver)
  qed
qed

lemma ledger_message_grows: "lg_deliveries a \<subseteq> lg_deliveries (ledger_message m' msg a)"
  by (cases m' msg rule: ledger_message_cases) (auto simp: ledger_deliver_deliveries)

lemma ledger_fold_grows: "lg_deliveries a \<subseteq> lg_deliveries (fold (ledger_message m') msgs a)"
proof (induction msgs arbitrary: a)
  case (Cons msg msgs)
  show ?case using ledger_message_grows [of a m' msg] Cons.IH [of "ledger_message m' msg a"] by simp
qed simp

lemma ledger_redelivered:
  assumes "msg \<in> set msgs" "delivery_of msg \<noteq> []"
  shows "ledger_message m' msg (fold (ledger_message m') msgs a) = fold (ledger_message m') msgs a"
proof (cases m' msg rule: ledger_message_cases)
  case (deliver res tenant)
  from assms(1) obtain before after where msgs: "msgs = before @ msg # after" by (auto dest: split_list)
  have "(tenant, delivery_of msg) \<in> lg_deliveries (ledger_message m' msg (fold (ledger_message m') before a))"
    unfolding deliver using assms(2) by (simp add: ledger_deliver_deliveries)
  then have "(tenant, delivery_of msg) \<in> lg_deliveries (fold (ledger_message m') msgs a)"
    using ledger_fold_grows by (auto simp: msgs)
  with assms(2) show ?thesis unfolding deliver by (simp add: ledger_deliver_def)
qed simp

text \<open>
  Of a message with a delivery id only the first occurrence counts; a message without one counts
  every time.
\<close>

definition absorbed :: "message list \<Rightarrow> message \<Rightarrow> bool" where
  "absorbed msgs msg \<longleftrightarrow> delivery_of msg \<noteq> [] \<and> msg \<in> set msgs"

definition firsts :: "message list \<Rightarrow> message list" where
  "firsts = foldl (\<lambda>msgs msg. if absorbed msgs msg then msgs else msgs @ [msg]) []"

lemma firsts_Nil [simp]: "firsts [] = []"
  by (simp add: firsts_def)

lemma firsts_snoc: "firsts (msgs @ [msg]) = (if absorbed (firsts msgs) msg then firsts msgs else firsts msgs @ [msg])"
  by (simp add: firsts_def)

lemma ledger_firsts: "fold (ledger_message m') msgs a = fold (ledger_message m') (firsts msgs) a"
proof (induction msgs rule: rev_induct)
  case (snoc msg msgs)
  then show ?case using ledger_redelivered [of msg "firsts msgs" m' a] by (simp add: firsts_snoc absorbed_def)
qed simp

section \<open>A sample\<close>

theorem process_refines_witness:
  "\<exists>db'. pr_run never = (Inr (), db') \<and>
     represents (db_tabs db') (ledger_message [42424242 \<mapsto> acme] (sample_msg ''pull_request'' sample_pr) empty_ledger) \<and>
     length (lg_events (ledger_message [42424242 \<mapsto> acme] (sample_msg ''pull_request'' sample_pr) empty_ledger)) = 1"
proof (rule pr_run_never)
  fix db' assume r: "pr_run never = (Inr (), db')" "length (t_outbox (db_tabs db')) = 1"
  have i: "db_installations sample_db = [42424242 \<mapsto> acme]" by (simp add: sample_db_def)
  have "represents (db_tabs sample_db) empty_ledger" using represents_empty by (simp add: sample_db_def)
  from process_refines [OF r(1) sample_quiet(1) this] have
    rep: "represents (db_tabs db') (ledger_message [42424242 \<mapsto> acme] (sample_msg ''pull_request'' sample_pr) empty_ledger)"
    unfolding i by simp
  with r(2) have "length (lg_events (ledger_message [42424242 \<mapsto> acme] (sample_msg ''pull_request'' sample_pr) empty_ledger)) = 1"
    using representsD(7) [OF rep] by (simp add: list_all2_lengthD)
  with r(1) rep show ?thesis by blast
qed

end
