(* ===== verification/Platform.thy ===== *)
theory Platform
  imports Ledger OutboxRelay TxRelation
begin

text \<open>
  The write side as one system: normalizer runs on any messages, with faults, retries and
  redeliveries, interleaved with passes of the relay. What the canonical topic holds is then
  determined by the ledger of the messages that took effect, and the ledger by the first
  occurrences of the messages.
\<close>

section \<open>The system\<close>

text \<open>\<open>pf_done\<close> is the history: the messages whose run took effect, in order.\<close>

record platform =
  pf_db :: database
  pf_log :: "(int \<times> kmessage) list"
  pf_done :: "message list"

inductive platform_step :: "platform \<Rightarrow> platform \<Rightarrow> bool" where
  attempt: "process Normalize env fault msg (pf_db s) = (r, db') \<Longrightarrow> quiet env \<Longrightarrow>
      platform_step s (s\<lparr>pf_db := db',
        pf_done := (if r = Inr () \<or> db_tabs db' \<noteq> db_tabs (pf_db s) then pf_done s @ [msg] else pf_done s)\<rparr>)"
| relay: "drainBatch env batchSize (t_outbox (db_tabs (pf_db s))) = (r, rows', msgs) \<Longrightarrow> \<forall>i. \<not> dr_locked env i \<Longrightarrow>
      platform_step s (s\<lparr>pf_db := (pf_db s)\<lparr>db_tabs := (db_tabs (pf_db s))\<lparr>t_outbox := rows'\<rparr>\<rparr>,
        pf_log := pf_log s @ msgs\<rparr>)"

inductive platform_reach :: "platform \<Rightarrow> bool" where
  start: "db_tabs db = no_tables \<Longrightarrow> platform_reach \<lparr>pf_db = db, pf_log = [], pf_done = []\<rparr>"
| step: "platform_reach s \<Longrightarrow> platform_step s s' \<Longrightarrow> platform_reach s'"

section \<open>The tables represent the history\<close>

definition history :: "platform \<Rightarrow> ledger" where
  "history s = fold (ledger_message (db_installations (pf_db s))) (pf_done s) empty_ledger"

lemma holds_published [simp]: "holds_event e (o'\<lparr>o_published := p\<rparr>) = holds_event e o'"
  by (simp add: holds_event_def)

lemma represents_relay:
  assumes "represents t a" "drainBatch env batchSize (t_outbox t) = (r, rows', msgs)"
  shows "represents (t\<lparr>t_outbox := rows'\<rparr>) a"
proof -
  have "list_all2 holds_event es (mark_published now ids rows) = list_all2 holds_event es rows" for es now ids rows
    by (simp add: mark_published_def list_all2_map2 if_distrib cong: if_cong)
  moreover obtain ids where "rows' = mark_published (dr_now env) ids (t_outbox t) \<or> rows' = t_outbox t"
    using assms(2) by (cases rule: drain_shape) auto
  ultimately have "list_all2 holds_event (lg_events a) rows'" using representsD(7) [OF assms(1)] by auto
  then show ?thesis by (intro representsI) (use representsD [OF assms(1)] in simp_all)
qed

lemma platform_installations: "platform_step s s' \<Longrightarrow> db_installations (pf_db s') = db_installations (pf_db s)"
  by (erule platform_step.cases) (auto dest: arg_cong [of _ _ "\<lambda>x. db_installations (snd x)"] simp: run_installations)

lemma platform_represents: "platform_reach s \<Longrightarrow> represents (db_tabs (pf_db s)) (history s)"
proof (induction rule: platform_reach.induct)
  case (start db)
  then show ?case using represents_empty by (simp add: history_def)
next
  case (step s s')
  note inst = platform_installations [OF step.hyps(2)]
  from step.hyps(2) show ?case
  proof (cases rule: platform_step.cases)
    case (attempt env fault msg r db')
    then show ?thesis
      using message_refines [OF attempt(2,3) step.IH] inst by (auto simp: history_def)
  next
    case (relay env batchSize r rows' msgs)
    then show ?thesis using represents_relay [OF step.IH relay(2)] by (simp add: history_def)
  qed
qed

section \<open>The relay sees a queue that only grows\<close>

text \<open>Every run appends a block of unpublished rows, possibly empty, with ids from the sequence.\<close>

definition appends :: "database \<Rightarrow> database \<Rightarrow> bool" where
  "appends db db' \<longleftrightarrow> db_seq db \<le> db_seq db' \<and>
     (\<exists>new. t_outbox (db_tabs db') = t_outbox (db_tabs db) @ new \<and> sorted_wrt (<) (map o_id new) \<and>
        (\<forall>o' \<in> set new. db_seq db \<le> o_id o' \<and> o_id o' < db_seq db' \<and> o_published o' = None))"

lemma appends_none: "db_tabs db' = db_tabs db \<Longrightarrow> db_seq db \<le> db_seq db' \<Longrightarrow> appends db db'"
  by (simp add: appends_def)

lemma transaction_appends:
  assumes "transaction env msg res tenant db = (r, db')" "quiet env"
  shows "appends db db'"
proof -
  obtain r1 s where d: "deliver tenant (delivery_of msg) (event_of msg) res (env\<lparr>env_tenant := tenant\<rparr>) (tx_begin env db) = (r1, s)"
    by fastforce
  have kept: "tx_others s = db_tabs db"
    using others_deliver d assms(2) unfolding keeps_others_def
    by (metis quiet_tenant snd_conv tx_begin_def tx_state.select_convs(2))
  have seq: "db_seq db \<le> tx_seq s"
    using sequence.deliver_run [OF d] assms(2) by (simp add: tx_begin_def)
  have "appends db (db\<lparr>db_tabs := tx_tabs s, db_seq := tx_seq s\<rparr>)" if "r1 = Inr ()"
  proof -
    have "stages_events (env\<lparr>env_tenant := tenant\<rparr>) tenant (canonical_events res) (tx_begin env db) s"
      using emits_deliver d assms(2) that unfolding emits_def by (metis quiet_tenant)
    then obtain new where new: "t_outbox (tx_tabs s) = t_outbox (db_tabs db) @ new"
      "list_all2 (staged tenant) (canonical_events res) new" "fresh_rows env (db_seq db) (tx_seq s) new"
      by (auto simp: stages_events_def fresh_rows_def tx_begin_def)
    have fresh: "o_published o' = None" if "staged tenant e o'" for e o' using that by (cases e) simp
    have "list_all2 (\<lambda>_ o'. o_published o' = None) (canonical_events res) new"
      using new(2) fresh by (rule list_all2_mono)
    then have "\<forall>o' \<in> set new. o_published o' = None" by (auto simp: list_all2_conv_all_nth in_set_conv_nth)
    with new show ?thesis by (auto simp: appends_def fresh_rows_def)
  qed
  with assms(1) d kept seq show ?thesis
    by (cases r1) (auto simp: WithTenant_def intro: appends_none split: if_splits commit_outcome.splits)
qed

lemma run_appends:
  assumes "run env fault msg db = (r, db')" "quiet env"
  shows "appends db db'"
  using assms(1)
proof (cases rule: run_cases)
  case none
  then show ?thesis by (simp add: appends_none)
next
  case (tx res tenant r')
  with assms(2) show ?thesis using transaction_appends by blast
qed

definition relay_view :: "platform \<Rightarrow> relay_state" where
  "relay_view s = \<lparr>rl_rows = t_outbox (db_tabs (pf_db s)), rl_seq = db_seq (pf_db s), rl_log = pf_log s\<rparr>"

lemma platform_relay_step: "platform_step s s' \<Longrightarrow> relay_step (relay_view s) (relay_view s')"
proof (erule platform_step.cases, goal_cases)
  case (1 env fault msg s1 r db')
  from run_appends [OF 1(3,4)] obtain new where new: "db_seq (pf_db s) \<le> db_seq db'"
    "t_outbox (db_tabs db') = t_outbox (db_tabs (pf_db s)) @ new" "sorted_wrt (<) (map o_id new)"
    "\<forall>o' \<in> set new. db_seq (pf_db s) \<le> o_id o' \<and> o_id o' < db_seq db' \<and> o_published o' = None"
    using 1(1) by (auto simp: appends_def)
  have "relay_view s' = (relay_view s)\<lparr>rl_rows := rl_rows (relay_view s) @ new, rl_seq := db_seq db'\<rparr>"
    using new(2) 1(1,2) by (simp add: relay_view_def)
  then show ?case using relay_step.stage [of "relay_view s" "db_seq db'" new] new by (simp add: relay_view_def)
next
  case (2 env batchSize s1 r rows' msgs)
  then show ?case using relay_step.drain [of env batchSize "relay_view s" r rows' msgs] by (simp add: relay_view_def)
qed

lemma platform_relay: "platform_reach s \<Longrightarrow> relay_reach (relay_view s)"
proof (induction rule: platform_reach.induct)
  case (start db)
  then show ?case using relay_reach.start by (simp add: relay_view_def no_tables_def)
next
  case (step s s')
  then show ?case using relay_reach.step platform_relay_step by blast
qed

section \<open>First copies\<close>

text \<open>The log without the copies that follow a first one.\<close>

definition first_copies :: "(int \<times> kmessage) list \<Rightarrow> (int \<times> kmessage) list" where
  "first_copies log = foldl (\<lambda>acc im. if fst im \<in> fst ` set acc then acc else acc @ [im]) [] log"

lemma first_copies_snoc:
  "first_copies (log @ [im]) = (if fst im \<in> fst ` set (first_copies log) then first_copies log else first_copies log @ [im])"
  by (simp add: first_copies_def)

lemma first_copies_set: "fst ` set (first_copies log) = fst ` set log" "set (first_copies log) \<subseteq> set log"
proof (induction log rule: rev_induct)
  case (snoc im log)
  { case 1 show ?case using snoc by (auto simp: first_copies_snoc) }
  { case 2 show ?case using snoc by (auto simp: first_copies_snoc) }
qed (simp_all add: first_copies_def)

text \<open>In an ordered log the first copies go through the ids from the front.\<close>

lemma first_copies_prefix:
  assumes "sorted_wrt (<) ids" "fst ` set log \<subseteq> set ids"
    "\<And>j i. j < length log \<Longrightarrow> i \<in> set ids \<Longrightarrow> i < fst (log ! j) \<Longrightarrow> \<exists>j' < j. fst (log ! j') = (i :: int)"
  shows "map fst (first_copies log) = take (length (first_copies log)) ids"
  using assms(2,3)
proof (induction log rule: rev_induct)
  case Nil
  then show ?case by (simp add: first_copies_def)
next
  case (snoc im log)
  let ?n = "length (first_copies log)"
  have IH: "map fst (first_copies log) = take ?n ids"
  proof (rule snoc.IH)
    show "fst ` set log \<subseteq> set ids" using snoc.prems(1) by auto
    fix j i assume "j < length log" "i \<in> set ids" "i < fst (log ! j)"
    with snoc.prems(2) [of j i] show "\<exists>j' < j. fst (log ! j') = i" by (auto simp: nth_append)
  qed
  show ?case
  proof (cases "fst im \<in> fst ` set (first_copies log)")
    case True
    with IH show ?thesis by (simp add: first_copies_snoc)
  next
    case False
    have seen: "set (take ?n ids) = fst ` set log" using IH first_copies_set(1) by (metis list.set_map)
    from snoc.prems(1) obtain p where p: "p < length ids" "ids ! p = fst im" by (auto simp: in_set_conv_nth)
    have "?n \<le> p"
    proof (rule ccontr)
      assume "\<not> ?n \<le> p"
      then have "ids ! p \<in> set (take ?n ids)" using p(1) by (auto simp: in_set_conv_nth intro!: exI [of _ p])
      with seen p(2) False first_copies_set(1) show False by simp
    qed
    moreover have "p \<le> ?n"
    proof (rule ccontr)
      assume "\<not> p \<le> ?n"
      then have less: "?n < p" by simp
      with p assms(1) have "ids ! ?n < fst im" using sorted_wrt_nth_less by fastforce
      with snoc.prems(2) [of "length log" "ids ! ?n"] p(1) less obtain j' where "j' < length log" "fst (log ! j') = ids ! ?n"
        by (auto simp: nth_append)
      then have "ids ! ?n \<in> fst ` set log" by (metis imageI nth_mem)
      then have "ids ! ?n \<in> set (take ?n ids)" using seen by simp
      then obtain q where "q < ?n" "ids ! q = ids ! ?n" by (auto simp: in_set_conv_nth)
      with assms(1) p(1) less show False using sorted_wrt_nth_less [of "(<)" ids q ?n] by simp
    qed
    ultimately have "p = ?n" by simp
    with p IH False show ?thesis by (simp add: first_copies_snoc take_Suc_conv_app_nth)
  qed
qed

lemma distinct_subset_length:
  assumes "set xs \<subseteq> set ys" "distinct xs"
  shows "length xs \<le> length ys"
  using card_mono [OF List.finite_set assms(1)] card_length [of ys] distinct_card [OF assms(2)] by linarith

section \<open>Properties\<close>

text \<open>A message that publishes an event of a tenant, under some event id.\<close>

definition announces :: "string \<times> event_spec \<Rightarrow> kmessage \<Rightarrow> bool" where
  "announces e m \<longleftrightarrow>
     (case e of (tenant, ty, sid, occ, p) \<Rightarrow>
        km_topic m = TopicCanonical \<and> km_key m = tenant \<and>
        (\<exists>uuid. marshal_event (event_new uuid tenant ty sid occ p) = Some (km_value m)))"

lemma carries_announces:
  assumes "holds_event e o'" "carries im o'"
  shows "announces e (snd im)"
proof -
  obtain tenant ty sid occ p where "e = (tenant, ty, sid, occ, p)" by (cases e) auto
  with assms show ?thesis by (auto simp: holds_event_def carries_def announces_def)
qed

lemma first_copies_announce:
  assumes "platform_reach s"
  shows "list_all2 announces (take (length (first_copies (pf_log s))) (lg_events (history s))) (map snd (first_copies (pf_log s)))"
    "length (first_copies (pf_log s)) \<le> length (lg_events (history s))"
    "fst ` set (pf_log s) = set (take (length (first_copies (pf_log s))) (map o_id (t_outbox (db_tabs (pf_db s)))))"
proof -
  let ?rows = "t_outbox (db_tabs (pf_db s))" and ?first = "first_copies (pf_log s)" and ?es = "lg_events (history s)"
  have inv: "relay_inv (relay_view s)" using relay_reach_inv [OF platform_relay [OF assms]] .
  then have sorted: "sorted_wrt (<) (map o_id ?rows)" by (simp add: relay_inv_def ids_ordered_def relay_view_def)
  have sent: "\<exists>o' \<in> set ?rows. carries im o'" if "im \<in> set (pf_log s)" for im
    using inv that by (simp add: relay_inv_def sent_rows_def relay_view_def)
  have order: "\<exists>i < j. fst (pf_log s ! i) = o_id o'" if "j < length (pf_log s)" "o' \<in> set ?rows" "o_id o' < fst (pf_log s ! j)" for j o'
    using inv that by (simp add: relay_inv_def in_order_def relay_view_def)
  have ids: "map fst ?first = take (length ?first) (map o_id ?rows)"
  proof (rule first_copies_prefix [OF sorted])
    show "fst ` set (pf_log s) \<subseteq> set (map o_id ?rows)"
    proof
      fix i assume "i \<in> fst ` set (pf_log s)"
      then obtain im where "im \<in> set (pf_log s)" "i = fst im" by blast
      with sent show "i \<in> set (map o_id ?rows)" by (fastforce simp: carries_def)
    qed
  qed (use order in auto)
  then show "fst ` set (pf_log s) = set (take (length ?first) (map o_id ?rows))"
    using first_copies_set(1) [of "pf_log s"] by (metis list.set_map)
  have holds: "list_all2 holds_event ?es ?rows" using representsD(7) [OF platform_represents [OF assms]] .
  have "length ?first \<le> length ?rows" using arg_cong [OF ids, of length] by simp
  with holds show len: "length ?first \<le> length ?es" by (simp add: list_all2_lengthD)
  show "list_all2 announces (take (length ?first) ?es) (map snd ?first)"
  proof (rule list_all2_all_nthI)
    show "length (take (length ?first) ?es) = length (map snd ?first)" using len by simp
    fix i assume "i < length (take (length ?first) ?es)"
    then have i: "i < length ?first" "i < length ?rows" using len list_all2_lengthD [OF holds] by simp_all
    have im: "?first ! i \<in> set (pf_log s)" using first_copies_set(2) i(1) by (meson nth_mem subsetD)
    then obtain o' where o': "o' \<in> set ?rows" "carries (?first ! i) o'" using sent by blast
    have "map fst ?first ! i = take (length ?first) (map o_id ?rows) ! i" by (simp only: ids)
    with i have "fst (?first ! i) = o_id (?rows ! i)" by simp
    with o'(2) have "o_id o' = o_id (?rows ! i)" by (simp add: carries_def)
    moreover have "inj_on o_id (set ?rows)" using sorted by (simp add: strict_sorted_iff distinct_map)
    ultimately have "o' = ?rows ! i" using o'(1) nth_mem [OF i(2)] by (simp add: inj_on_def)
    moreover have "holds_event (?es ! i) (?rows ! i)" using holds i(2) by (simp add: list_all2_conv_all_nth)
    ultimately show "announces (take (length ?first) ?es ! i) (map snd ?first ! i)"
      using carries_announces o'(2) i by simp
  qed
qed

text \<open>
  C1. The canonical topic: in every state the write side can reach, through any faults, retries
  and redeliveries of the normalizer and the relay, the tables represent the ledger of the
  messages that took effect, and the first copies in the canonical topic are the events of that
  ledger, in their order and without a gap, each with its exact bytes, topic and tenant key;
  once no row is pending, all of them.
\<close>

theorem platform_exact:
  assumes "platform_reach s"
  shows "represents (db_tabs (pf_db s)) (history s) \<and>
    list_all2 announces (take (length (first_copies (pf_log s))) (lg_events (history s))) (map snd (first_copies (pf_log s))) \<and>
    (pending (t_outbox (db_tabs (pf_db s))) = [] \<longrightarrow> length (first_copies (pf_log s)) = length (lg_events (history s)))"
proof (intro conjI impI)
  let ?rows = "t_outbox (db_tabs (pf_db s))" and ?first = "first_copies (pf_log s)"
  show rep: "represents (db_tabs (pf_db s)) (history s)" using platform_represents [OF assms] .
  show "list_all2 announces (take (length ?first) (lg_events (history s))) (map snd ?first)"
    using first_copies_announce(1) [OF assms] .
  assume "pending ?rows = []"
  then have "o_published o' \<noteq> None" if "o' \<in> set ?rows" for o'
    using that by (auto simp: pending_def filter_empty_conv)
  then have "set (map o_id ?rows) \<subseteq> fst ` set (pf_log s)"
    using relay_reach_inv [OF platform_relay [OF assms]] by (fastforce simp: relay_inv_def marked_sent_def relay_view_def)
  then have "set (map o_id ?rows) \<subseteq> set (take (length ?first) (map o_id ?rows))"
    unfolding first_copies_announce(3) [OF assms] .
  moreover have "distinct (map o_id ?rows)"
    using relay_reach_inv [OF platform_relay [OF assms]]
    by (simp add: relay_inv_def ids_ordered_def relay_view_def strict_sorted_iff)
  ultimately have "length (map o_id ?rows) \<le> length (take (length ?first) (map o_id ?rows))"
    by (rule distinct_subset_length)
  then have "length ?rows \<le> length ?first" by simp
  with first_copies_announce(2) [OF assms] representsD(7) [OF rep]
  show "length ?first = length (lg_events (history s))" by (simp add: list_all2_lengthD)
qed

text \<open>
  C4. Replay rebuilds: take two systems that started empty and have the same installations, say
  the one that ran and one fed from the archive, and let the messages that took effect agree up
  to redeliveries: with every repetition of a message that has a delivery id left out (one
  without a delivery id counts each time), both saw the same messages in the same order. Then,
  whatever ids, clocks, faults and redeliveries each saw, the tables of both represent the same
  ledger, and both have the same events to announce.
\<close>

theorem replay_rebuilds:
  assumes "platform_reach s" "platform_reach s'"
    "db_installations (pf_db s') = db_installations (pf_db s)" "firsts (pf_done s') = firsts (pf_done s)"
  shows "history s' = history s \<and> represents (db_tabs (pf_db s)) (history s) \<and> represents (db_tabs (pf_db s')) (history s)"
proof -
  have "history s' = history s"
    unfolding history_def assms(3) using ledger_firsts [of _ "pf_done s"] ledger_firsts [of _ "pf_done s'"] assms(4) by simp
  with platform_represents [OF assms(1)] platform_represents [OF assms(2)] show ?thesis by auto
qed

section \<open>A sample\<close>

text \<open>The sample pull request, delivered twice to one system and once to the other, and relayed.\<close>

abbreviation pr_msg :: message where
  "pr_msg \<equiv> sample_msg ''pull_request'' sample_pr"

lemma reach_processed:
  obtains db' where "platform_reach \<lparr>pf_db = db', pf_log = [], pf_done = [pr_msg]\<rparr>" "db_installations db' = [42424242 \<mapsto> acme]"
    "length (t_outbox (db_tabs db')) = 1" "pr_run never = (Inr (), db')"
proof (rule pr_run_never)
  fix db' assume r: "pr_run never = (Inr (), db')" "length (t_outbox (db_tabs db')) = 1"
  let ?s = "\<lparr>pf_db = sample_db, pf_log = [], pf_done = []\<rparr>"
  have "platform_reach ?s" by (rule platform_reach.start) (simp add: sample_db_def)
  moreover have "platform_step ?s (?s\<lparr>pf_db := db', pf_done := pf_done ?s @ [pr_msg]\<rparr>)"
    using platform_step.attempt [of "sample_env never" False pr_msg ?s "Inr ()" db'] r(1) by simp
  ultimately have "platform_reach (?s\<lparr>pf_db := db', pf_done := pf_done ?s @ [pr_msg]\<rparr>)" by (rule platform_reach.step)
  then have reach: "platform_reach \<lparr>pf_db = db', pf_log = [], pf_done = [pr_msg]\<rparr>" by simp
  have "db_installations db' = db_installations sample_db"
    using run_installations [of "sample_env never" False pr_msg sample_db] r(1) by simp
  then have inst: "db_installations db' = [42424242 \<mapsto> acme]" by (simp add: sample_db_def)
  from reach inst r(2,1) show thesis by (rule that)
qed

text \<open>A recorded delivery is absorbed as a success when nothing fails.\<close>

lemma redelivery_ok:
  assumes "target msg db = Some (res, tenant)" "delivery_of msg \<noteq> []" "delivered tenant (delivery_of msg) (db_tabs db)"
    "quiet env" "\<forall>n. \<not> env_fails env n" "pg_text (delivery_of msg)" "pg_text (event_of msg)"
  shows "fst (process Normalize env False msg db) = Inr ()"
proof -
  let ?d = "\<lparr>d_tenant = tenant, d_delivery = delivery_of msg, d_event = event_of msg\<rparr>"
  let ?env = "env\<lparr>env_tenant := tenant\<rparr>"
  have q: "quiet ?env" using assms(4) by simp
  have "delivery_key ?d \<in> delivery_key ` set (t_deliveries (db_tabs db))"
    using assms(3) unfolding delivered_def find_row_None by (simp add: delivery_key_def)
  then have st: "stmt_delivery tenant ?d (tx_tabs (tx_begin env db)) = Some (0, db_tabs db)"
    using assms(6,7) by (simp add: stmt_delivery_def insert_new_def tx_begin_def)
  have "fst (markDelivery tenant (delivery_of msg) (event_of msg) ?env (tx_begin env db)) = Inr False"
    using assms(2,5) st by (simp add: markDelivery_def tx_exec_quiet [OF q] Let_def eff_defs)
  then obtain s where "markDelivery tenant (delivery_of msg) (event_of msg) ?env (tx_begin env db) = (Inr False, s)"
    by (metis prod.collapse)
  then have "deliver tenant (delivery_of msg) (event_of msg) res ?env (tx_begin env db) = (Inl Duplicate, s)"
    by (simp add: deliver_def eff_defs)
  with assms(5) show ?thesis unfolding run_target_Some [OF assms(1)] by (simp add: WithTenant_def)
qed

lemma reach_relayed:
  assumes "platform_reach s"
  obtains rows' msgs where "platform_reach (s\<lparr>pf_db := (pf_db s)\<lparr>db_tabs := (db_tabs (pf_db s))\<lparr>t_outbox := rows'\<rparr>\<rparr>, pf_log := pf_log s @ msgs\<rparr>)"
    "pending rows' = drop 10 (pending (t_outbox (db_tabs (pf_db s))))" "length rows' = length (t_outbox (db_tabs (pf_db s)))"
proof -
  have sorted: "sorted_wrt (<) (map o_id (t_outbox (db_tabs (pf_db s))))"
    using relay_reach_inv [OF platform_relay [OF assms]] by (simp add: relay_inv_def ids_ordered_def relay_view_def)
  from healthy_pass [OF sample_healthy _ sorted, of 10] obtain r rows' msgs where
    d: "drainBatch (sample_drain always_ok) 10 (t_outbox (db_tabs (pf_db s))) = (r, rows', msgs)"
    "pending rows' = drop 10 (pending (t_outbox (db_tabs (pf_db s))))" "map o_id rows' = map o_id (t_outbox (db_tabs (pf_db s)))" by auto
  have "platform_step s (s\<lparr>pf_db := (pf_db s)\<lparr>db_tabs := (db_tabs (pf_db s))\<lparr>t_outbox := rows'\<rparr>\<rparr>, pf_log := pf_log s @ msgs\<rparr>)"
    by (rule platform_step.relay [OF d(1)]) (simp add: sample_drain_def)
  with assms have "platform_reach (s\<lparr>pf_db := (pf_db s)\<lparr>db_tabs := (db_tabs (pf_db s))\<lparr>t_outbox := rows'\<rparr>\<rparr>, pf_log := pf_log s @ msgs\<rparr>)"
    by (rule platform_reach.step)
  moreover have "length rows' = length (t_outbox (db_tabs (pf_db s)))" using arg_cong [OF d(3), of length] by simp
  ultimately show thesis using that d(2) by blast
qed

theorem platform_exact_witness:
  "\<exists>s. platform_reach s \<and> length (first_copies (pf_log s)) = 1 \<and>
     list_all2 announces (lg_events (history s)) (map snd (first_copies (pf_log s)))"
proof (rule reach_processed)
  fix db' assume r: "platform_reach \<lparr>pf_db = db', pf_log = [], pf_done = [pr_msg]\<rparr>" "length (t_outbox (db_tabs db')) = 1"
  obtain s rows' where s: "platform_reach s" "t_outbox (db_tabs (pf_db s)) = rows'"
    "pending rows' = drop 10 (pending (t_outbox (db_tabs db')))" "length rows' = 1"
  proof (rule reach_relayed [OF r(1)], goal_cases)
    case (1 rows' msgs)
    from 1(2) show thesis by (rule 1(1)) (use 1(3,4) r(2) in simp_all)
  qed
  have "length (pending (t_outbox (db_tabs db'))) \<le> 1" using r(2) length_filter_le unfolding pending_def by metis
  with s have p: "pending (t_outbox (db_tabs (pf_db s))) = []" by simp
  note exact = platform_exact [OF s(1)]
  have rep: "represents (db_tabs (pf_db s)) (history s)" using exact by blast
  have len: "length (first_copies (pf_log s)) = length (lg_events (history s))" using exact p by blast
  moreover have "length (lg_events (history s)) = 1"
    using representsD(7) [OF rep] s(2,4) by (simp add: list_all2_lengthD)
  moreover have "list_all2 announces (lg_events (history s)) (map snd (first_copies (pf_log s)))"
    using exact len by simp
  ultimately show ?thesis using s(1) by auto
qed

theorem replay_rebuilds_witness:
  "\<exists>s s'. platform_reach s \<and> platform_reach s' \<and> pf_done s = [pr_msg] \<and> pf_done s' = [pr_msg, pr_msg] \<and>
     represents (db_tabs (pf_db s')) (history s) \<and> t_outbox (db_tabs (pf_db s)) \<noteq> []"
proof (rule reach_processed)
  fix db' assume r: "platform_reach \<lparr>pf_db = db', pf_log = [], pf_done = [pr_msg]\<rparr>"
    "db_installations db' = [42424242 \<mapsto> acme]" "length (t_outbox (db_tabs db')) = 1" "pr_run never = (Inr (), db')"
  let ?s = "\<lparr>pf_db = db', pf_log = [], pf_done = [pr_msg]\<rparr>"
  obtain db2 where p2: "process Normalize (sample_env never) False pr_msg db' = (Inr (), db2)"
  proof -
    obtain res where t0: "target pr_msg sample_db = Some (res, acme)"
      by (rule sample_target [of sample_db]) (simp_all add: sample_db_def)
    then have t: "target pr_msg db' = Some (res, acme)"
      using target_after [of pr_msg "sample_env never" False pr_msg sample_db] r(4) by simp
    have "delivered acme (delivery_of pr_msg) (db_tabs db')"
      by (rule run_records [OF r(4) _ sample_quiet(1) t0]) simp
    moreover have "pg_text (delivery_of pr_msg)" "pg_text (event_of pr_msg)" unfolding sample_delivery by code_simp+
    ultimately have "fst (process Normalize (sample_env never) False pr_msg db') = Inr ()"
      by (intro redelivery_ok [OF t]) (simp_all add: sample_env_def never_def quiet_def)
    then show thesis using that by (metis prod.collapse)
  qed
  let ?s' = "?s\<lparr>pf_db := db2, pf_done := pf_done ?s @ [pr_msg]\<rparr>"
  have "platform_step ?s ?s'"
    using platform_step.attempt [of "sample_env never" False pr_msg ?s "Inr ()" db2] p2 by simp
  with r(1) have "platform_reach ?s'" by (rule platform_reach.step)
  moreover have "db_installations db2 = db_installations db'"
    using run_installations [of "sample_env never" False pr_msg db'] p2 by simp
  ultimately obtain s' where s': "platform_reach s'" "db_installations (pf_db s') = db_installations db'" "pf_done s' = [pr_msg, pr_msg]"
    by auto
  have "firsts (pf_done s') = firsts (pf_done ?s)" using s'(3) by (simp add: firsts_def absorbed_def)
  from replay_rebuilds [OF r(1) s'(1) _ this] s'(2) have "represents (db_tabs (pf_db s')) (history ?s)" by simp
  with r s' show ?thesis by (intro exI [of _ ?s] exI [of _ s']) auto
qed

end
