(* ===== verification/Capability.thy ===== *)
theory Capability
  imports ApiClient Tenancy
begin

text \<open>
  Recording what a repository can do (libs/go/githubapp/capability.go): one upsert under the
  tenant's scope.
\<close>

definition capability_of :: "string \<Rightarrow> string \<Rightarrow> capabilities \<Rightarrow> gtime \<Rightarrow> capability_row" where
  "capability_of tenant repo caps now =
     \<lparr>y_tenant = tenant, y_repo = repo, y_deployments = cap_Deployments caps, y_releases = cap_Releases caps,
      y_detected = pg_time now\<rparr>"

definition PersistRepoCapability :: "tx_env \<Rightarrow> string \<Rightarrow> string \<Rightarrow> capabilities \<Rightarrow> database \<Rightarrow> (tx_error + unit) \<times> database" where
  "PersistRepoCapability env tenant repo caps =
     WithTenant env tenant (eff_bind (eff_ask env_now) (\<lambda>now.
       tx_exec (\<lambda>app. stmt_capability app (capability_of tenant repo caps now))))"

abbreviation capability :: "string \<Rightarrow> string \<Rightarrow> database \<Rightarrow> capability_row option" where
  "capability tenant repo db \<equiv> find_row capability_key (tenant, repo) (t_capabilities (db_tabs db))"

lemma capability_merge: "capability_key old = capability_key new \<Longrightarrow> capability_update old new = new"
  by (cases old; cases new) (simp add: capability_key_def capability_update_def)

lemma upsert_capability:
  "find_row capability_key k (upsert capability_key capability_update new rows) =
     (if k = capability_key new then Some new else find_row capability_key k rows)"
proof (cases "k = capability_key new")
  case True
  have "capability_update old new = new" if "find_row capability_key (capability_key new) rows = Some old" for old
    using find_row_Some [OF that] capability_merge by blast
  with True show ?thesis by (simp add: capabilities.upsert_find split: option.split)
qed (simp add: capabilities.upsert_find)

lemma PersistRepoCapability_ok:
  assumes "PersistRepoCapability env tenant repo caps db = (Inr (), db')" "quiet env"
  shows "db_tabs db' = (db_tabs db)\<lparr>t_capabilities :=
    upsert capability_key capability_update (capability_of tenant repo caps (env_now env)) (t_capabilities (db_tabs db))\<rparr>"
proof -
  from assms(1) [unfolded PersistRepoCapability_def] obtain s where
    "eff_bind (eff_ask env_now) (\<lambda>now. tx_exec (\<lambda>app. stmt_capability app (capability_of tenant repo caps now)))
       (env\<lparr>env_tenant := tenant\<rparr>) (tx_begin env db) = (Inr (), s)" "db_tabs db' = tx_tabs s"
    by (rule WithTenant_ok)
  with assms(2) show ?thesis
    by (auto simp: tx_defs tx_exec_def tx_step_def quiet_def stmt_capability_def Let_def tx_begin_def split: if_splits)
qed

text \<open>
  Detected capabilities are recorded once per repository: after a success the repository's
  row holds the flags and the time of this detection, whether or not it had one, every other
  repository and tenant keeps its row, no other table changes, and the rows stay distinct; so a
  second detection updates the flags and inserts nothing.
\<close>

theorem capability_recorded:
  assumes "PersistRepoCapability env tenant repo caps db = (Inr (), db')" "quiet env"
  shows "capability tenant repo db' = Some (capability_of tenant repo caps (env_now env)) \<and>
    (\<forall>tenant' repo'. (tenant', repo') \<noteq> (tenant, repo) \<longrightarrow> capability tenant' repo' db' = capability tenant' repo' db) \<and>
    (db_tabs db')\<lparr>t_capabilities := []\<rparr> = (db_tabs db)\<lparr>t_capabilities := []\<rparr> \<and>
    (distinct (map capability_key (t_capabilities (db_tabs db))) \<longrightarrow>
       distinct (map capability_key (t_capabilities (db_tabs db'))))"
proof -
  have k: "capability_key (capability_of tenant repo caps now) = (tenant, repo)" for now
    by (simp add: capability_key_def capability_of_def)
  show ?thesis
    unfolding PersistRepoCapability_ok [OF assms] by (simp add: upsert_capability k capabilities.upsert_distinct)
qed

section \<open>Sample\<close>

definition capability_env :: tx_env where
  "capability_env =
     \<lparr>env_tenant = [], env_now = zero_time, env_fails = (\<lambda>_. False), env_rival = (\<lambda>_ t. t), env_uuid = (\<lambda>_. []),
      env_commit = CommitOk, env_traceid = [], env_traceparent = []\<rparr>"

definition capability_db :: database where
  "capability_db = \<lparr>db_tabs = \<lparr>t_items = [], t_reviews = [], t_checks = [], t_contributors = [], t_links = [],
     t_deliveries = [], t_outbox = [], t_capabilities =
       [\<lparr>y_tenant = ''a'', y_repo = ''o/r'', y_deployments = False, y_releases = True, y_detected = zero_time\<rparr>]\<rparr>,
     db_seq = 1, db_installations = Map.empty\<rparr>"

theorem capability_recorded_witness:
  "\<exists>db'. PersistRepoCapability capability_env ''a'' ''o/r'' \<lparr>cap_Deployments = True, cap_Releases = False\<rparr> capability_db = (Inr (), db') \<and>
     map_option y_deployments (capability ''a'' ''o/r'' db') = Some True"
proof -
  have "is_ok (fst (PersistRepoCapability capability_env ''a'' ''o/r'' \<lparr>cap_Deployments = True, cap_Releases = False\<rparr> capability_db))"
    by code_simp
  then obtain db' where p: "PersistRepoCapability capability_env ''a'' ''o/r'' \<lparr>cap_Deployments = True, cap_Releases = False\<rparr>
      capability_db = (Inr (), db')"
    by (cases "PersistRepoCapability capability_env ''a'' ''o/r'' \<lparr>cap_Deployments = True, cap_Releases = False\<rparr> capability_db";
        cases "fst (PersistRepoCapability capability_env ''a'' ''o/r'' \<lparr>cap_Deployments = True, cap_Releases = False\<rparr> capability_db)")
      (auto simp: is_ok_def)
  have "quiet capability_env" by (simp add: quiet_def capability_env_def)
  from capability_recorded [OF p this] p show ?thesis by (auto simp: capability_of_def)
qed

end
