(* ===== verification/Ghcheck.thy ===== *)
theory Ghcheck
  imports Config EnricherProps
begin

text \<open>
  The smoke tool cmd/ghcheck/main.go: from the flags and the loaded client to the lines it
  prints, the exit code, and the state of the client. The lines are values, not their text.
\<close>

section \<open>The code\<close>

record ghcheck_flags =
  fl_list :: bool
  fl_repos :: bool
  fl_installation :: int
  fl_repo :: string

text \<open>A line on the standard output; the errors, with the step that failed, go to the other.\<close>

datatype ghcheck_line =
    NoInstallations
  | InstallationsTitle
  | InstallationLine int string
  | NoRepositories
  | RepositoriesTitle
  | RepositoryLine string bool
  | TokenLine gtime
  | PermissionsLine headers
  | CapabilitiesLine string bool bool
  | BudgetLine int

datatype ghcheck_error =
    ConfigFailed env_error
  | UsageRepos
  | UsageProbe
  | CallFailed string api_error

record ghcheck_run =
  gr_lines :: "ghcheck_line list"
  gr_error :: "ghcheck_error option"
  gr_exit :: int
  gr_state :: api_state

definition exits :: "ghcheck_line list \<Rightarrow> ghcheck_error \<Rightarrow> int \<Rightarrow> api_state \<Rightarrow> ghcheck_run" where
  "exits ls e code s = \<lparr>gr_lines = ls, gr_error = Some e, gr_exit = code, gr_state = s\<rparr>"

definition returns :: "ghcheck_line list \<Rightarrow> api_state \<Rightarrow> ghcheck_run" where
  "returns ls s = \<lparr>gr_lines = ls, gr_error = None, gr_exit = 0, gr_state = s\<rparr>"

definition ghcheck_list :: "api_env \<Rightarrow> api_state \<Rightarrow> ghcheck_run" where
  "ghcheck_list env s =
     (case ListInstallations env s of
        (Inl e, s) \<Rightarrow> exits [] (CallFailed ''list installations'' e) 1 s
      | (Inr installs, s) \<Rightarrow>
          if length installs = 0 then returns [NoInstallations] s
          else returns (InstallationsTitle # map (\<lambda>i. InstallationLine (ii_ID i) (ii_Account i)) installs) s)"

definition ghcheck_repos :: "int \<Rightarrow> api_env \<Rightarrow> api_state \<Rightarrow> ghcheck_run" where
  "ghcheck_repos installation env s =
     (if installation = 0 then exits [] UsageRepos 2 s
      else case ListInstallationRepos installation env s of
        (Inl e, s) \<Rightarrow> exits [] (CallFailed ''list repositories'' e) 1 s
      | (Inr repos, s) \<Rightarrow>
          if length repos = 0 then returns [NoRepositories] s
          else returns (RepositoriesTitle # map (\<lambda>r. RepositoryLine (ir_FullName r) (ir_Private r)) repos) s)"

definition ghcheck_probe :: "int \<Rightarrow> string \<Rightarrow> api_env \<Rightarrow> api_state \<Rightarrow> ghcheck_run" where
  "ghcheck_probe installation repo env s =
     (if installation = 0 \<or> repo = [] then exits [] UsageProbe 2 s
      else case Token installation env s of
        (Inl e, s) \<Rightarrow> exits [] (CallFailed ''mint token'' e) 1 s
      | (Inr tok, s) \<Rightarrow>
          (let minted = [TokenLine (it_ExpiresAt tok), PermissionsLine (it_Permissions tok)]
           in case DetectRepoCapabilities installation repo env s of
                (Inl e, s) \<Rightarrow> exits minted (CallFailed ''detect capabilities'' e) 1 s
              | (Inr caps, s) \<Rightarrow>
                  (case Remaining REST (budget_for (as_budgets s) installation) of
                     (rem, known) \<Rightarrow>
                       returns (minted @ [CapabilitiesLine repo (cap_Deployments caps) (cap_Releases caps)] @
                                (if known then [BudgetLine rem] else [])) s)))"

text \<open>\<open>main\<close>; without a client there is no state of it.\<close>

definition ghcheck_main :: "ghcheck_flags \<Rightarrow> env_error + api_env \<times> api_state \<Rightarrow> ghcheck_run" where
  "ghcheck_main flags loaded =
     (case loaded of
        Inl e \<Rightarrow> exits [] (ConfigFailed e) 1 NewClient
      | Inr (env, s) \<Rightarrow>
          if fl_list flags then ghcheck_list env s
          else if fl_repos flags then ghcheck_repos (fl_installation flags) env s
          else ghcheck_probe (fl_installation flags) (fl_repo flags) env s)"

section \<open>What it reports\<close>

lemma sends_state: "sends P env m \<Longrightarrow> m env s = (r, s') \<Longrightarrow> \<exists>new. as_sent s' = as_sent s @ new \<and> list_all P new"
  unfolding sends_def by (metis snd_conv)

lemma ghcheck_sent:
  "\<exists>new. as_sent (gr_state (ghcheck_list env s)) = as_sent s @ new \<and> list_all (reading env) new"
  "\<exists>new. as_sent (gr_state (ghcheck_repos i env s)) = as_sent s @ new \<and> list_all (reading env) new"
  "\<exists>new. as_sent (gr_state (ghcheck_probe i repo env s)) = as_sent s @ new \<and> list_all (reading env) new"
proof -
  have list: "sends (reading env) env ListInstallations"
    unfolding ListInstallations_def
    by (intro sends_bind sends_ask sends_request sends_send send_rules)
      (auto simp: reading_def bearer_def Let_def intro: send_rules split: option.split)
  show "\<exists>new. as_sent (gr_state (ghcheck_list env s)) = as_sent s @ new \<and> list_all (reading env) new"
    by (cases "ListInstallations env s"; cases "fst (ListInstallations env s)")
      (auto simp: ghcheck_list_def exits_def returns_def dest: sends_state [OF list])
  have repos: "sends (reading env) env (ListInstallationRepos i)"
    unfolding ListInstallationRepos_def by (intro sends_bind send_rules)
  show "\<exists>new. as_sent (gr_state (ghcheck_repos i env s)) = as_sent s @ new \<and> list_all (reading env) new"
    by (cases "ListInstallationRepos i env s"; cases "fst (ListInstallationRepos i env s)")
      (auto simp: ghcheck_repos_def exits_def returns_def dest: sends_state [OF repos])
  have caps: "sends (reading env) env (DetectRepoCapabilities i repo)"
    unfolding DetectRepoCapabilities_def by (intro sends_bind send_rules)
  show "\<exists>new. as_sent (gr_state (ghcheck_probe i repo env s)) = as_sent s @ new \<and> list_all (reading env) new"
  proof (cases "i = 0 \<or> repo = []")
    case True
    then show ?thesis by (auto simp: ghcheck_probe_def exits_def)
  next
    case False
    obtain r s1 where t: "Token i env s = (r, s1)" by fastforce
    from sends_state [OF sends_Token t] obtain new where new: "as_sent s1 = as_sent s @ new" "list_all (reading env) new" by blast
    show ?thesis
    proof (cases r)
      case (Inl e)
      with False t new show ?thesis by (auto simp: ghcheck_probe_def exits_def)
    next
      case (Inr tok)
      obtain r2 s2 where d: "DetectRepoCapabilities i repo env s1 = (r2, s2)" by fastforce
      from sends_state [OF caps d] obtain new2 where "as_sent s2 = as_sent s1 @ new2" "list_all (reading env) new2" by blast
      with new have "\<exists>new. as_sent s2 = as_sent s @ new \<and> list_all (reading env) new"
        by (intro exI [of _ "new @ new2"]) simp
      with False t Inr d show ?thesis
        by (cases r2) (auto simp: ghcheck_probe_def exits_def returns_def Let_def split: prod.split)
    qed
  qed
qed

text \<open>
  The smoke tool is safe and honest: whatever the flags and whatever GitHub answers, all it
  sends are the reads of the client; it exits with 0 exactly when no step failed, with 2 exactly
  on a usage error, and then it has sent nothing; and a budget it prints is one that was
  observed.
\<close>

theorem ghcheck_honest:
  assumes "ghcheck_main flags (Inr (env, NewClient)) = run"
  shows "list_all (reading env) (as_sent (gr_state run)) \<and>
    (gr_exit run = 0 \<longleftrightarrow> gr_error run = None) \<and>
    (gr_exit run = 2 \<longleftrightarrow> gr_error run \<in> {Some UsageRepos, Some UsageProbe}) \<and>
    (gr_exit run = 2 \<longrightarrow> as_sent (gr_state run) = [] \<and> gr_lines run = []) \<and>
    (\<forall>n. BudgetLine n \<in> set (gr_lines run) \<longrightarrow>
       Remaining REST (budget_for (as_budgets (gr_state run)) (fl_installation flags)) = (n, True))"
proof (intro conjI)
  show "list_all (reading env) (as_sent (gr_state run))"
    using ghcheck_sent(1) [of env NewClient] ghcheck_sent(2) [where env = env and s = NewClient and i = "fl_installation flags"]
      ghcheck_sent(3) [where env = env and s = NewClient and i = "fl_installation flags" and repo = "fl_repo flags"] assms
    by (auto simp: ghcheck_main_def NewClient_def)
  show "gr_exit run = 0 \<longleftrightarrow> gr_error run = None"
    "gr_exit run = 2 \<longleftrightarrow> gr_error run \<in> {Some UsageRepos, Some UsageProbe}"
    "gr_exit run = 2 \<longrightarrow> as_sent (gr_state run) = [] \<and> gr_lines run = []"
    "\<forall>n. BudgetLine n \<in> set (gr_lines run) \<longrightarrow>
       Remaining REST (budget_for (as_budgets (gr_state run)) (fl_installation flags)) = (n, True)"
    using assms
    by (auto simp: ghcheck_main_def ghcheck_list_def ghcheck_repos_def ghcheck_probe_def exits_def returns_def Let_def NewClient_def
        split: if_splits prod.splits sum.splits)
qed

theorem ghcheck_honest_witness:
  "gr_exit (ghcheck_main \<lparr>fl_list = False, fl_repos = True, fl_installation = 0, fl_repo = []\<rparr> (Inr (churn_env, NewClient))) = 2 \<and>
   as_sent (gr_state (ghcheck_main \<lparr>fl_list = False, fl_repos = True, fl_installation = 0, fl_repo = []\<rparr> (Inr (churn_env, NewClient)))) = []"
proof -
  let ?run = "ghcheck_main \<lparr>fl_list = False, fl_repos = True, fl_installation = 0, fl_repo = []\<rparr> (Inr (churn_env, NewClient))"
  have "gr_exit ?run = 2" by (simp add: ghcheck_main_def ghcheck_repos_def exits_def)
  with ghcheck_honest [where flags = "\<lparr>fl_list = False, fl_repos = True, fl_installation = 0, fl_repo = []\<rparr>" and env = churn_env, OF refl]
  show ?thesis by blast
qed

end
