(* ===== verification/RelayLoop.thy ===== *)
theory RelayLoop
  imports OutboxRelay "HOL-Library.While_Combinator" "HOL-Library.Multiset"
begin

text \<open>
  The main loop of the outbox relay (services/outbox-relay/main.go) from one sleep to the next:
  it drains until a pass publishes nothing, while transactions go on to commit rows. A loop that
  never sleeps is the value \<open>None\<close>.
\<close>

section \<open>The code\<close>

text \<open>
  The n-th pass has its own environment, and \<open>arrive n\<close> are the rows that became visible since
  the pass before; rows that become visible while a pass runs are not in its batch, so they are
  the next one's. The state is the table, what was sent, and the last result.
\<close>

record relay_loop =
  lp_rows :: "outbox_row list"
  lp_sent :: "(int \<times> kmessage) list"
  lp_passes :: nat
  lp_last :: "unit + nat"

definition relay_pass :: "(nat \<Rightarrow> outbox_row list) \<Rightarrow> (nat \<Rightarrow> drain_env) \<Rightarrow> int \<Rightarrow> relay_loop \<Rightarrow> relay_loop" where
  "relay_pass arrive env batchSize l =
     (case drainBatch (env (lp_passes l)) batchSize (lp_rows l @ arrive (lp_passes l)) of
        (r, rows', msgs) \<Rightarrow>
          \<lparr>lp_rows = rows', lp_sent = lp_sent l @ msgs, lp_passes = Suc (lp_passes l), lp_last = r\<rparr>)"

definition relay_until_sleep :: "(nat \<Rightarrow> outbox_row list) \<Rightarrow> (nat \<Rightarrow> drain_env) \<Rightarrow> int \<Rightarrow> outbox_row list \<Rightarrow> relay_loop option" where
  "relay_until_sleep arrive env batchSize rows =
     while_option (\<lambda>l. \<not> idles (lp_last l)) (relay_pass arrive env batchSize)
       (relay_pass arrive env batchSize \<lparr>lp_rows = rows, lp_sent = [], lp_passes = 0, lp_last = Inr 0\<rparr>)"

lemma relay_passE:
  obtains r rows' msgs where
    "drainBatch (env (lp_passes l)) batchSize (lp_rows l @ arrive (lp_passes l)) = (r, rows', msgs)"
    "relay_pass arrive env batchSize l =
       \<lparr>lp_rows = rows', lp_sent = lp_sent l @ msgs, lp_passes = Suc (lp_passes l), lp_last = r\<rparr>"
proof -
  obtain r rows' msgs where d: "drainBatch (env (lp_passes l)) batchSize (lp_rows l @ arrive (lp_passes l)) = (r, rows', msgs)"
    by (metis surj_pair)
  then show thesis by (rule that) (simp add: relay_pass_def d)
qed

section \<open>It sleeps when nothing arrives\<close>

text \<open>
  A pass leaves no more rows pending, and one that published something left fewer: every row it
  counted was pending and is marked now.
\<close>

lemma drain_pending_le:
  assumes "drainBatch env batchSize rows = (r, rows', msgs)"
  shows "length (pending rows') \<le> length (pending rows)"
  using assms by (cases rule: drain_shape) (simp_all add: pending_mark_ids)

lemma drain_counts:
  assumes "drainBatch env batchSize rows = (Inr n, rows', msgs)" "n \<noteq> 0"
  shows "length (pending rows') < length (pending rows)"
  using assms(1)
proof (cases rule: drain_shape)
  case (1 batch k l)
  let ?ids = "map o_id (take k batch)"
  have n: "n = length (take k batch)" using 1(6) by simp
  with assms(2) obtain q qs where q: "take k batch = q # qs" by (cases "take k batch") auto
  then have "q \<in> set batch" by (metis in_set_takeD list.set_intros(1))
  then have "q \<in> set (pending rows)"
    using 1(1) by (auto simp: select_batch_def pending_def split: if_splits dest!: in_set_takeD)
  moreover have "pending rows' = filter (\<lambda>r. o_id r \<notin> set ?ids) (pending rows)"
    unfolding 1(4) by (rule pending_mark_ids)
  moreover have "o_id q \<in> set ?ids" by (simp add: q)
  ultimately show ?thesis
    using length_filter_less [of q "pending rows" "\<lambda>r. o_id r \<notin> set ?ids"] by simp
qed simp

text \<open>So a loop goes on only as long as rows may still arrive, or fewer rows are pending, or to its last pass.\<close>

lemma relay_pass_decreases:
  assumes "\<forall>n \<ge> N. arrive n = []" "\<not> idles (lp_last l)"
  shows "(relay_pass arrive env batchSize l, l) \<in>
    measures [\<lambda>l. N - lp_passes l, \<lambda>l. length (pending (lp_rows l)), \<lambda>l. if idles (lp_last l) then 0 else 1]"
proof (rule relay_passE [of env l batchSize arrive])
  fix r rows' msgs assume d: "drainBatch (env (lp_passes l)) batchSize (lp_rows l @ arrive (lp_passes l)) = (r, rows', msgs)"
    and l': "relay_pass arrive env batchSize l =
       \<lparr>lp_rows = rows', lp_sent = lp_sent l @ msgs, lp_passes = Suc (lp_passes l), lp_last = r\<rparr>"
  show ?thesis
  proof (cases "lp_passes l < N")
    case True
    then have "N - Suc (lp_passes l) < N - lp_passes l" by simp
    then show ?thesis by (simp add: l')
  next
    case False
    with assms(1) d have d: "drainBatch (env (lp_passes l)) batchSize (lp_rows l) = (r, rows', msgs)" by simp
    have "idles r \<or> (\<exists>n. r = Inr n \<and> n \<noteq> 0)" by (cases r) (auto simp: idles_def)
    with drain_pending_le [OF d] drain_counts d have "length (pending rows') < length (pending (lp_rows l)) \<or>
        length (pending rows') = length (pending (lp_rows l)) \<and> idles r" by fastforce
    with False assms(2) show ?thesis by (auto simp: l')
  qed
qed

lemma relay_loop_stops:
  assumes "\<forall>n \<ge> N. arrive n = []"
  shows "\<exists>l. relay_until_sleep arrive env batchSize rows = Some l"
  unfolding relay_until_sleep_def
proof (rule wf_while_option_Some [where P = "\<lambda>_. True"])
  let ?m = "measures [\<lambda>l. N - lp_passes l, \<lambda>l. length (pending (lp_rows l)), \<lambda>l. if idles (lp_last l) then 0 else 1]"
  have "{(t, s). (True \<and> \<not> idles (lp_last s)) \<and> t = relay_pass arrive env batchSize s} \<subseteq> ?m"
    using relay_pass_decreases [OF assms] by auto
  then show "wf {(t, s). (True \<and> \<not> idles (lp_last s)) \<and> t = relay_pass arrive env batchSize s}"
    by (rule wf_subset [OF wf_measures])
qed simp_all

section \<open>A loop in which nothing fails\<close>

lemma healthy_select:
  assumes "healthy env" "0 \<le> batchSize"
  shows "select_batch (dr_locked env) batchSize rows = Some (take (nat batchSize) (sort_key o_id (pending rows)))"
proof -
  have "filter (\<lambda>o'. \<not> dr_locked env (o_id o')) rs = rs" for rs :: "outbox_row list"
    using assms(1) by (simp add: healthy_def)
  then show ?thesis using assms(2) unfolding select_batch_def pending_def by simp
qed

text \<open>A healthy pass, in whatever order the rows became visible.\<close>

lemma healthy_drain:
  assumes "healthy env" "0 \<le> batchSize" "batch = take (nat batchSize) (sort_key o_id (pending rows))"
  shows "drainBatch env batchSize rows =
      (Inr (length batch), mark_published (dr_now env) (map o_id batch) rows, map (sent (dr_inject env)) batch)"
proof -
  have sel: "select_batch (dr_locked env) batchSize rows = Some batch"
    using healthy_select [OF assms(1,2)] assms(3) by simp
  have pub: "publish (dr_inject env) (dr_write env) 0 batch = (map (sent (dr_inject env)) batch, map o_id batch)"
    using publish_all assms(1) by (simp add: healthy_def)
  show ?thesis using assms(1) sel pub by (auto simp: drainBatch_def healthy_def)
qed

lemma drained_ids:
  assumes "distinct (map o_id rows)" "set batch \<subseteq> set (pending rows)" "distinct batch"
  shows "mset (map o_id batch) + mset (map o_id (pending (mark_published t (map o_id batch) rows))) = mset (map o_id (pending rows))"
proof -
  let ?ids = "set (map o_id batch)" and ?ps = "pending rows"
  have inj: "inj_on o_id (set ?ps)" "distinct ?ps"
    using assms(1) by (auto simp: distinct_map pending_def intro: inj_on_subset)
  have "set batch = set (filter (\<lambda>q. o_id q \<in> ?ids) ?ps)" using assms(2) inj(1) by (auto simp: inj_on_def)
  then have "mset batch = mset (filter (\<lambda>q. o_id q \<in> ?ids) ?ps)"
    using set_eq_iff_mset_eq_distinct [of batch "filter (\<lambda>q. o_id q \<in> ?ids) ?ps"] assms(3) inj(2) by simp
  then have "mset batch + mset (pending (mark_published t (map o_id batch) rows)) = mset ?ps"
    unfolding pending_mark_ids by (simp flip: multiset_partition add: mset_filter)
  then show ?thesis by (metis image_mset_union mset_map)
qed

definition seen :: "(nat \<Rightarrow> outbox_row list) \<Rightarrow> outbox_row list \<Rightarrow> nat \<Rightarrow> outbox_row list" where
  "seen arrive rows n = rows @ concat (map arrive [0..<n])"

lemma seen_simps [simp]: "seen arrive rows 0 = rows" "seen arrive rows (Suc n) = seen arrive rows n @ arrive n"
  by (simp_all add: seen_def)

text \<open>Every row the loop has seen was sent once or is pending; with ids in order, they are sent in order.\<close>

definition healthy_inv :: "(nat \<Rightarrow> outbox_row list) \<Rightarrow> outbox_row list \<Rightarrow> relay_loop \<Rightarrow> bool" where
  "healthy_inv arrive rows l \<longleftrightarrow>
     (let all = seen arrive rows (lp_passes l) in
      distinct (map o_id all) \<longrightarrow>
        map o_id (lp_rows l) = map o_id all \<and>
        mset (map fst (lp_sent l)) + mset (map o_id (pending (lp_rows l))) = mset (map o_id (pending all)) \<and>
        (sorted_wrt (<) (map o_id all) \<longrightarrow>
           map fst (lp_sent l) @ map o_id (pending (lp_rows l)) = map o_id (pending all)))"

lemma pending_append [simp]: "pending (rows @ rows') = pending rows @ pending rows'"
  by (simp add: pending_def)

lemma healthy_pass_inv:
  assumes "\<forall>n. healthy (env n)" "0 < batchSize" "healthy_inv arrive rows l"
  shows "healthy_inv arrive rows (relay_pass arrive env batchSize l)"
  unfolding healthy_inv_def Let_def
proof (intro impI)
  let ?n = "lp_passes l" and ?l' = "relay_pass arrive env batchSize l"
  let ?rows = "lp_rows l @ arrive ?n" and ?all = "seen arrive rows ?n"
  define batch where "batch = take (nat batchSize) (sort_key o_id (pending ?rows))"
  have n: "lp_passes ?l' = Suc ?n" by (simp add: relay_pass_def split: prod.split)
  assume "distinct (map o_id (seen arrive rows (lp_passes ?l')))"
  then have dist: "distinct (map o_id (?all @ arrive ?n))" by (simp add: n)
  then have "distinct (map o_id ?all)" by simp
  with assms(3) have inv: "map o_id (lp_rows l) = map o_id ?all"
    "mset (map fst (lp_sent l)) + mset (map o_id (pending (lp_rows l))) = mset (map o_id (pending ?all))"
    "sorted_wrt (<) (map o_id ?all) \<longrightarrow> map fst (lp_sent l) @ map o_id (pending (lp_rows l)) = map o_id (pending ?all)"
    by (simp_all add: healthy_inv_def Let_def)
  have dist': "distinct (map o_id ?rows)" using dist inv(1) by simp
  have d: "?l' = \<lparr>lp_rows = mark_published (dr_now (env ?n)) (map o_id batch) ?rows,
      lp_sent = lp_sent l @ map (sent (dr_inject (env ?n))) batch, lp_passes = Suc ?n, lp_last = Inr (length batch)\<rparr>"
    using healthy_drain [OF assms(1) [rule_format, of ?n] less_imp_le [OF assms(2)] batch_def] by (simp add: relay_pass_def)
  have ids: "fst \<circ> sent inject = o_id" for inject by (simp add: sent_def comp_def)
  have "distinct (pending ?rows)" using dist' by (auto simp: distinct_map pending_def)
  then have batch: "set batch \<subseteq> set (pending ?rows)" "distinct batch"
    by (auto simp: batch_def dest: in_set_takeD)
  have "mset (map o_id batch) + mset (map o_id (pending (lp_rows ?l'))) = mset (map o_id (pending ?rows))"
    unfolding d using drained_ids [OF dist' batch] by simp
  then have "mset (map fst (lp_sent ?l')) + mset (map o_id (pending (lp_rows ?l'))) =
      mset (map fst (lp_sent l)) + (mset (map o_id (pending (lp_rows l))) + mset (map o_id (pending (arrive ?n))))"
    by (simp add: d ids)
  also have "\<dots> = mset (map o_id (pending (?all @ arrive ?n)))"
    using inv(2) by (simp flip: add.assoc)
  finally have "mset (map fst (lp_sent ?l')) + mset (map o_id (pending (lp_rows ?l'))) = mset (map o_id (pending (?all @ arrive ?n)))" .
  moreover have "map fst (lp_sent ?l') @ map o_id (pending (lp_rows ?l')) = map o_id (pending (?all @ arrive ?n))"
    if sorted: "sorted_wrt (<) (map o_id (?all @ arrive ?n))"
  proof -
    have s: "sorted_wrt (<) (map o_id ?rows)" using sorted inv(1) by (simp add: sorted_wrt_append)
    then have b: "batch = take (nat batchSize) (pending ?rows)"
      using sorted_key_id [OF pending_sorted [OF s]] by (simp only: batch_def)
    have "map o_id batch @ map o_id (pending (lp_rows ?l')) = map o_id (pending ?rows)"
      unfolding d b by (simp only: relay_loop.select_convs pending_mark [OF s] append_take_drop_id flip: map_append)
    moreover have "map fst (lp_sent l) @ map o_id (pending (lp_rows l)) = map o_id (pending ?all)"
      using inv(3) sorted by (simp add: sorted_wrt_append)
    ultimately show ?thesis by (simp add: d ids)
  qed
  moreover have "map o_id (lp_rows ?l') = map o_id (?all @ arrive ?n)" using inv(1) by (simp add: d)
  ultimately show "map o_id (lp_rows ?l') = map o_id (seen arrive rows (lp_passes ?l')) \<and>
      mset (map fst (lp_sent ?l')) + mset (map o_id (pending (lp_rows ?l'))) = mset (map o_id (pending (seen arrive rows (lp_passes ?l')))) \<and>
      (sorted_wrt (<) (map o_id (seen arrive rows (lp_passes ?l'))) \<longrightarrow>
         map fst (lp_sent ?l') @ map o_id (pending (lp_rows ?l')) = map o_id (pending (seen arrive rows (lp_passes ?l'))))"
    by (simp add: n)
qed

text \<open>What a healthy pass counts is zero only if no row it saw was pending.\<close>

lemma healthy_idle:
  assumes "healthy (env (lp_passes l))" "0 < batchSize"
  shows "idles (lp_last (relay_pass arrive env batchSize l)) \<longleftrightarrow> pending (lp_rows l @ arrive (lp_passes l)) = []"
proof -
  let ?env = "env (lp_passes l)" and ?rows = "lp_rows l @ arrive (lp_passes l)"
  have "drainBatch ?env batchSize ?rows = (Inr (length (take (nat batchSize) (sort_key o_id (pending ?rows)))),
      mark_published (dr_now ?env) (map o_id (take (nat batchSize) (sort_key o_id (pending ?rows)))) ?rows,
      map (sent (dr_inject ?env)) (take (nat batchSize) (sort_key o_id (pending ?rows))))"
    using healthy_drain [OF assms(1) less_imp_le [OF assms(2)] refl] .
  moreover have "length (take (nat batchSize) (sort_key o_id (pending ?rows))) = 0 \<longleftrightarrow> length (pending ?rows) = 0"
    using assms(2) by (auto simp: min_def split: if_splits)
  ultimately show ?thesis by (simp only: relay_pass_def idles_def) simp
qed

lemma idle_empty: "healthy (env (lp_passes l)) \<Longrightarrow> 0 < batchSize \<Longrightarrow> idles (lp_last (relay_pass arrive env batchSize l)) \<Longrightarrow>
    pending (lp_rows (relay_pass arrive env batchSize l)) = []"
proof (rule relay_passE [of env l batchSize arrive])
  fix r rows' msgs assume a: "healthy (env (lp_passes l))" "0 < batchSize" "idles (lp_last (relay_pass arrive env batchSize l))"
    and d: "drainBatch (env (lp_passes l)) batchSize (lp_rows l @ arrive (lp_passes l)) = (r, rows', msgs)"
    and l': "relay_pass arrive env batchSize l =
       \<lparr>lp_rows = rows', lp_sent = lp_sent l @ msgs, lp_passes = Suc (lp_passes l), lp_last = r\<rparr>"
  have "pending (lp_rows l @ arrive (lp_passes l)) = []" using healthy_idle [of env l batchSize arrive] a by simp
  with drain_pending_le [OF d] show ?thesis by (simp add: l')
qed

lemma healthy_loop:
  assumes "\<forall>n. healthy (env n)" "0 < batchSize" "relay_until_sleep arrive env batchSize rows = Some l"
  shows "healthy_inv arrive rows l \<and> pending (lp_rows l) = []"
proof -
  let ?c = "relay_pass arrive env batchSize" and ?l0 = "\<lparr>lp_rows = rows, lp_sent = [], lp_passes = 0, lp_last = Inr 0\<rparr>"
  let ?P = "\<lambda>k. healthy_inv arrive rows k \<and> (idles (lp_last k) \<longrightarrow> pending (lp_rows k) = [])"
  have pass: "?P (?c k)" if "healthy_inv arrive rows k" for k
    using healthy_pass_inv [OF assms(1,2) that] idle_empty assms(1,2) by blast
  have "healthy_inv arrive rows ?l0" by (simp add: healthy_inv_def)
  then have "?P l" using while_option_rule [of ?P "\<lambda>l. \<not> idles (lp_last l)" ?c "?c ?l0" l] pass assms(3)
    unfolding relay_until_sleep_def by blast
  moreover have "idles (lp_last l)" using assms(3) by (auto simp: relay_until_sleep_def dest: while_option_stop)
  ultimately show ?thesis by blast
qed

text \<open>A row before every pass keeps a healthy loop awake for good.\<close>

lemma relay_stays_awake:
  assumes "\<forall>n. pending (arrive n) \<noteq> []" "\<forall>n. healthy (env n)" "0 < batchSize"
  shows "relay_until_sleep arrive env batchSize rows = None"
proof (rule ccontr)
  let ?c = "relay_pass arrive env batchSize" and ?l0 = "\<lparr>lp_rows = rows, lp_sent = [], lp_passes = 0, lp_last = Inr 0\<rparr>"
  assume "relay_until_sleep arrive env batchSize rows \<noteq> None"
  then obtain l where l: "while_option (\<lambda>l. \<not> idles (lp_last l)) ?c (?c ?l0) = Some l" by (auto simp: relay_until_sleep_def)
  have pass: "\<not> idles (lp_last (?c k))" for k using healthy_idle [of env k batchSize arrive] assms by simp
  then have "\<not> idles (lp_last l)"
    using while_option_rule [of "\<lambda>l. \<not> idles (lp_last l)" "\<lambda>l. \<not> idles (lp_last l)" ?c "?c ?l0" l] l by blast
  with while_option_stop [OF l] show False by simp
qed

text \<open>
  C12. When the relay sleeps: whatever fails in which pass, the loop between two sleeps ends once
  rows have stopped arriving, because from then on a pass that goes on has marked at least one
  pending row. If nothing fails, the batch size is positive and the ids are different, it ends
  with none of the rows it saw pending, those that arrived meanwhile included, having sent each
  exactly once, and in the order of their ids when they became visible in that order. It does
  not have to end: if nothing fails and a new row arrives before every pass, it never sleeps.
\<close>

theorem relay_loop_terminates:
  "((\<exists>N. \<forall>n \<ge> N. arrive n = []) \<longrightarrow> (\<exists>l. relay_until_sleep arrive env batchSize rows = Some l)) \<and>
   ((\<forall>n. healthy (env n)) \<and> 0 < batchSize \<longrightarrow>
     (\<forall>l. relay_until_sleep arrive env batchSize rows = Some l \<and> distinct (map o_id (seen arrive rows (lp_passes l))) \<longrightarrow>
        pending (lp_rows l) = [] \<and>
        mset (map fst (lp_sent l)) = mset (map o_id (pending (seen arrive rows (lp_passes l)))) \<and>
        (sorted_wrt (<) (map o_id (seen arrive rows (lp_passes l))) \<longrightarrow>
           map fst (lp_sent l) = map o_id (pending (seen arrive rows (lp_passes l))))) \<and>
     ((\<forall>n. pending (arrive n) \<noteq> []) \<longrightarrow> relay_until_sleep arrive env batchSize rows = None))"
proof (intro conjI impI allI)
  assume "\<exists>N. \<forall>n \<ge> N. arrive n = []"
  then show "\<exists>l. relay_until_sleep arrive env batchSize rows = Some l" using relay_loop_stops by blast
next
  assume "(\<forall>n. healthy (env n)) \<and> 0 < batchSize" "\<forall>n. pending (arrive n) \<noteq> []"
  then show "relay_until_sleep arrive env batchSize rows = None" using relay_stays_awake by blast
qed (use healthy_loop [of env batchSize arrive rows] in \<open>auto simp: healthy_inv_def Let_def\<close>)

text \<open>A row is there, another arrives after the first pass, with a smaller id.\<close>

definition one_late :: "nat \<Rightarrow> outbox_row list" where
  "one_late n = (if n = 1 then [sample_row 1] else [])"

theorem relay_loop_terminates_witness:
  "(\<exists>l. relay_until_sleep one_late (\<lambda>_. sample_drain always_ok) 1 [sample_row 2] = Some l \<and>
     pending (lp_rows l) = [] \<and> distinct (map fst (lp_sent l))) \<and>
   relay_until_sleep (\<lambda>_. [sample_row 1]) (\<lambda>_. sample_drain always_ok) 1 [] = None"
proof
  let ?run = "relay_until_sleep one_late (\<lambda>_. sample_drain always_ok) 1 [sample_row 2]"
  have "\<forall>n \<ge> 2. one_late n = []" by (simp add: one_late_def)
  then obtain l where l: "?run = Some l"
    using relay_loop_terminates [of one_late "\<lambda>_. sample_drain always_ok" 1 "[sample_row 2]", THEN conjunct1] by blast
  have "concat (map one_late [0..<n]) = (if 2 \<le> n then [sample_row 1] else [])" for n
    by (induction n) (auto simp: one_late_def)
  then have d: "distinct (map o_id (seen one_late [sample_row 2] (lp_passes l)))"
    by (simp add: seen_def sample_row_def)
  with relay_loop_terminates [of one_late "\<lambda>_. sample_drain always_ok" 1 "[sample_row 2]", THEN conjunct2] l sample_healthy
  have p: "pending (lp_rows l) = []"
    and m: "mset (map fst (lp_sent l)) = mset (map o_id (pending (seen one_late [sample_row 2] (lp_passes l))))" by simp_all
  have "distinct (map o_id (pending (seen one_late [sample_row 2] (lp_passes l))))"
    using d by (auto simp: distinct_map pending_def intro: inj_on_subset)
  with m have "distinct (map fst (lp_sent l))" by (metis mset_eq_imp_distinct_iff)
  with l p show "\<exists>l. ?run = Some l \<and> pending (lp_rows l) = [] \<and> distinct (map fst (lp_sent l))" by blast
  have "pending [sample_row 1] \<noteq> []" by (simp add: pending_def sample_row_def)
  with relay_loop_terminates [of "\<lambda>_. [sample_row 1]" "\<lambda>_. sample_drain always_ok" 1 "[]", THEN conjunct2] sample_healthy
  show "relay_until_sleep (\<lambda>_. [sample_row 1]) (\<lambda>_. sample_drain always_ok) 1 [] = None" by simp
qed

end
