(* ===== verification/JsonFuel.thy ===== *)
theory JsonFuel
  imports GoJsonFacts
begin

text \<open>
  The fuel of the JSON parser is enough for every document, accepted or not: with more of it the
  parser answers the same. So \<open>json_parse\<close> refuses no document for lack of fuel, and the
  decoders built on it are those of the scanner, not of a bounded approximation.
\<close>

section \<open>What is left gets shorter\<close>

lemma skip_ws_length: "length (skip_ws s) \<le> length s"
  unfolding skip_ws_def by (rule length_dropWhile_le)

lemma skip_ws_Cons_length: "skip_ws s = c # r \<Longrightarrow> length r < length s"
  using skip_ws_length [of s] by simp

lemma p_str_length: "p_str s = Some (r, t) \<Longrightarrow> length t < length s"
  using p_str_sound [of s r t] by auto

lemma p_exp_length:
  assumes "p_exp acc s = Some (a, r)"
  shows "length r \<le> length s"
proof (cases s)
  case Nil
  with assms show ?thesis by (simp add: p_exp_def)
next
  case (Cons e s')
  have d: "length (dropWhile is_digit (drop n s')) \<le> Suc (length s')" for n
    using length_dropWhile_le [of is_digit "drop n s'"] by simp
  define sg where "sg = (if has_prefix s' ''+'' \<or> has_prefix s' ''-'' then [hd s'] else [])"
  from assms have "r = s \<or> r = dropWhile is_digit (drop (length sg) s')"
    unfolding Cons p_exp_def by (auto simp: Let_def simp flip: sg_def split: if_splits)
  with d Cons show ?thesis by auto
qed

lemma p_frac_length: "p_frac acc s = Some (a, r) \<Longrightarrow> length r \<le> length s"
proof -
  assume "p_frac acc s = Some (a, r)"
  moreover have "length (dropWhile is_digit (tl s)) \<le> length s"
    using length_dropWhile_le [of is_digit "tl s"] by simp
  ultimately show ?thesis
    by (auto simp: p_frac_def Let_def dest!: p_exp_length split: if_splits)
qed

lemma p_num_length: "p_num s = Some (x, r) \<Longrightarrow> length r < length s"
proof -
  assume p: "p_num s = Some (x, r)"
  define sg where "sg = (if has_prefix s ''-'' then ''-'' else [])"
  from p obtain c r1 where s1: "drop (length sg) s = c # r1" and
    c: "c = CHR ''0'' \<and> p_frac (sg @ [c]) r1 = Some (x, r) \<or>
        c \<noteq> CHR ''0'' \<and> is_digit c \<and>
        p_frac (sg @ takeWhile is_digit (c # r1)) (dropWhile is_digit (c # r1)) = Some (x, r)"
    by (auto simp: p_num_def Let_def simp flip: sg_def split: list.splits if_splits)
  have "length r \<le> length r1"
    using c length_dropWhile_le [of is_digit r1] by (auto dest!: p_frac_length)
  moreover have "length (c # r1) \<le> length s" unfolding s1 [symmetric] by simp
  ultimately show ?thesis by simp
qed

lemma p_length:
  "p_value n s = Some (j, r) \<Longrightarrow> length r < length s"
  "p_elems n s = Some (xs, r) \<Longrightarrow> length r < length s"
  "p_members n s = Some (m, r) \<Longrightarrow> length r < length s"
proof (induction n s and n s and n s arbitrary: j r and xs r and m r
    rule: p_value_p_elems_p_members.induct)
  case (2 n s)
  from "2.prems" obtain c r0 where s: "skip_ws s = c # r0" by (auto split: list.splits)
  note short = skip_ws_Cons_length [OF s]
  consider (obj) d r' m where "c = CHR ''{''" "skip_ws r0 = d # r'" "d \<noteq> CHR ''}''" "p_members n (d # r') = Some (m, r)"
    | (arr) d r' xs where "c \<noteq> CHR ''{''" "c = CHR ''[''" "skip_ws r0 = d # r'" "d \<noteq> CHR '']''" "p_elems n (d # r') = Some (xs, r)"
    | (str) x where "p_str r0 = Some (x, r)"
    | (num) x where "p_num (c # r0) = Some (x, r)"
    | (empty) d where "skip_ws r0 = d # r"
    | (lit) w k where "p_lit w k (c # r0) = Some (j, r)" "w \<noteq> []"
    using "2.prems" s by (auto simp del: p_str.simps split: list.splits if_splits)
  then show ?case
  proof cases
    case obj
    with "2.IH"(1) [OF s obj] skip_ws_length [of r0] short show ?thesis by simp
  next
    case arr
    with "2.IH"(2) [OF s arr] skip_ws_length [of r0] short show ?thesis by simp
  next
    case str
    with p_str_length [OF str] short show ?thesis by simp
  next
    case num
    with p_num_length [OF num] skip_ws_length [of s] s show ?thesis by simp
  next
    case empty
    with skip_ws_length [of r0] short show ?thesis by simp
  next
    case lit
    then have "length r < length (c # r0)" by (cases w) (auto simp: p_lit_def has_prefix_def split: if_splits)
    with skip_ws_length [of s] s show ?thesis by simp
  qed
next
  case (4 n s)
  from "4.prems" obtain v r0 where v: "p_value n s = Some (v, r0)" by (auto split: option.splits)
  have short: "length r0 < length s" by (rule "4.IH"(1) [OF v])
  consider (more) r' vs where "skip_ws r0 = CHR '','' # r'" "p_elems n r' = Some (vs, r)"
    | (last) c where "skip_ws r0 = c # r"
    using "4.prems" v by (auto split: list.splits if_splits)
  then show ?case
  proof cases
    case more
    with "4.IH"(2) [OF v refl more(1) refl more(2)] skip_ws_length [of r0] short show ?thesis by simp
  next
    case last
    with skip_ws_length [of r0] short show ?thesis by simp
  qed
next
  case (6 n s)
  from "6.prems" obtain s1 k s2 s3 v r0 where
    s: "skip_ws s = dquote # s1" "p_str s1 = Some (k, s2)" "skip_ws s2 = CHR '':'' # s3"
    and v: "p_value n s3 = Some (v, r0)"
    by (auto split: list.splits if_splits option.splits)
  have q: "\<not> dquote \<noteq> dquote" "\<not> CHR '':'' \<noteq> CHR '':''" by simp_all
  have short: "length r0 < length s"
    using "6.IH"(1) [OF s(1) q(1) s(2) refl s(3) q(2) v] skip_ws_Cons_length [OF s(3)] p_str_length [OF s(2)]
      skip_ws_Cons_length [OF s(1)] by simp
  consider (more) r' m' where "skip_ws r0 = CHR '','' # r'" "p_members n r' = Some (m', r)"
    | (last) c where "skip_ws r0 = c # r"
    using "6.prems" s v by (auto split: list.splits if_splits)
  then show ?case
  proof cases
    case more
    with "6.IH"(2) [OF s(1) q(1) s(2) refl s(3) q(2) v refl more(1) refl more(2)] skip_ws_length [of r0] short
    show ?thesis by simp
  next
    case last
    with skip_ws_length [of r0] short show ?thesis by simp
  qed
qed simp_all

section \<open>More fuel changes nothing\<close>

lemma fuel_step:
  "(\<forall>s. 2 * length s + 1 \<le> n \<longrightarrow> p_value (Suc n) s = p_value n s) \<and>
   (\<forall>s. 2 * length s + 2 \<le> n \<longrightarrow> p_elems (Suc n) s = p_elems n s) \<and>
   (\<forall>s. 2 * length s + 2 \<le> n \<longrightarrow> p_members (Suc n) s = p_members n s)"
proof (induction n)
  case (Suc n)
  have fv: "p_value (Suc n) s = p_value n s" if "2 * length s + 1 \<le> n" for s using Suc that by blast
  have fe: "p_elems (Suc n) s = p_elems n s" if "2 * length s + 2 \<le> n" for s using Suc that by blast
  have fm: "p_members (Suc n) s = p_members n s" if "2 * length s + 2 \<le> n" for s using Suc that by blast
  have "p_value (Suc (Suc n)) s = p_value (Suc n) s" if n: "2 * length s + 1 \<le> Suc n" for s
  proof (cases "skip_ws s")
    case (Cons c r)
    have "p_members (Suc n) (d # r') = p_members n (d # r') \<and> p_elems (Suc n) (d # r') = p_elems n (d # r')"
      if "skip_ws r = d # r'" for d r'
    proof -
      have "length (d # r') < length s" using skip_ws_length [of r] skip_ws_Cons_length [OF Cons] that by simp
      then show ?thesis using n fm [of "d # r'"] fe [of "d # r'"] by simp
    qed
    then show ?thesis
      unfolding p_value.simps(2) [of "Suc n"] p_value.simps(2) [of n] Cons
      by (cases "skip_ws r") auto
  qed simp
  moreover have "p_elems (Suc (Suc n)) s = p_elems (Suc n) s" if n: "2 * length s + 2 \<le> Suc n" for s
  proof -
    have v: "p_value (Suc n) s = p_value n s" using n by (intro fv) simp
    show ?thesis
    proof (cases "p_value n s")
      case None
      then show ?thesis unfolding p_elems.simps(2) [of "Suc n"] p_elems.simps(2) [of n] v by simp
    next
      case (Some vr)
      obtain x r where x: "vr = (x, r)" by fastforce
      have "p_elems (Suc n) r' = p_elems n r'" if "skip_ws r = c # r'" for c r'
        using n p_length(1) [OF Some [unfolded x]] skip_ws_length [of r] that by (intro fe) simp
      then show ?thesis
        unfolding p_elems.simps(2) [of "Suc n"] p_elems.simps(2) [of n] v Some x
        by (cases "skip_ws r") auto
    qed
  qed
  moreover have "p_members (Suc (Suc n)) s = p_members (Suc n) s" if n: "2 * length s + 2 \<le> Suc n" for s
  proof (cases "skip_ws s")
    case (Cons q s1)
    note l1 = skip_ws_Cons_length [OF Cons]
    show ?thesis
    proof (cases "p_str s1")
      case (Some ks)
      obtain k s2 where k: "ks = (k, s2)" by fastforce
      note l2 = p_str_length [OF Some [unfolded k]]
      show ?thesis
      proof (cases "skip_ws s2")
        case s2: (Cons c s3)
        note l3 = skip_ws_Cons_length [OF s2]
        have v: "p_value (Suc n) s3 = p_value n s3" using n l1 l2 l3 by (intro fv) simp
        show ?thesis
        proof (cases "p_value n s3")
          case None
          then show ?thesis
            unfolding p_members.simps(2) [of "Suc n" s] p_members.simps(2) [of n s]
            by (simp add: Cons Some k s2 v del: p_value.simps p_members.simps)
        next
          case vr: (Some vr)
          obtain x r where x: "vr = (x, r)" by fastforce
          have "p_members (Suc n) r' = p_members n r'" if "skip_ws r = d # r'" for d r'
            using n l1 l2 l3 p_length(1) [OF vr [unfolded x]] skip_ws_length [of r] that by (intro fm) simp
          then show ?thesis
            unfolding p_members.simps(2) [of "Suc n" s] p_members.simps(2) [of n s]
            by (cases "skip_ws r") (auto simp: Cons Some k s2 v vr x simp del: p_value.simps p_members.simps)
        qed
      qed (simp add: Cons Some k)
    qed (simp add: Cons)
  qed simp
  ultimately show ?case by blast
qed simp

theorem json_parse_fuel:
  assumes "2 * length s + 1 \<le> n"
  shows "p_value n s = p_value (2 * length s + 2) s"
proof -
  have "p_value (2 * length s + 1 + k) s = p_value (2 * length s + 1) s" for k
  proof (induction k)
    case (Suc k)
    have "p_value (Suc (2 * length s + 1 + k)) s = p_value (2 * length s + 1 + k) s"
      using fuel_step [of "2 * length s + 1 + k"] by simp
    with Suc show ?case by simp
  qed simp
  from this [of "n - (2 * length s + 1)"] this [of 1] assms show ?thesis by simp
qed

end
