(* ===== verification/Relays.thy ===== *)
theory Relays
  imports OutboxRelay
begin

text \<open>
  Several outbox relays and overlapping transactions (services/outbox-relay/main.go,
  \<open>drainBatch\<close> in its steps). A transaction draws the ids of its rows when it inserts them, and
  its rows become visible together when it commits, in whatever order transactions end. A relay
  locks the rows it selects, skips the rows others hold, writes them one by one, and marks what
  it published when it commits.
\<close>

section \<open>The steps of a pass\<close>

text \<open>The rows a relay holds locked, those it has still to write, and the ids it counts as published.\<close>

record pass =
  ps_batch :: "int set"
  ps_todo :: "outbox_row list"
  ps_ids :: "int list"

text \<open>
  The committed rows, the next id, the rows of transactions in flight, the relays in a pass, and
  the broker's log. The rest is history: which transactions have ended, which one drew an id, and
  the ids whose publication may not have been recorded (the answer to a write, or the transaction
  that marks them, was lost).
\<close>

record fleet =
  fl_rows :: "outbox_row list"
  fl_seq :: int
  fl_open :: "nat \<Rightarrow> outbox_row list"
  fl_pass :: "nat \<rightharpoonup> pass"
  fl_log :: "(int \<times> kmessage) list"
  fl_ended :: "nat set"
  fl_tx :: "int \<Rightarrow> nat"
  fl_lost :: "int set"

definition held :: "fleet \<Rightarrow> int \<Rightarrow> bool" where
  "held s i \<longleftrightarrow> (\<exists>r p. fl_pass s r = Some p \<and> i \<in> ps_batch p)"

definition fleet_start :: "int \<Rightarrow> fleet" where
  "fleet_start n =
     \<lparr>fl_rows = [], fl_seq = n, fl_open = (\<lambda>_. []), fl_pass = Map.empty, fl_log = [], fl_ended = {},
      fl_tx = (\<lambda>_. 0), fl_lost = {}\<rparr>"

text \<open>A transaction inserts a row, which draws the next id; it commits, or is rolled back.\<close>

definition inserting :: "nat \<Rightarrow> outbox_row \<Rightarrow> fleet \<Rightarrow> fleet" where
  "inserting x q s =
     s\<lparr>fl_open := (fl_open s)(x := fl_open s x @ [q]), fl_tx := (fl_tx s)(fl_seq s := x), fl_seq := fl_seq s + 1\<rparr>"

definition ending :: "nat \<Rightarrow> bool \<Rightarrow> fleet \<Rightarrow> fleet" where
  "ending x ok s =
     s\<lparr>fl_rows := fl_rows s @ (if ok then fl_open s x else []), fl_open := (fl_open s)(x := []), fl_ended := {x} \<union> fl_ended s\<rparr>"

text \<open>The transaction of a pass locks the rows it selects.\<close>

definition locking :: "nat \<Rightarrow> outbox_row list \<Rightarrow> fleet \<Rightarrow> fleet" where
  "locking r batch s =
     s\<lparr>fl_pass := (fl_pass s)(r \<mapsto> \<lparr>ps_batch = set (map o_id batch), ps_todo = batch, ps_ids = []\<rparr>)\<rparr>"

text \<open>A write: taken and acknowledged; refused, so the loop breaks; taken, but the answer is lost.\<close>

fun writing :: "write_outcome \<Rightarrow> nat \<Rightarrow> pass \<Rightarrow> int \<times> kmessage \<Rightarrow> outbox_row list \<Rightarrow> fleet \<Rightarrow> fleet" where
  "writing WriteOk r p m todo s =
     s\<lparr>fl_log := fl_log s @ [m], fl_pass := (fl_pass s)(r \<mapsto> p\<lparr>ps_todo := todo, ps_ids := ps_ids p @ [fst m]\<rparr>)\<rparr>"
| "writing WriteFail r p m todo s = s\<lparr>fl_pass := (fl_pass s)(r \<mapsto> p\<lparr>ps_todo := []\<rparr>)\<rparr>"
| "writing WriteLost r p m todo s =
     s\<lparr>fl_log := fl_log s @ [m], fl_pass := (fl_pass s)(r \<mapsto> p\<lparr>ps_todo := []\<rparr>), fl_lost := insert (fst m) (fl_lost s)\<rparr>"

definition marking :: "nat \<Rightarrow> gtime \<Rightarrow> pass \<Rightarrow> fleet \<Rightarrow> fleet" where
  "marking r now p s = s\<lparr>fl_rows := mark_published now (ps_ids p) (fl_rows s), fl_pass := (fl_pass s)(r := None)\<rparr>"

text \<open>The transaction of a pass ends without effect: the update or the commit failed, or the relay died.\<close>

definition unmarking :: "nat \<Rightarrow> pass \<Rightarrow> fleet \<Rightarrow> fleet" where
  "unmarking r p s = s\<lparr>fl_pass := (fl_pass s)(r := None), fl_lost := fl_lost s \<union> set (ps_ids p)\<rparr>"

inductive fleet_step :: "nat set \<Rightarrow> fleet \<Rightarrow> fleet \<Rightarrow> bool" for R :: "nat set" where
  insert: "x \<notin> fl_ended s \<Longrightarrow> o_id q = fl_seq s \<Longrightarrow> o_published q = None \<Longrightarrow> fleet_step R s (inserting x q s)"
| end_tx: "x \<notin> fl_ended s \<Longrightarrow> fleet_step R s (ending x ok s)"
| select: "r \<in> R \<Longrightarrow> fl_pass s r = None \<Longrightarrow> select_batch (held s) batchSize (fl_rows s) = Some batch \<Longrightarrow>
    fleet_step R s (locking r batch s)"
| send: "r \<in> R \<Longrightarrow> fl_pass s r = Some p \<Longrightarrow> ps_todo p = q # todo \<Longrightarrow>
    fleet_step R s (writing w r p (sent inject q) todo s)"
| finish: "r \<in> R \<Longrightarrow> fl_pass s r = Some p \<Longrightarrow> ps_todo p = [] \<Longrightarrow> fleet_step R s (marking r now p s)"
| rollback: "r \<in> R \<Longrightarrow> fl_pass s r = Some p \<Longrightarrow> fleet_step R s (unmarking r p s)"

inductive fleet_reach :: "nat set \<Rightarrow> fleet \<Rightarrow> bool" for R :: "nat set" where
  start: "fleet_reach R (fleet_start n)"
| step: "fleet_reach R s \<Longrightarrow> fleet_step R s s' \<Longrightarrow> fleet_reach R s'"

lemmas fleet_defs = inserting_def ending_def locking_def marking_def unmarking_def

section \<open>A pass without interleaving is \<open>drainBatch\<close>\<close>

lemma writes_publish:
  assumes "publish inject w n (ps_todo p) = (ms, ids)" "fl_pass s r = Some p" "r \<in> R"
  shows "\<exists>s' p'. (fleet_step R)\<^sup>*\<^sup>* s s' \<and> fl_pass s' = (fl_pass s)(r \<mapsto> p') \<and> ps_todo p' = [] \<and>
    ps_ids p' = ps_ids p @ ids \<and> fl_log s' = fl_log s @ ms \<and> fl_rows s' = fl_rows s \<and>
    fl_seq s' = fl_seq s \<and> fl_ended s' = fl_ended s \<and> fl_open s' = fl_open s"
  using assms(1,2)
proof (induction "ps_todo p" arbitrary: p s n ms ids)
  case Nil
  then show ?case by (intro exI [of _ s] exI [of _ p]) (auto simp: fun_upd_idem)
next
  case (Cons q todo)
  note todo = Cons.hyps(2) [symmetric]
  note step = fleet_step.send [OF assms(3) Cons.prems(2) todo, of "w n" inject]
  show ?case
  proof (cases "w n")
    case WriteOk
    let ?p = "p\<lparr>ps_todo := todo, ps_ids := ps_ids p @ [o_id q]\<rparr>"
    let ?s = "writing WriteOk r p (sent inject q) todo s"
    obtain ms' ids' where r: "publish inject w (Suc n) todo = (ms', ids')" by fastforce
    have "fl_pass ?s r = Some ?p" by (simp add: sent_def)
    with Cons.hyps(1) [of ?p "Suc n" ms' ids' ?s] r obtain s' p' where s': "(fleet_step R)\<^sup>*\<^sup>* ?s s'"
      "fl_pass s' = (fl_pass ?s)(r \<mapsto> p')" "ps_todo p' = []" "ps_ids p' = ps_ids ?p @ ids'"
      "fl_log s' = fl_log ?s @ ms'" "fl_rows s' = fl_rows ?s" "fl_seq s' = fl_seq ?s" "fl_ended s' = fl_ended ?s" "fl_open s' = fl_open ?s" by auto
    from step WriteOk s'(1) have "(fleet_step R)\<^sup>*\<^sup>* s s'" by (simp add: converse_rtranclp_into_rtranclp)
    with s' Cons.prems(1) todo WriteOk r show ?thesis by (intro exI [of _ s'] exI [of _ p']) auto
  next
    case WriteFail
    with step have "fleet_step R s (writing WriteFail r p (sent inject q) todo s)" by simp
    with Cons.prems(1) todo WriteFail show ?thesis
      by (intro exI [of _ "writing WriteFail r p (sent inject q) todo s"] exI [of _ "p\<lparr>ps_todo := []\<rparr>"]) auto
  next
    case WriteLost
    with step have "fleet_step R s (writing WriteLost r p (sent inject q) todo s)" by simp
    with Cons.prems(1) todo WriteLost show ?thesis
      by (intro exI [of _ "writing WriteLost r p (sent inject q) todo s"] exI [of _ "p\<lparr>ps_todo := []\<rparr>"]) auto
  qed
qed

lemma pass_of_drain:
  assumes "drainBatch env batchSize (fl_rows s) = (res, rows', msgs)" "dr_locked env = held s"
    "fl_pass s r = None" "r \<in> R"
  shows "\<exists>s'. (fleet_step R)\<^sup>*\<^sup>* s s' \<and> fl_rows s' = rows' \<and> fl_log s' = fl_log s @ msgs \<and> fl_pass s' = fl_pass s \<and>
    fl_seq s' = fl_seq s \<and> fl_ended s' = fl_ended s \<and> fl_open s' = fl_open s"
proof (cases "rows' = fl_rows s \<and> msgs = []")
  case True
  then show ?thesis by (intro exI [of _ s]) simp
next
  case False
  with assms(1) obtain batch where b: "select_batch (held s) batchSize (fl_rows s) = Some batch" "batch \<noteq> []"
    unfolding drainBatch_def assms(2) [symmetric] by (auto split: if_splits option.splits)
  obtain ms ids where p: "publish (dr_inject env) (dr_write env) 0 batch = (ms, ids)" by fastforce
  have res: "msgs = ms" "rows' = mark_published (dr_now env) ids (fl_rows s) \<or> rows' = fl_rows s"
    using assms(1) False b p assms(2) by (auto simp: drainBatch_def Let_def split: if_splits)
  let ?p = "\<lparr>ps_batch = set (map o_id batch), ps_todo = batch, ps_ids = []\<rparr>"
  have sel: "fleet_step R s (locking r batch s)" using assms(4,3) b(1) by (rule fleet_step.select)
  have "\<exists>s' p'. (fleet_step R)\<^sup>*\<^sup>* (locking r batch s) s' \<and> fl_pass s' = (fl_pass (locking r batch s))(r \<mapsto> p') \<and>
      ps_todo p' = [] \<and> ps_ids p' = ps_ids ?p @ ids \<and> fl_log s' = fl_log (locking r batch s) @ ms \<and>
      fl_rows s' = fl_rows (locking r batch s) \<and> fl_seq s' = fl_seq (locking r batch s) \<and>
      fl_ended s' = fl_ended (locking r batch s) \<and> fl_open s' = fl_open (locking r batch s)"
    using p by (intro writes_publish [OF _ _ assms(4)]) (simp_all add: locking_def)
  then obtain s1 p1 where
    s1: "(fleet_step R)\<^sup>*\<^sup>* (locking r batch s) s1" "fl_pass s1 = (fl_pass s)(r \<mapsto> p1)" "ps_todo p1 = []"
      "ps_ids p1 = ids" "fl_log s1 = fl_log s @ ms" "fl_rows s1 = fl_rows s" "fl_seq s1 = fl_seq s" "fl_ended s1 = fl_ended s"
      "fl_open s1 = fl_open s"
    unfolding locking_def by auto
  from sel s1(1) have run: "(fleet_step R)\<^sup>*\<^sup>* s s1" by (rule converse_rtranclp_into_rtranclp)
  have in_pass: "fl_pass s1 r = Some p1" by (simp add: s1(2))
  have gone: "(fl_pass s1)(r := None) = fl_pass s" using s1(2) assms(3) by (simp add: fun_eq_iff)
  from res(2) show ?thesis
  proof
    assume "rows' = mark_published (dr_now env) ids (fl_rows s)"
    moreover have "fleet_step R s1 (marking r (dr_now env) p1 s1)" using assms(4) in_pass s1(3) by (rule fleet_step.finish)
    ultimately show ?thesis using run s1 res(1) gone
      by (intro exI [of _ "marking r (dr_now env) p1 s1"]) (auto simp: marking_def)
  next
    assume "rows' = fl_rows s"
    moreover have "fleet_step R s1 (unmarking r p1 s1)" using assms(4) in_pass by (rule fleet_step.rollback)
    ultimately show ?thesis using run s1 res(1) gone
      by (intro exI [of _ "unmarking r p1 s1"]) (auto simp: unmarking_def)
  qed
qed

section \<open>Rows, locks and counts\<close>

text \<open>An id belongs to one row, visible once its transaction has ended.\<close>

definition rows_inv :: "fleet \<Rightarrow> bool" where
  "rows_inv s \<longleftrightarrow> distinct (map o_id (fl_rows s)) \<and>
     (\<forall>q \<in> set (fl_rows s). o_id q < fl_seq s \<and> fl_tx s (o_id q) \<in> fl_ended s) \<and>
     (\<forall>x. distinct (map o_id (fl_open s x)) \<and> (x \<in> fl_ended s \<longrightarrow> fl_open s x = []) \<and>
       (\<forall>q \<in> set (fl_open s x). o_id q < fl_seq s \<and> fl_tx s (o_id q) = x \<and> o_published q = None))"

definition locks :: "pass \<Rightarrow> outbox_row list \<Rightarrow> bool" where
  "locks p rows \<longleftrightarrow> distinct (ps_ids p @ map o_id (ps_todo p)) \<and>
     set (ps_ids p @ map o_id (ps_todo p)) \<subseteq> ps_batch p \<and> set (ps_todo p) \<subseteq> set rows \<and>
     (\<forall>i \<in> ps_batch p. \<exists>q \<in> set rows. o_id q = i \<and> o_published q = None)"

definition passes_inv :: "fleet \<Rightarrow> bool" where
  "passes_inv s \<longleftrightarrow> (\<forall>r p. fl_pass s r = Some p \<longrightarrow> locks p (fl_rows s)) \<and>
     (\<forall>r r' p p'. r \<noteq> r' \<longrightarrow> fl_pass s r = Some p \<longrightarrow> fl_pass s r' = Some p' \<longrightarrow> ps_batch p \<inter> ps_batch p' = {})"

text \<open>What is marked, or counted by a relay that has not committed yet, was sent.\<close>

definition marked :: "fleet \<Rightarrow> int \<Rightarrow> bool" where
  "marked s i \<longleftrightarrow> (\<exists>q \<in> set (fl_rows s). o_id q = i \<and> o_published q \<noteq> None)"

definition counted :: "fleet \<Rightarrow> int \<Rightarrow> bool" where
  "counted s i \<longleftrightarrow> (\<exists>r p. fl_pass s r = Some p \<and> i \<in> set (ps_ids p))"

definition log_inv :: "fleet \<Rightarrow> bool" where
  "log_inv s \<longleftrightarrow>
     (\<forall>i. i \<notin> fl_lost s \<longrightarrow> count_list (map fst (fl_log s)) i = (if marked s i \<or> counted s i then 1 else 0)) \<and>
     (\<forall>i. marked s i \<or> counted s i \<longrightarrow> i \<in> fst ` set (fl_log s)) \<and>
     (\<forall>im \<in> set (fl_log s). \<exists>q \<in> set (fl_rows s). carries im q)"

lemma rows_inv_step:
  assumes "fleet_step R s s'" "rows_inv s"
  shows "rows_inv s'"
  using assms
proof (induction rule: fleet_step.induct)
  case (insert x s q)
  then have "o_id q' \<noteq> fl_seq s" if "q' \<in> set (fl_rows s) \<or> (\<exists>y. q' \<in> set (fl_open s y))" for q'
    using that by (force simp: rows_inv_def)
  with insert show ?case by (force simp: rows_inv_def inserting_def)
next
  case (end_tx x s ok)
  have "o_id q \<noteq> o_id q'" if "q \<in> set (fl_rows s)" "q' \<in> set (fl_open s x)" for q q'
    using end_tx that unfolding rows_inv_def by metis
  with end_tx show ?case by (cases ok) (fastforce simp: rows_inv_def ending_def)+
next
  case (send r s p q todo w inject)
  then show ?case by (cases w) (simp_all add: rows_inv_def)
qed (auto simp: rows_inv_def fleet_defs dest: mark_mem)

lemma select_facts:
  assumes "select_batch l batchSize rows = Some batch" "distinct (map o_id rows)"
  shows "sorted_wrt (<) (map o_id batch)" "set batch \<subseteq> set rows"
    "\<forall>q \<in> set batch. o_published q = None \<and> \<not> l (o_id q)"
proof -
  let ?s = "sort_key o_id (pending rows)"
  have b: "batch = take (nat batchSize) (filter (\<lambda>q. \<not> l (o_id q)) ?s)"
    using assms(1) by (simp add: select_batch_def pending_def split: if_splits)
  have "distinct (map o_id ?s)"
    using assms(2) by (auto simp: distinct_map pending_def intro: inj_on_subset)
  then have "sorted_wrt (<) (map o_id ?s)" by (simp add: strict_sorted_iff)
  then show "sorted_wrt (<) (map o_id batch)" by (simp add: b sorted_wrt_map sorted_wrt_filter sorted_wrt_take)
  have "set batch \<subseteq> {q \<in> set (pending rows). \<not> l (o_id q)}"
    unfolding b by (rule subset_trans [OF set_take_subset]) auto
  then show "set batch \<subseteq> set rows" "\<forall>q \<in> set batch. o_published q = None \<and> \<not> l (o_id q)"
    by (auto simp: pending_def)
qed

lemma locks_append: "locks p rows \<Longrightarrow> locks p (rows @ new)"
  by (fastforce simp: locks_def)

lemma mark_other: "q \<in> set rows \<Longrightarrow> o_id q \<notin> set ids \<Longrightarrow> q \<in> set (mark_published now ids rows)"
  by (force simp: mark_published_def)

lemma locks_marked:
  assumes "locks p rows" "ps_batch p \<inter> set ids = {}"
  shows "locks p (mark_published now ids rows)"
proof -
  have "q \<in> set (mark_published now ids rows)" if "q \<in> set rows" "o_id q \<in> ps_batch p" for q
    using that assms(2) by (intro mark_other) auto
  with assms(1) show ?thesis unfolding locks_def by (fastforce simp: subset_iff)
qed

lemma locks_selected:
  assumes "select_batch l n rows = Some batch" "distinct (map o_id rows)"
  shows "locks \<lparr>ps_batch = set (map o_id batch), ps_todo = batch, ps_ids = []\<rparr> rows"
  using select_facts [OF assms] by (auto simp: locks_def strict_sorted_iff)

lemma passesD:
  assumes "passes_inv s"
  shows "fl_pass s r = Some p \<Longrightarrow> locks p (fl_rows s)"
    "fl_pass s r = Some p \<Longrightarrow> fl_pass s r' = Some p' \<Longrightarrow> i \<in> ps_batch p \<Longrightarrow> i \<in> ps_batch p' \<Longrightarrow> r' = r"
  using assms unfolding passes_inv_def by blast+

lemma locksD: "locks p rows \<Longrightarrow> i \<in> set (ps_ids p) \<Longrightarrow> i \<in> ps_batch p"
  by (auto simp: locks_def)

lemma locks_row: "locks p rows \<Longrightarrow> i \<in> ps_batch p \<Longrightarrow> \<exists>q \<in> set rows. o_id q = i \<and> o_published q = None"
  by (simp add: locks_def)

lemma locks_head:
  "locks p rows \<Longrightarrow> ps_todo p = q # todo \<Longrightarrow> q \<in> set rows \<and> o_id q \<in> ps_batch p \<and> o_id q \<notin> set (ps_ids p)"
  by (simp add: locks_def)

lemma passes_inv_same:
  assumes "passes_inv s" "fl_pass s r = Some p" "locks p' (fl_rows s)" "ps_batch p' = ps_batch p"
    "fl_rows s' = fl_rows s" "fl_pass s' = (fl_pass s)(r \<mapsto> p')"
  shows "passes_inv s'"
  using assms unfolding passes_inv_def by (auto split: if_splits)

lemma passes_inv_step:
  assumes "fleet_step R s s'" "rows_inv s" "passes_inv s"
  shows "passes_inv s'"
  using assms
proof (induction rule: fleet_step.induct)
  case (end_tx x s ok)
  then show ?case by (auto simp: passes_inv_def ending_def intro: locks_append)
next
  case (select r s n batch)
  from select have l: "locks \<lparr>ps_batch = set (map o_id batch), ps_todo = batch, ps_ids = []\<rparr> (fl_rows s)"
    by (intro locks_selected) (auto simp: rows_inv_def)
  have free: "\<forall>q \<in> set batch. \<not> held s (o_id q)"
    using select_facts(3) [OF select(3)] select by (simp add: rows_inv_def)
  then have "set (map o_id batch) \<inter> ps_batch p = {}" if "fl_pass s r' = Some p" for r' p
    using that by (auto simp: held_def)
  with l select show ?case by (auto simp: passes_inv_def locking_def)
next
  case (send r s p q todo w inject)
  have l: "locks p (fl_rows s)" using send by (simp add: passes_inv_def)
  show ?case
  proof (cases w)
    case WriteOk
    from l send(3) have "locks (p\<lparr>ps_todo := todo, ps_ids := ps_ids p @ [o_id q]\<rparr>) (fl_rows s)"
      by (auto simp: locks_def)
    from passes_inv_same [OF send(5,2) this] WriteOk show ?thesis by (simp add: sent_def)
  next
    case WriteFail
    from l have "locks (p\<lparr>ps_todo := []\<rparr>) (fl_rows s)" by (auto simp: locks_def)
    from passes_inv_same [OF send(5,2) this] WriteFail show ?thesis by simp
  next
    case WriteLost
    from l have "locks (p\<lparr>ps_todo := []\<rparr>) (fl_rows s)" by (auto simp: locks_def)
    from passes_inv_same [OF send(5,2) this] WriteLost show ?thesis by simp
  qed
next
  case (finish r s p now)
  have "locks p' (mark_published now (ps_ids p) (fl_rows s))" if "r' \<noteq> r" "fl_pass s r' = Some p'" for r' p'
  proof (rule locks_marked)
    show "locks p' (fl_rows s)" using finish that by (simp add: passes_inv_def)
    have "set (ps_ids p) \<subseteq> ps_batch p" using finish by (auto simp: passes_inv_def locks_def)
    moreover have "ps_batch p' \<inter> ps_batch p = {}" using finish that unfolding passes_inv_def by blast
    ultimately show "ps_batch p' \<inter> set (ps_ids p) = {}" by blast
  qed
  with finish show ?case by (auto simp: passes_inv_def marking_def split: if_splits)
qed (auto simp: passes_inv_def inserting_def unmarking_def split: if_splits)

section \<open>What was sent\<close>

text \<open>A row a relay is about to write has not been sent, as far as anyone has recorded.\<close>

lemma todo_new:
  assumes "passes_inv s" "rows_inv s" "fl_pass s r = Some p" "ps_todo p = q # todo"
  shows "q \<in> set (fl_rows s)" "\<not> marked s (o_id q)" "\<not> counted s (o_id q)"
proof -
  have l: "locks p (fl_rows s)" using assms(1,3) by (simp add: passes_inv_def)
  then show q: "q \<in> set (fl_rows s)" by (simp add: locks_def assms(4))
  have b: "o_id q \<in> ps_batch p" using l by (simp add: locks_def assms(4))
  with l obtain q' where "q' \<in> set (fl_rows s)" "o_id q' = o_id q" "o_published q' = None" by (auto simp: locks_def)
  with assms(2) show "\<not> marked s (o_id q)"
    unfolding marked_def rows_inv_def distinct_map by (metis inj_onD)
  show "\<not> counted s (o_id q)"
  proof
    assume "counted s (o_id q)"
    then obtain r' p' where p': "fl_pass s r' = Some p'" "o_id q \<in> set (ps_ids p')" by (auto simp: counted_def)
    then have "o_id q \<in> ps_batch p'" using passesD(1) [OF assms(1)] locksD by blast
    with passesD(2) [OF assms(1,3) p'(1) b] have "r' = r" by blast
    with p' assms(3) locks_head [OF l assms(4)] show False by simp
  qed
qed

lemma marked_mark:
  assumes "locks p rows" "rows = fl_rows s" "fl_rows s' = mark_published now (ps_ids p) rows"
  shows "marked s' i \<longleftrightarrow> marked s i \<or> i \<in> set (ps_ids p)"
proof
  assume "marked s' i"
  then obtain q where "q \<in> set (mark_published now (ps_ids p) rows)" "o_id q = i" "o_published q \<noteq> None"
    using assms(3) by (auto simp: marked_def)
  with mark_mem [OF this(1)] show "marked s i \<or> i \<in> set (ps_ids p)" using assms(2) by (auto simp: marked_def)
next
  assume "marked s i \<or> i \<in> set (ps_ids p)"
  then obtain q where q: "q \<in> set rows" "o_id q = i" "o_published q \<noteq> None \<or> i \<in> set (ps_ids p)"
    using assms(2) locks_row [OF assms(1) locksD [OF assms(1)]] unfolding marked_def by blast
  let ?q = "if o_id q \<in> set (ps_ids p) then q\<lparr>o_published := Some (pg_time now)\<rparr> else q"
  have "?q \<in> set (fl_rows s')" using q(1) assms(3) by (auto simp: mark_published_def)
  moreover have "o_id ?q = i" "o_published ?q \<noteq> None" using q by auto
  ultimately show "marked s' i" unfolding marked_def by blast
qed
lemma count_snoc: "count_list (xs @ [x]) i = count_list xs i + (if x = i then 1 else 0)"
  by simp

text \<open>A step that leaves the log, and what is marked or counted, as it was, for the ids not lost.\<close>

lemma log_inv_same:
  assumes "log_inv s" "fl_log s' = fl_log s" "fl_lost s \<subseteq> fl_lost s'"
    "\<And>i. marked s' i \<or> counted s' i \<Longrightarrow> marked s i \<or> counted s i"
    "\<And>i. i \<notin> fl_lost s' \<Longrightarrow> marked s i \<or> counted s i \<Longrightarrow> marked s' i \<or> counted s' i"
    "\<And>im q. q \<in> set (fl_rows s) \<Longrightarrow> carries im q \<Longrightarrow> \<exists>q' \<in> set (fl_rows s'). carries im q'"
  shows "log_inv s'"
  unfolding log_inv_def assms(2)
proof (intro conjI allI impI ballI)
  fix i assume "i \<notin> fl_lost s'"
  with assms(3-5) have "i \<notin> fl_lost s" "marked s' i \<or> counted s' i \<longleftrightarrow> marked s i \<or> counted s i" by blast+
  with assms(1) show "count_list (map fst (fl_log s)) i = (if marked s' i \<or> counted s' i then 1 else 0)"
    by (simp add: log_inv_def)
next
  fix i assume "marked s' i \<or> counted s' i"
  with assms(1,4) show "i \<in> fst ` set (fl_log s)" unfolding log_inv_def by blast
next
  fix im assume "im \<in> set (fl_log s)"
  with assms(1) obtain q where "q \<in> set (fl_rows s)" "carries im q" unfolding log_inv_def by blast
  then show "\<exists>q' \<in> set (fl_rows s'). carries im q'" by (rule assms(6))
qed

lemma sent_carries [simp]: "carries (sent inject q) q" "fst (sent inject q) = o_id q"
  by (simp_all add: carries_def sent_def row_message_def Let_def)

lemma counted_upd:
  "fl_pass s' = (fl_pass s)(r := None) \<Longrightarrow> fl_pass s r = Some p \<Longrightarrow> counted s i \<longleftrightarrow> counted s' i \<or> i \<in> set (ps_ids p)"
  "fl_pass s' = (fl_pass s)(r \<mapsto> p') \<Longrightarrow> fl_pass s r = Some p \<Longrightarrow> set (ps_ids p') = set (ps_ids p) \<union> I \<Longrightarrow>
     counted s' i \<longleftrightarrow> counted s i \<or> i \<in> I"
  by (auto simp: counted_def split: if_splits) (metis option.inject)+

lemma log_inv_step:
  assumes "fleet_step R s s'" "rows_inv s" "passes_inv s" "log_inv s"
  shows "log_inv s'"
  using assms
proof (induction rule: fleet_step.induct)
  case (insert x s q)
  then show ?case by (intro log_inv_same [OF insert(6)]) (auto simp: marked_def counted_def inserting_def)
next
  case (end_tx x s ok)
  have "\<forall>q \<in> set (fl_open s x). o_published q = None" using end_tx by (simp add: rows_inv_def)
  then show ?case by (intro log_inv_same [OF end_tx(4)]) (auto simp: marked_def counted_def ending_def)
next
  case (select r s n batch)
  have "counted (locking r batch s) i \<longleftrightarrow> counted s i" for i
    using select(2) by (auto simp: counted_def locking_def split: if_splits) (metis option.distinct(1))
  then show ?case by (intro log_inv_same [OF select(6)]) (auto simp: marked_def locking_def)
next
  case (send r s p q todo w inject)
  note new = todo_new [OF send(5,4,2,3)]
  have car: "\<exists>x \<in> set (fl_rows s). carries (sent inject q) x" using new(1) sent_carries(1) by blast
  show ?case
  proof (cases w)
    case WriteOk
    let ?s = "writing WriteOk r p (sent inject q) todo s"
    have c: "counted ?s i \<longleftrightarrow> counted s i \<or> i = o_id q" for i
      using counted_upd(2) [of ?s s r _ p "{o_id q}"] send(2) by simp
    have m: "marked ?s i \<longleftrightarrow> marked s i" for i by (simp add: marked_def)
    show ?thesis
      unfolding WriteOk log_inv_def c m using send(6) new car by (auto simp: log_inv_def)
  next
    case WriteFail
    let ?s = "writing WriteFail r p (sent inject q) todo s"
    have "counted ?s i \<longleftrightarrow> counted s i" for i
      using counted_upd(2) [of ?s s r _ p "{}"] send(2) by simp
    then show ?thesis unfolding WriteFail by (intro log_inv_same [OF send(6)]) (auto simp: marked_def)
  next
    case WriteLost
    let ?s = "writing WriteLost r p (sent inject q) todo s"
    have c: "counted ?s i \<longleftrightarrow> counted s i" for i
      using counted_upd(2) [of ?s s r _ p "{}"] send(2) by simp
    have m: "marked ?s i \<longleftrightarrow> marked s i" for i by (simp add: marked_def)
    show ?thesis
      unfolding WriteLost log_inv_def c m using send(6) new car by (auto simp: log_inv_def)
  qed
next
  case (finish r s p now)
  have l: "locks p (fl_rows s)" using passesD(1) [OF finish(5,2)] .
  let ?s = "marking r now p s"
  have "fl_rows ?s = mark_published now (ps_ids p) (fl_rows s)" "fl_pass ?s = (fl_pass s)(r := None)"
    by (simp_all add: marking_def)
  from marked_mark [OF l refl this(1)] counted_upd(1) [OF this(2) finish(2)]
  have "marked ?s i \<or> counted ?s i \<longleftrightarrow> marked s i \<or> counted s i" for i by blast
  then show ?case
  proof (intro log_inv_same [OF finish(6)])
    fix im q assume q: "q \<in> set (fl_rows s)" "carries im q"
    then show "\<exists>q' \<in> set (fl_rows ?s). carries im q'"
      using mark_mem_back [OF q(1), of now "ps_ids p"] unfolding carries_def marking_def by simp metis
  qed (simp_all add: marking_def)
next
  case (rollback r s p)
  let ?s = "unmarking r p s"
  have "fl_pass ?s = (fl_pass s)(r := None)" by (simp add: unmarking_def)
  from counted_upd(1) [OF this rollback(2)] have c: "counted s i \<longleftrightarrow> counted ?s i \<or> i \<in> set (ps_ids p)" for i .
  have m: "marked ?s i \<longleftrightarrow> marked s i" for i by (simp add: marked_def unmarking_def)
  have "fl_log ?s = fl_log s" "fl_lost ?s = fl_lost s \<union> set (ps_ids p)" "fl_rows ?s = fl_rows s"
    by (simp_all add: unmarking_def)
  with c m show ?case by (intro log_inv_same [OF rollback(5)]) auto
qed

definition fleet_inv :: "fleet \<Rightarrow> bool" where
  "fleet_inv s \<longleftrightarrow> rows_inv s \<and> passes_inv s \<and> log_inv s"

lemma fleet_reach_inv: "fleet_reach R s \<Longrightarrow> fleet_inv s"
proof (induction rule: fleet_reach.induct)
  case (start n)
  show ?case by (simp add: fleet_inv_def rows_inv_def passes_inv_def log_inv_def marked_def counted_def fleet_start_def)
next
  case (step s s')
  then show ?case using rows_inv_step passes_inv_step log_inv_step unfolding fleet_inv_def by blast
qed

section \<open>Order\<close>

text \<open>A row of the same transaction as an id, drawn before it.\<close>

definition tx_before :: "fleet \<Rightarrow> outbox_row \<Rightarrow> int \<Rightarrow> bool" where
  "tx_before s q i \<longleftrightarrow> fl_tx s (o_id q) = fl_tx s i \<and> o_id q < i"

definition log_order :: "fleet \<Rightarrow> bool" where
  "log_order s \<longleftrightarrow> (\<forall>j < length (fl_log s). \<forall>q \<in> set (fl_rows s).
     tx_before s q (fst (fl_log s ! j)) \<longrightarrow> (\<exists>k < j. fst (fl_log s ! k) = o_id q))"

definition todo_order :: "fleet \<Rightarrow> bool" where
  "todo_order s \<longleftrightarrow> (\<forall>r p. fl_pass s r = Some p \<longrightarrow> (\<forall>j < length (ps_todo p). \<forall>q \<in> set (fl_rows s).
     tx_before s q (o_id (ps_todo p ! j)) \<longrightarrow>
       o_id q \<in> fst ` set (fl_log s) \<or> (\<exists>k < j. o_id (ps_todo p ! k) = o_id q)))"

definition order_inv :: "fleet \<Rightarrow> bool" where
  "order_inv s \<longleftrightarrow> log_order s \<and> todo_order s"

text \<open>Rows that come later belong to transactions of their own.\<close>

lemma order_grows:
  assumes "order_inv s" "fl_log s' = fl_log s" "fl_pass s' = fl_pass s" "passes_inv s" "log_inv s"
    "\<And>q i. q \<in> set (fl_rows s') \<Longrightarrow> i \<in> o_id ` set (fl_rows s) \<Longrightarrow> tx_before s' q i \<Longrightarrow>
       \<exists>q' \<in> set (fl_rows s). o_id q' = o_id q \<and> tx_before s q' i"
  shows "order_inv s'"
proof -
  have "fst im \<in> o_id ` set (fl_rows s)" if "im \<in> set (fl_log s)" for im
    using assms(5) that by (force simp: log_inv_def carries_def)
  then have "log_order s'" using assms(1,2,6) unfolding order_inv_def log_order_def by (metis nth_mem)
  moreover have "todo_order s'"
    unfolding todo_order_def
  proof (intro allI impI ballI)
    fix r p j q
    assume p: "fl_pass s' r = Some p" and j: "j < length (ps_todo p)" and q: "q \<in> set (fl_rows s')"
      and b: "tx_before s' q (o_id (ps_todo p ! j))"
    from p have p': "fl_pass s r = Some p" using assms(3) by simp
    have "ps_todo p ! j \<in> set (fl_rows s)"
      using passesD(1) [OF assms(4) p'] nth_mem [OF j] by (auto simp: locks_def)
    then obtain q' where "q' \<in> set (fl_rows s)" "o_id q' = o_id q" "tx_before s q' (o_id (ps_todo p ! j))"
      using assms(6) [OF q _ b] by blast
    with assms(1) p' j show "o_id q \<in> fst ` set (fl_log s') \<or> (\<exists>k < j. o_id (ps_todo p ! k) = o_id q)"
      unfolding order_inv_def todo_order_def assms(2) by metis
  qed
  ultimately show ?thesis by (simp add: order_inv_def)
qed

text \<open>The selected rows are the first pending ones, when no other relay holds a row.\<close>

lemma selected_first:
  assumes "select_batch l n rows = Some batch" "\<forall>i. \<not> l i" "distinct (map o_id rows)"
    "j < length batch" "q \<in> set (pending rows)" "o_id q < o_id (batch ! j)"
  shows "\<exists>k < j. o_id (batch ! k) = o_id q"
proof -
  let ?s = "sort_key o_id (pending rows)"
  have "filter (\<lambda>o'. \<not> l (o_id o')) ?s = ?s" using assms(2) by simp
  then have b: "batch = take (nat n) ?s"
    using assms(1) by (simp add: select_batch_def pending_def split: if_splits)
  have "distinct (map o_id ?s)"
    using assms(3) by (auto simp: distinct_map pending_def intro: inj_on_subset)
  then have "sorted_wrt (<) (map o_id ?s)" by (simp add: strict_sorted_iff)
  from take_sorted_smaller [OF this, of j "nat n" q] assms(4-6) show ?thesis by (simp add: b)
qed

lemma todo_order_upd:
  assumes "todo_order s" "fl_pass s r = Some p" "fl_pass s' = (fl_pass s)(r \<mapsto> p')" "fl_rows s' = fl_rows s"
    "fl_tx s' = fl_tx s" "set (fl_log s) \<subseteq> set (fl_log s')"
    "ps_todo p' = [] \<or> (\<exists>q. ps_todo p = q # ps_todo p' \<and> o_id q \<in> fst ` set (fl_log s'))"
  shows "todo_order s'"
  unfolding todo_order_def assms(4)
proof (intro allI impI ballI)
  fix r1 p1 j q
  assume p1: "fl_pass s' r1 = Some p1" and j: "j < length (ps_todo p1)" and q: "q \<in> set (fl_rows s)"
    and b: "tx_before s' q (o_id (ps_todo p1 ! j))"
  have b': "tx_before s q i \<longleftrightarrow> tx_before s' q i" for i using assms(5) by (simp add: tx_before_def)
  show "o_id q \<in> fst ` set (fl_log s') \<or> (\<exists>k < j. o_id (ps_todo p1 ! k) = o_id q)"
  proof (cases "r1 = r")
    case False
    with p1 assms(3) have "fl_pass s r1 = Some p1" by simp
    with assms(1,6) j q b show ?thesis unfolding todo_order_def b' [symmetric] by blast
  next
    case True
    with p1 assms(3) have p1: "p1 = p'" by simp
    with j assms(7) obtain q0 where q0: "ps_todo p = q0 # ps_todo p'" "o_id q0 \<in> fst ` set (fl_log s')" by auto
    have "Suc j < length (ps_todo p)" "tx_before s q (o_id (ps_todo p ! Suc j))" using j b p1 q0(1) b' by simp_all
    with assms(1,2) q consider "o_id q \<in> fst ` set (fl_log s)" | k where "k < Suc j" "o_id (ps_todo p ! k) = o_id q"
      unfolding todo_order_def by metis
    then show ?thesis
    proof cases
      case 1
      with assms(6) show ?thesis by blast
    next
      case (2 k)
      with q0 p1 show ?thesis by (cases k) auto
    qed
  qed
qed

lemma log_order_snoc:
  assumes "log_order s" "fl_log s' = fl_log s @ [m]" "fl_rows s' = fl_rows s" "fl_tx s' = fl_tx s"
    "\<And>q. q \<in> set (fl_rows s) \<Longrightarrow> tx_before s q (fst m) \<Longrightarrow> o_id q \<in> fst ` set (fl_log s)"
  shows "log_order s'"
  unfolding log_order_def assms(3)
proof (intro allI impI ballI)
  fix j q assume j: "j < length (fl_log s')" and q: "q \<in> set (fl_rows s)" and b: "tx_before s' q (fst (fl_log s' ! j))"
  have b: "tx_before s q (fst (fl_log s' ! j))" using b assms(4) by (simp add: tx_before_def)
  show "\<exists>k < j. fst (fl_log s' ! k) = o_id q"
  proof (cases "j < length (fl_log s)")
    case True
    with b have "tx_before s q (fst (fl_log s ! j))" by (simp add: assms(2) nth_append)
    with assms(1) True q obtain k where "k < j" "fst (fl_log s ! k) = o_id q" unfolding log_order_def by blast
    with True show ?thesis by (intro exI [of _ k]) (simp add: assms(2) nth_append)
  next
    case False
    with j have "j = length (fl_log s)" by (simp add: assms(2))
    with b assms(5) [OF q] obtain k where "k < length (fl_log s)" "fst (fl_log s ! k) = o_id q"
      by (auto simp: assms(2) in_set_conv_nth)
    with \<open>j = length (fl_log s)\<close> show ?thesis by (intro exI [of _ k]) (simp add: assms(2) nth_append)
  qed
qed

lemma order_inv_step:
  assumes "fleet_step {r0} s s'" "fleet_inv s" "dom (fl_pass s) \<subseteq> {r0}" "order_inv s"
  shows "order_inv s'"
proof -
  from assms(2) have inv: "rows_inv s" "passes_inv s" "log_inv s" by (simp_all add: fleet_inv_def)
  from assms(1) show ?thesis
  proof (cases rule: fleet_step.cases)
    case (insert x q)
    have "o_id q' \<noteq> fl_seq s" if "q' \<in> set (fl_rows s)" for q' using inv(1) that by (auto simp: rows_inv_def)
    then show ?thesis using insert by (intro order_grows [OF assms(4) _ _ inv(2,3)]) (auto simp: tx_before_def inserting_def)
  next
    case (end_tx x ok)
    have "\<forall>q' \<in> set (fl_rows s). fl_tx s (o_id q') \<noteq> x" using inv(1) end_tx(2) by (auto simp: rows_inv_def)
    moreover have "\<forall>q' \<in> set (fl_open s x). fl_tx s (o_id q') = x" using inv(1) by (auto simp: rows_inv_def)
    ultimately show ?thesis using end_tx(1)
      by (intro order_grows [OF assms(4) _ _ inv(2,3)]) (auto simp: tx_before_def ending_def split: if_splits)
  next
    case (select r n batch)
    have "\<forall>i. \<not> held s i" using assms(3) select(2,3) by (auto simp: held_def)
    moreover have "distinct (map o_id (fl_rows s))" using inv(1) by (simp add: rows_inv_def)
    moreover have "o_id q \<in> fst ` set (fl_log s)" if "q \<in> set (fl_rows s)" "q \<notin> set (pending (fl_rows s))" for q
    proof -
      have "marked s (o_id q)" using that by (auto simp: marked_def pending_def)
      with inv(3) show ?thesis unfolding log_inv_def by blast
    qed
    ultimately have "todo_order (locking r batch s)"
      using assms(4) selected_first [OF select(4)]
      by (auto simp: todo_order_def locking_def order_inv_def tx_before_def) blast
    then show ?thesis using assms(4) select(1) by (simp add: order_inv_def log_order_def locking_def tx_before_def)
  next
    case (send r p q todo w inject)
    have todo: "todo_order s" "log_order s" using assms(4) by (simp_all add: order_inv_def)
    have first: "o_id q' \<in> fst ` set (fl_log s)" if "q' \<in> set (fl_rows s)" "tx_before s q' (o_id q)" for q'
      using todo(1) send(3,4) that by (fastforce simp: todo_order_def)
    show ?thesis
    proof (cases w)
      case WriteOk
      have "todo_order s'" by (rule todo_order_upd [OF todo(1) send(3), where p' = "p\<lparr>ps_todo := todo, ps_ids := ps_ids p @ [o_id q]\<rparr>"])
          (auto simp: send(1,4) WriteOk sent_def)
      moreover have "log_order s'"
        by (rule log_order_snoc [OF todo(2), where m = "sent inject q"]) (use first in \<open>simp_all add: send(1) WriteOk\<close>)
      ultimately show ?thesis by (simp add: order_inv_def)
    next
      case WriteFail
      have "todo_order s'" by (rule todo_order_upd [OF todo(1) send(3), where p' = "p\<lparr>ps_todo := []\<rparr>"])
          (simp_all add: send(1,4) WriteFail)
      moreover have "log_order s'" using todo(2) by (simp add: log_order_def send(1) WriteFail tx_before_def)
      ultimately show ?thesis by (simp add: order_inv_def)
    next
      case WriteLost
      have "todo_order s'" by (rule todo_order_upd [OF todo(1) send(3), where p' = "p\<lparr>ps_todo := []\<rparr>"])
          (auto simp: send(1,4) WriteLost)
      moreover have "log_order s'"
        by (rule log_order_snoc [OF todo(2), where m = "sent inject q"]) (use first in \<open>simp_all add: send(1) WriteLost\<close>)
      ultimately show ?thesis by (simp add: order_inv_def)
    qed
  next
    case (finish r p now)
    have "\<exists>q' \<in> set (fl_rows s). o_id q' = o_id q \<and> tx_before s q' i"
      if "q \<in> set (fl_rows s')" "tx_before s' q i" for q i
      using that mark_mem [of q now "ps_ids p" "fl_rows s"] by (auto simp: finish(1) marking_def tx_before_def)
    then have "order_inv (s'\<lparr>fl_pass := fl_pass s\<rparr>)"
      by (intro order_grows [OF assms(4) _ _ inv(2,3)]) (simp_all add: finish(1) marking_def tx_before_def)
    then show ?thesis by (auto simp: order_inv_def log_order_def todo_order_def tx_before_def finish(1) marking_def)
  next
    case (rollback r p)
    then show ?thesis using assms(4)
      by (auto simp: order_inv_def log_order_def todo_order_def tx_before_def unmarking_def)
  qed
qed

lemma dom_writing: "dom (fl_pass (writing w r p m todo s)) \<subseteq> insert r (dom (fl_pass s))"
  by (cases w) auto

lemma dom_step: "fleet_step R s s' \<Longrightarrow> dom (fl_pass s') \<subseteq> R \<union> dom (fl_pass s)"
  by (induction rule: fleet_step.induct) (use dom_writing in \<open>fastforce simp: fleet_defs split: if_splits\<close>)+

lemma fleet_reach_order: "fleet_reach {r} s \<Longrightarrow> order_inv s \<and> dom (fl_pass s) \<subseteq> {r}"
proof (induction rule: fleet_reach.induct)
  case (start n)
  show ?case by (simp add: order_inv_def log_order_def todo_order_def fleet_start_def)
next
  case (step s s')
  have "dom (fl_pass s') \<subseteq> {r}" using dom_step [OF step(2)] step(3) by blast
  then show ?case using order_inv_step [OF step(2) fleet_reach_inv [OF step(1)]] step(3) by blast
qed

section \<open>Properties\<close>

text \<open>
  C10. Any number of relays: in every state that relays and overlapping transactions can reach,
  whatever fails, each row stamped as published is in the broker's log, each message of the log
  carries the topic, key and bytes of a committed row (nothing of a transaction that was rolled
  back is ever published), and an event is in the log more than once only if the answer to its
  write, or the transaction that was to stamp it, was lost: relays that run side by side do not
  publish a row twice.
\<close>

theorem fleet_exact:
  assumes "fleet_reach R s"
  shows "(\<forall>q \<in> set (fl_rows s). o_published q \<noteq> None \<longrightarrow> (\<exists>im \<in> set (fl_log s). carries im q)) \<and>
    (\<forall>im \<in> set (fl_log s). \<exists>q \<in> set (fl_rows s). carries im q) \<and>
    (\<forall>i. i \<notin> fl_lost s \<longrightarrow> count_list (map fst (fl_log s)) i \<le> 1)"
proof -
  have inv: "rows_inv s" "log_inv s" using fleet_reach_inv [OF assms] by (simp_all add: fleet_inv_def)
  have rows: "\<forall>im \<in> set (fl_log s). \<exists>q \<in> set (fl_rows s). carries im q" using inv(2) unfolding log_inv_def by blast
  moreover have "\<exists>im \<in> set (fl_log s). carries im q" if q: "q \<in> set (fl_rows s)" "o_published q \<noteq> None" for q
  proof -
    have "marked s (o_id q)" using q unfolding marked_def by blast
    with inv(2) obtain im where im: "im \<in> set (fl_log s)" "fst im = o_id q" unfolding log_inv_def by (metis imageE)
    with rows obtain q' where "q' \<in> set (fl_rows s)" "carries im q'" by blast
    moreover from this im(2) q(1) inv(1) have "q' = q"
      unfolding rows_inv_def carries_def distinct_map by (metis inj_onD)
    ultimately show ?thesis using im(1) by blast
  qed
  moreover have "count_list (map fst (fl_log s)) i \<le> 1" if "i \<notin> fl_lost s" for i
    using inv(2) that by (simp add: log_inv_def)
  ultimately show ?thesis by blast
qed

text \<open>
  C11. Order within a transaction: with one relay, however transactions overlap and whatever
  fails, an event is sent only after every event its transaction staged before it has been sent,
  so consumers see the first copies of the events of a delivery in the order they were staged.
\<close>

theorem fleet_order:
  assumes "fleet_reach {r} s" "j < length (fl_log s)" "q \<in> set (fl_rows s)"
    "fl_tx s (o_id q) = fl_tx s (fst (fl_log s ! j))" "o_id q < fst (fl_log s ! j)"
  shows "\<exists>k < j. fst (fl_log s ! k) = o_id q"
  using fleet_reach_order [OF assms(1)] assms(2-5)
  unfolding order_inv_def log_order_def tx_before_def by blast

section \<open>Samples\<close>

lemmas reach_insert = fleet_reach.step [OF _ fleet_step.insert]
lemmas reach_end = fleet_reach.step [OF _ fleet_step.end_tx]
lemmas reach_select = fleet_reach.step [OF _ fleet_step.select]
lemmas reach_send = fleet_reach.step [OF _ fleet_step.send]
lemmas reach_finish = fleet_reach.step [OF _ fleet_step.finish]

text \<open>Two rows, of one transaction or of two; of two, the later commits first.\<close>

definition two_rows :: "nat \<Rightarrow> nat \<Rightarrow> fleet" where
  "two_rows x y = inserting y (sample_row 2) (inserting x (sample_row 1) (fleet_start 1))"

lemma reach_two_rows: "fleet_reach R (two_rows x y)"
  unfolding two_rows_def
  by (intro reach_insert fleet_reach.start) (simp_all add: inserting_def fleet_start_def sample_row_def)

definition send_first :: "nat \<Rightarrow> fleet \<Rightarrow> fleet" where
  "send_first r s =
     (case fl_pass s r of None \<Rightarrow> s
      | Some p \<Rightarrow> (case ps_todo p of [] \<Rightarrow> s
                   | q # todo \<Rightarrow> writing WriteOk r p (sent (\<lambda>_. Map.empty) q) todo s))"

lemma reach_send_first: "fleet_reach R s \<Longrightarrow> r \<in> R \<Longrightarrow> fleet_reach R (send_first r s)"
  using reach_send [where w = WriteOk and inject = "\<lambda>_. Map.empty"] unfolding send_first_def
  by (auto split: option.split list.split simp del: writing.simps)

definition take_batch :: "nat \<Rightarrow> int \<Rightarrow> fleet \<Rightarrow> fleet" where
  "take_batch r n s =
     (case (fl_pass s r, select_batch (held s) n (fl_rows s)) of
        (None, Some batch) \<Rightarrow> locking r batch s | _ \<Rightarrow> s)"

lemma reach_take_batch: "fleet_reach R s \<Longrightarrow> r \<in> R \<Longrightarrow> fleet_reach R (take_batch r n s)"
  unfolding take_batch_def by (auto split: option.split intro: reach_select)

text \<open>One transaction, one relay; two transactions, the later one committed first; one transaction, two relays.\<close>

definition in_turn :: fleet where
  "in_turn = send_first 0 (send_first 0 (take_batch 0 10 (ending 1 True (two_rows 1 1))))"

definition overtaken :: fleet where
  "overtaken = send_first 0 (take_batch 0 10 (ending 1 True
     (marking 0 zero_time \<lparr>ps_batch = {2}, ps_todo = [], ps_ids = [2]\<rparr>
       (send_first 0 (take_batch 0 10 (ending 2 True (two_rows 1 2)))))))"

definition side_by_side :: fleet where
  "side_by_side = send_first 0 (send_first 1 (take_batch 1 1 (take_batch 0 1 (ending 1 True (two_rows 1 1)))))"

lemmas fleet_run_defs = two_rows_def fleet_start_def fleet_defs take_batch_def send_first_def select_batch_def held_def
  sample_row_def sent_def mark_published_def

lemma in_turn_facts: "map fst (fl_log in_turn) = [1, 2]" "fl_lost in_turn = {}" "map o_id (fl_rows in_turn) = [1, 2]"
  "fl_tx in_turn 1 = 1" "fl_tx in_turn 2 = 1"
  by (simp_all add: in_turn_def fleet_run_defs)

lemma overtaken_facts: "map fst (fl_log overtaken) = [2, 1]" "fl_lost overtaken = {}" 
  "map o_id (fl_rows overtaken) = [2, 1]" "map o_key (fl_rows overtaken) = [''t'', ''t'']"
  by (simp_all add: overtaken_def fleet_run_defs)

lemma side_by_side_facts: "map fst (fl_log side_by_side) = [2, 1]" "fl_lost side_by_side = {}"
  "map o_id (fl_rows side_by_side) = [1, 2]" "fl_tx side_by_side 1 = fl_tx side_by_side 2"
  by (simp_all add: side_by_side_def fleet_run_defs)

lemma reach_committed: "x \<noteq> y \<or> y = x' \<Longrightarrow> fleet_reach R (ending x' True (two_rows x y))"
  by (intro reach_end reach_two_rows) (simp add: fleet_run_defs)

lemma reach_in_turn: "fleet_reach {0} in_turn"
  unfolding in_turn_def by (intro reach_send_first reach_take_batch reach_committed) simp_all

lemma reach_overtaken: "fleet_reach {0} overtaken"
proof -
  let ?s = "send_first 0 (take_batch 0 10 (ending 2 True (two_rows 1 2)))"
  let ?p = "\<lparr>ps_batch = {2}, ps_todo = [], ps_ids = [2]\<rparr>"
  have s: "fleet_reach {0} ?s" by (intro reach_send_first reach_take_batch reach_committed) simp_all
  have p: "fl_pass ?s 0 = Some ?p" by (simp add: fleet_run_defs)
  have "fleet_reach {0} (marking 0 zero_time ?p ?s)" by (rule reach_finish [OF s _ p]) simp_all
  moreover have "1 \<notin> fl_ended (marking 0 zero_time ?p ?s)" by (simp add: fleet_run_defs)
  ultimately show ?thesis
    unfolding overtaken_def by (intro reach_send_first reach_take_batch, intro reach_end) simp_all
qed

lemma reach_side_by_side: "fleet_reach {0, 1} side_by_side"
  unfolding side_by_side_def by (intro reach_send_first reach_take_batch reach_committed) simp_all

text \<open>
  C40. Order across transactions is not kept: with one relay and no fault at all, of two events
  of a tenant whose transactions overlapped the one staged later can be published first, because
  ids are drawn at the insert and seen at the commit; and two relays can publish the events of
  one transaction in the wrong order.
\<close>

theorem events_overtake:
  "(\<exists>s. fleet_reach {0} s \<and> fl_lost s = {} \<and> map fst (fl_log s) = [2, 1] \<and> map o_key (fl_rows s) = [''t'', ''t'']) \<and>
   (\<exists>s. fleet_reach {0, 1} s \<and> fl_lost s = {} \<and> map fst (fl_log s) = [2, 1] \<and> fl_tx s 1 = fl_tx s 2)"
proof (rule conjI; rule exI)
  show "fleet_reach {0} overtaken \<and> fl_lost overtaken = {} \<and> map fst (fl_log overtaken) = [2, 1] \<and>
      map o_key (fl_rows overtaken) = [''t'', ''t'']"
    by (intro conjI reach_overtaken overtaken_facts)
  show "fleet_reach {0, 1} side_by_side \<and> fl_lost side_by_side = {} \<and> map fst (fl_log side_by_side) = [2, 1] \<and>
      fl_tx side_by_side 1 = fl_tx side_by_side 2"
    by (intro conjI reach_side_by_side side_by_side_facts)
qed

theorem fleet_exact_witness:
  "\<exists>s. fleet_reach {0, 1} s \<and> length (fl_log s) = 2 \<and> (\<forall>i. count_list (map fst (fl_log s)) i \<le> 1)"
proof -
  have "length (fl_log side_by_side) = 2" using arg_cong [OF side_by_side_facts(1), of length] by simp
  with fleet_exact [OF reach_side_by_side] side_by_side_facts(2) reach_side_by_side show ?thesis by auto
qed

theorem fleet_order_witness:
  "\<exists>s k. fleet_reach {0} s \<and> map fst (fl_log s) = [1, 2] \<and> k < 1 \<and> fst (fl_log s ! k) = 1"
proof -
  have len: "1 < length (fl_log in_turn)" using arg_cong [OF in_turn_facts(1), of length] by simp
  have "fst (fl_log in_turn ! 1) = map fst (fl_log in_turn) ! 1" using len by simp
  then have snd: "fst (fl_log in_turn ! 1) = 2" by (simp add: in_turn_facts)
  have "1 \<in> set (map o_id (fl_rows in_turn))" unfolding in_turn_facts by simp
  then obtain q where q: "q \<in> set (fl_rows in_turn)" "o_id q = 1" by auto
  from fleet_order [OF reach_in_turn len q(1)] q(2) snd in_turn_facts obtain k where k: "k < 1" "fst (fl_log in_turn ! k) = 1" by auto
  show ?thesis
    by (intro exI [of _ in_turn] exI [of _ k] conjI reach_in_turn in_turn_facts) fact+
qed

end
