(* ===== verification/VisibleOrder.thy ===== *)
theory VisibleOrder
  imports Relays
begin

text \<open>
  What a single relay keeps of the order of the outbox (services/outbox-relay/main.go, the comment
  on \<open>drainBatch\<close>) when transactions overlap: ids may become visible in any order, but once a row
  is visible no pass that begins later sends an event with a larger id before it. And the simpler
  system of theory OutboxRelay, where ids become visible in order, is the part of this one in
  which transactions do not overlap and passes are not interrupted.
\<close>

section \<open>Rows visible between two passes\<close>

text \<open>\<open>V\<close> are the ids visible at that time, \<open>n\<close> how many messages had been sent, \<open>r\<close> is the relay.\<close>

definition log_after :: "int set \<Rightarrow> nat \<Rightarrow> fleet \<Rightarrow> bool" where
  "log_after V n s \<longleftrightarrow> (\<forall>j i. n \<le> j \<longrightarrow> j < length (fl_log s) \<longrightarrow> i \<in> V \<longrightarrow> i < fst (fl_log s ! j) \<longrightarrow>
     i \<in> fst ` set (take j (fl_log s)))"

definition todo_after :: "int set \<Rightarrow> nat \<Rightarrow> fleet \<Rightarrow> bool" where
  "todo_after V r s \<longleftrightarrow> (\<forall>p j i. fl_pass s r = Some p \<longrightarrow> j < length (ps_todo p) \<longrightarrow> i \<in> V \<longrightarrow> i < o_id (ps_todo p ! j) \<longrightarrow>
     i \<in> fst ` set (fl_log s) \<or> (\<exists>k < j. o_id (ps_todo p ! k) = i))"

definition visible_inv :: "int set \<Rightarrow> nat \<Rightarrow> nat \<Rightarrow> fleet \<Rightarrow> bool" where
  "visible_inv V n r s \<longleftrightarrow> V \<subseteq> o_id ` set (fl_rows s) \<and> log_after V n s \<and> todo_after V r s"

lemma log_after_snoc:
  assumes "log_after V n s" "fl_log s' = fl_log s @ [m]" "\<And>i. i \<in> V \<Longrightarrow> i < fst m \<Longrightarrow> i \<in> fst ` set (fl_log s)"
  shows "log_after V n s'"
  unfolding log_after_def
proof (intro allI impI)
  fix j i assume j: "n \<le> j" "j < length (fl_log s')" and i: "i \<in> V" "i < fst (fl_log s' ! j)"
  show "i \<in> fst ` set (take j (fl_log s'))"
  proof (cases "j < length (fl_log s)")
    case True
    with assms(1) j(1) i show ?thesis by (auto simp: log_after_def assms(2) nth_append)
  next
    case False
    with j(2) have "j = length (fl_log s)" by (simp add: assms(2))
    with i assms(3) show ?thesis by (simp add: assms(2))
  qed
qed

lemma todo_after_send:
  assumes "todo_after V r s" "fl_pass s r = Some p" "ps_todo p = q # todo" "fl_pass s' = (fl_pass s)(r \<mapsto> p')"
    "set (fl_log s) \<subseteq> set (fl_log s')" "ps_todo p' = [] \<or> ps_todo p' = todo \<and> o_id q \<in> fst ` set (fl_log s')"
  shows "todo_after V r s'"
  unfolding todo_after_def
proof (intro allI impI)
  fix p1 j i assume "fl_pass s' r = Some p1" and j: "j < length (ps_todo p1)" and i: "i \<in> V" "i < o_id (ps_todo p1 ! j)"
  with assms(4) have p1: "p1 = p'" by simp
  with j assms(6) have todo: "ps_todo p' = todo" "o_id q \<in> fst ` set (fl_log s')" by auto
  then have "Suc j < length (ps_todo p)" "i < o_id (ps_todo p ! Suc j)" using j i(2) p1 assms(3) by simp_all
  with assms(1,2) i(1) consider "i \<in> fst ` set (fl_log s)" | k where "k < Suc j" "o_id (ps_todo p ! k) = i"
    unfolding todo_after_def by blast
  then show "i \<in> fst ` set (fl_log s') \<or> (\<exists>k < j. o_id (ps_todo p1 ! k) = i)"
  proof cases
    case 1
    with assms(5) show ?thesis by blast
  next
    case (2 k)
    with todo p1 assms(3) show ?thesis by (cases k) auto
  qed
qed

lemma visible_step:
  assumes "fleet_step {r} s s'" "fleet_inv s" "dom (fl_pass s) \<subseteq> {r}" "visible_inv V n r s"
  shows "visible_inv V n r s'"
proof -
  from assms(2) have inv: "rows_inv s" "log_inv s" by (simp_all add: fleet_inv_def)
  from assms(4) have V: "V \<subseteq> o_id ` set (fl_rows s)" and log: "log_after V n s" and todo: "todo_after V r s"
    by (simp_all add: visible_inv_def)
  from assms(1) show ?thesis
  proof (cases rule: fleet_step.cases)
    case (select r' b batch)
    have "todo_after V r (locking r batch s)"
      unfolding todo_after_def
    proof (intro allI impI)
      fix p j i assume p: "fl_pass (locking r batch s) r = Some p" and j: "j < length (ps_todo p)" "i \<in> V" "i < o_id (ps_todo p ! j)"
      then have batch: "ps_todo p = batch" by (auto simp: locking_def)
      from V j(2) obtain q where q: "q \<in> set (fl_rows s)" "o_id q = i" by auto
      show "i \<in> fst ` set (fl_log (locking r batch s)) \<or> (\<exists>k < j. o_id (ps_todo p ! k) = i)"
      proof (cases "q \<in> set (pending (fl_rows s))")
        case True
        have "\<forall>i. \<not> held s i" using assms(3) select(2,3) by (auto simp: held_def)
        moreover have "distinct (map o_id (fl_rows s))" using inv(1) by (simp add: rows_inv_def)
        ultimately show ?thesis using selected_first [OF select(4) _ _ _ True] j q(2) batch by auto
      next
        case False
        with q have "marked s i" by (auto simp: marked_def pending_def)
        with inv(2) show ?thesis unfolding log_inv_def by (auto simp: locking_def)
      qed
    qed
    with V log select(1,2) show ?thesis by (simp add: visible_inv_def log_after_def locking_def)
  next
    case (send r' p q rest w inject)
    then have p: "fl_pass s r = Some p" by simp
    have head: "i \<in> fst ` set (fl_log s)" if "i \<in> V" "i < o_id q" for i
      using todo p send(4) that by (fastforce simp: todo_after_def)
    show ?thesis
    proof (cases w)
      case WriteOk
      have "log_after V n s'" by (rule log_after_snoc [OF log, where m = "sent inject q"]) (use head send(1) WriteOk in simp_all)
      moreover have "todo_after V r s'"
        by (rule todo_after_send [OF todo p send(4), where p' = "p\<lparr>ps_todo := rest, ps_ids := ps_ids p @ [o_id q]\<rparr>"])
          (use send(1,2) WriteOk in \<open>auto simp: sent_def\<close>)
      ultimately show ?thesis using V send(1) WriteOk by (simp add: visible_inv_def)
    next
      case WriteFail
      have "todo_after V r s'" by (rule todo_after_send [OF todo p send(4), where p' = "p\<lparr>ps_todo := []\<rparr>"])
          (use send(1,2) WriteFail in simp_all)
      then show ?thesis using V log send(1) WriteFail by (simp add: visible_inv_def log_after_def)
    next
      case WriteLost
      have "log_after V n s'" by (rule log_after_snoc [OF log, where m = "sent inject q"]) (use head send(1) WriteLost in simp_all)
      moreover have "todo_after V r s'" by (rule todo_after_send [OF todo p send(4), where p' = "p\<lparr>ps_todo := []\<rparr>"])
          (use send(1,2) WriteLost in auto)
      ultimately show ?thesis using V send(1) WriteLost by (simp add: visible_inv_def)
    qed
  next
    case (finish r' p now)
    have "map o_id (fl_rows s') = map o_id (fl_rows s)" by (simp add: finish(1) marking_def)
    then have "o_id ` set (fl_rows s') = o_id ` set (fl_rows s)" by (metis list.set_map)
    with V log finish(1,2) show ?thesis by (simp add: visible_inv_def log_after_def todo_after_def marking_def)
  qed (use V log todo in \<open>auto simp: visible_inv_def log_after_def todo_after_def inserting_def ending_def unmarking_def\<close>)
qed

lemma visible_run:
  assumes "(fleet_step {r})\<^sup>*\<^sup>* s s'" "fleet_reach {r} s" "visible_inv V n r s"
  shows "fleet_reach {r} s' \<and> visible_inv V n r s'"
  using assms
proof (induction rule: rtranclp_induct)
  case (step s1 s2)
  then have r: "fleet_reach {r} s1" and v: "visible_inv V n r s1" by simp_all
  from visible_step [OF step(2) fleet_reach_inv [OF r] _ v] fleet_reach_order [OF r] fleet_reach.step [OF r step(2)]
  show ?case by blast
qed simp

text \<open>
  C9. Order of what is visible: let a row be committed at a time when the only relay is between
  two passes. Then, whatever fails and however transactions overlap afterwards, no event with a
  larger id is sent from that time on before the row's own event has been sent at least once. An
  event can only be overtaken while its row is not yet visible.
\<close>

theorem visible_in_order:
  assumes "fleet_reach {r} s" "fl_pass s r = None" "(fleet_step {r})\<^sup>*\<^sup>* s s'" "q \<in> set (fl_rows s)"
    "length (fl_log s) \<le> j" "j < length (fl_log s')" "o_id q < fst (fl_log s' ! j)"
  shows "\<exists>k < j. fst (fl_log s' ! k) = o_id q"
proof -
  have "visible_inv (o_id ` set (fl_rows s)) (length (fl_log s)) r s"
    using assms(2) by (simp add: visible_inv_def log_after_def todo_after_def)
  with visible_run [OF assms(3,1)] have "log_after (o_id ` set (fl_rows s)) (length (fl_log s)) s'"
    by (simp add: visible_inv_def)
  with assms(4-7) have "o_id q \<in> fst ` set (take j (fl_log s'))" unfolding log_after_def by blast
  then show ?thesis by (auto simp: in_set_conv_nth) (metis fst_conv)
qed

text \<open>Two rows of one transaction, committed before the relay's first pass.\<close>

lemma steps_send_first: "(fleet_step {r})\<^sup>*\<^sup>* s (send_first r s)"
  using fleet_step.send [of r "{r}" s _ _ _ WriteOk "\<lambda>_. Map.empty"] unfolding send_first_def
  by (auto split: option.split list.split simp del: writing.simps)

lemma steps_take_batch: "(fleet_step {r})\<^sup>*\<^sup>* s (take_batch r n s)"
  unfolding take_batch_def by (auto split: option.split intro: fleet_step.select)

theorem visible_in_order_witness:
  "\<exists>s k. fleet_reach {0} s \<and> fl_log s = [] \<and> (fleet_step {0})\<^sup>*\<^sup>* s in_turn \<and> map fst (fl_log in_turn) = [1, 2] \<and>
     k < 1 \<and> fst (fl_log in_turn ! k) = 1"
proof -
  let ?s = "ending 1 True (two_rows 1 1)"
  have reach: "fleet_reach {0} ?s" by (intro reach_committed) simp
  have s: "fl_pass ?s 0 = None" "fl_log ?s = []" "map o_id (fl_rows ?s) = [1, 2]" by (simp_all add: fleet_run_defs)
  have steps: "(fleet_step {0})\<^sup>*\<^sup>* ?s in_turn"
    unfolding in_turn_def by (intro rtranclp_trans [OF _ steps_send_first] steps_take_batch)
  have len: "1 < length (fl_log in_turn)" using arg_cong [OF in_turn_facts(1), of length] by simp
  have "fst (fl_log in_turn ! 1) = map fst (fl_log in_turn) ! 1" using len by simp
  then have snd: "fst (fl_log in_turn ! 1) = 2" by (simp add: in_turn_facts)
  have "1 \<in> set (map o_id (fl_rows ?s))" unfolding s(3) by simp
  then obtain q where q: "q \<in> set (fl_rows ?s)" "o_id q = 1" by auto
  from visible_in_order [OF reach s(1) steps q(1) _ len] s(2) q(2) snd
  obtain k where "k < 1" "fst (fl_log in_turn ! k) = 1" by auto
  with reach s(2) steps in_turn_facts(1) show ?thesis by (intro exI [of _ ?s] exI [of _ k] conjI)
qed

section \<open>Transactions one at a time\<close>

text \<open>
  Every run of \<open>relay_step\<close> is one of \<open>fleet_step\<close>: a pass is an uninterrupted one (\<open>pass_of_drain\<close>),
  staged rows are inserted and committed by a transaction of their own, and the ids left out by
  another that never commits.
\<close>

definition skipping :: "fleet \<Rightarrow> fleet" where
  "skipping f = inserting 0 ((sample_row 0)\<lparr>o_id := fl_seq f\<rparr>) f"

lemma steps_skipping:
  assumes "0 \<notin> fl_ended f" "fl_seq f + int k = n"
  shows "\<exists>f'. (fleet_step R)\<^sup>*\<^sup>* f f' \<and> fl_seq f' = n \<and> fl_rows f' = fl_rows f \<and> fl_log f' = fl_log f \<and> fl_pass f' = fl_pass f \<and>
    fl_ended f' = fl_ended f \<and> (\<forall>x. x \<noteq> 0 \<longrightarrow> fl_open f' x = fl_open f x)"
  using assms
proof (induction k arbitrary: f)
  case 0
  then show ?case by (intro exI [of _ f]) simp
next
  case (Suc k)
  have "fleet_step R f (skipping f)"
    unfolding skipping_def using Suc.prems(1) by (intro fleet_step.insert) (simp_all add: sample_row_def)
  moreover obtain f' where "(fleet_step R)\<^sup>*\<^sup>* (skipping f) f'" "fl_seq f' = n" "fl_rows f' = fl_rows f" "fl_log f' = fl_log f"
    "fl_pass f' = fl_pass f" "fl_ended f' = fl_ended f" "\<forall>x. x \<noteq> 0 \<longrightarrow> fl_open f' x = fl_open f x"
    using Suc.IH [of "skipping f"] Suc.prems by (auto simp: skipping_def inserting_def)
  ultimately show ?case by (intro exI [of _ f'] conjI) (rule converse_rtranclp_into_rtranclp)
qed

lemma steps_inserting:
  assumes "0 \<notin> fl_ended f" "x \<notin> fl_ended f" "x \<noteq> 0" "sorted_wrt (<) (map o_id new)" "fl_seq f \<le> n"
    "\<forall>q \<in> set new. fl_seq f \<le> o_id q \<and> o_id q < n \<and> o_published q = None"
  shows "\<exists>f'. (fleet_step R)\<^sup>*\<^sup>* f f' \<and> fl_seq f' = n \<and> fl_rows f' = fl_rows f \<and> fl_log f' = fl_log f \<and> fl_pass f' = fl_pass f \<and>
    fl_ended f' = fl_ended f \<and> fl_open f' x = fl_open f x @ new \<and> (\<forall>y. y \<noteq> 0 \<longrightarrow> y \<noteq> x \<longrightarrow> fl_open f' y = fl_open f y)"
  using assms
proof (induction new arbitrary: f)
  case Nil
  obtain k where "fl_seq f + int k = n" using Nil.prems(5) zle_iff_zadd by auto
  with steps_skipping [of f k n R] Nil.prems(1,3) show ?case by auto
next
  case (Cons q new)
  obtain k where "fl_seq f + int k = o_id q" using Cons.prems(6) zle_iff_zadd by fastforce
  with steps_skipping [of f k "o_id q" R] Cons.prems(1,3) obtain f1 where
    f1: "(fleet_step R)\<^sup>*\<^sup>* f f1" "fl_seq f1 = o_id q" "fl_rows f1 = fl_rows f" "fl_log f1 = fl_log f" "fl_pass f1 = fl_pass f"
      "fl_ended f1 = fl_ended f" "fl_open f1 x = fl_open f x" "\<forall>y. y \<noteq> 0 \<longrightarrow> y \<noteq> x \<longrightarrow> fl_open f1 y = fl_open f y" by auto
  let ?f2 = "inserting x q f1"
  have ins: "fleet_step R f1 ?f2" using f1 Cons.prems(2,6) by (intro fleet_step.insert) simp_all
  have "0 \<notin> fl_ended ?f2" "x \<notin> fl_ended ?f2" "sorted_wrt (<) (map o_id new)" "fl_seq ?f2 \<le> n"
    "\<forall>q \<in> set new. fl_seq ?f2 \<le> o_id q \<and> o_id q < n \<and> o_published q = None"
    using Cons.prems f1 by (auto simp: inserting_def)
  from Cons.IH [OF this(1,2) Cons.prems(3) this(3-5)] obtain f' where
    f': "(fleet_step R)\<^sup>*\<^sup>* ?f2 f'" "fl_seq f' = n" "fl_rows f' = fl_rows ?f2" "fl_log f' = fl_log ?f2" "fl_pass f' = fl_pass ?f2"
      "fl_ended f' = fl_ended ?f2" "fl_open f' x = fl_open ?f2 x @ new"
      "\<forall>y. y \<noteq> 0 \<longrightarrow> y \<noteq> x \<longrightarrow> fl_open f' y = fl_open ?f2 y" by blast
  have "(fleet_step R)\<^sup>*\<^sup>* f f'" using f1(1) ins f'(1) by (meson rtranclp_trans converse_rtranclp_into_rtranclp)
  with f' f1 show ?case by (intro exI [of _ f']) (simp add: inserting_def)
qed

definition fleet_of :: "relay_state \<Rightarrow> fleet \<Rightarrow> bool" where
  "fleet_of s f \<longleftrightarrow> fl_rows f = rl_rows s \<and> fl_seq f = rl_seq s \<and> fl_log f = rl_log s \<and> fl_pass f = Map.empty \<and>
     0 \<notin> fl_ended f \<and> finite (fl_ended f) \<and> (\<forall>x. x \<noteq> 0 \<longrightarrow> fl_open f x = [])"

lemma fleet_reach_run: "fleet_reach R f \<Longrightarrow> (fleet_step R)\<^sup>*\<^sup>* f f' \<Longrightarrow> fleet_reach R f'"
  by (rotate_tac, induction rule: rtranclp_induct) (auto intro: fleet_reach.step)

lemma relay_is_fleet:
  assumes "relay_reach s" shows "\<exists>f. fleet_reach {0} f \<and> fleet_of s f"
  using assms
proof (induction rule: relay_reach.induct)
  case (start n)
  have "fleet_of \<lparr>rl_rows = [], rl_seq = n, rl_log = []\<rparr> (fleet_start n)" by (simp add: fleet_of_def fleet_start_def)
  then show ?case using fleet_reach.start by blast
next
  case (step s s')
  then obtain f where f: "fleet_reach {0} f" "fleet_of s f" by blast
  from step.hyps(2) show ?case
  proof (cases rule: relay_stepE)
    case (stage n new)
    obtain x where x: "x \<notin> insert 0 (fl_ended f)"
      using ex_new_if_finite [of "insert 0 (fl_ended f)"] f(2) by (auto simp: fleet_of_def infinite_UNIV_nat)
    with stage f(2) obtain f1 where f1: "(fleet_step {0})\<^sup>*\<^sup>* f f1" "fl_seq f1 = n" "fl_rows f1 = fl_rows f" "fl_log f1 = fl_log f"
      "fl_pass f1 = fl_pass f" "fl_ended f1 = fl_ended f" "fl_open f1 x = new"
      "\<forall>y. y \<noteq> 0 \<longrightarrow> y \<noteq> x \<longrightarrow> fl_open f1 y = []"
      using steps_inserting [of f x new n "{0}"] by (auto simp: fleet_of_def)
    have "fleet_step {0} f1 (ending x True f1)" using x f1(6) by (intro fleet_step.end_tx) simp
    with f1(1) have "fleet_reach {0} (ending x True f1)" using fleet_reach_run [OF f(1)] fleet_reach.step by blast
    moreover have "fleet_of s' (ending x True f1)"
      using f1 f(2) x stage by (simp add: fleet_of_def ending_def)
    ultimately show ?thesis by blast
  next
    case (drain env batchSize r rows' msgs)
    have "dr_locked env = held f" using drain(3) f(2) by (auto simp: fleet_of_def held_def)
    with drain f(2) pass_of_drain [of env batchSize f r rows' msgs 0 "{0}"] obtain f' where
      "(fleet_step {0})\<^sup>*\<^sup>* f f'" "fl_rows f' = rows'" "fl_log f' = fl_log f @ msgs" "fl_pass f' = fl_pass f"
      "fl_seq f' = fl_seq f" "fl_ended f' = fl_ended f" "fl_open f' = fl_open f" by (auto simp: fleet_of_def)
    with f fleet_reach_run [OF f(1)] drain(1) show ?thesis by (intro exI [of _ f']) (simp add: fleet_of_def)
  qed
qed

end
