(* ===== verification/LateEvents.thy ===== *)
theory LateEvents
  imports Ledger
begin

text \<open>
  The order of arrival decides (services/normalizer/main.go): what a work item's row says after a
  delivery is what that delivery says, whatever the row said before and whenever the event
  happened. Nothing reads the \<open>occurred-at\<close> header the enrichment stage stamps.
\<close>

section \<open>Items of a ledger\<close>

lemma record_events_items [simp]: "lg_items (record_events tenant specs a) = lg_items a"
  by (simp add: record_events_def)

lemma ledger_persist_items: "lg_items (ledger_persist tenant res a) = lg_items (fold (ledger_item tenant) (rs_WorkItems res) a)"
proof -
  have "lg_items (fold (ledger_review tenant pars) rvs b) = lg_items b" for pars rvs b
    by (induction rvs arbitrary: b) (simp_all add: ledger_review_def split: option.split)
  moreover have "lg_items (fold (ledger_check tenant) crs b) = lg_items b" for crs b
    by (induction crs arbitrary: b) (simp_all add: ledger_check_def)
  ultimately show ?thesis by (simp add: ledger_persist_def)
qed

text \<open>The part of an item that a delivery with an event sets.\<close>

definition shows_item :: "work_item \<Rightarrow> item_fact \<Rightarrow> bool" where
  "shows_item wi f \<longleftrightarrow>
     if_title f = wi_Title wi \<and> if_status f = wi_Status wi \<and> if_stage f = wi_CurrentStage wi \<and>
     if_merged f = map_option pg_time (wi_MergedAt wi) \<and> if_closed f = map_option pg_time (wi_ClosedAt wi)"

lemma ledger_deliver_shows:
  assumes "rs_WorkItems res = [wi]" "wi_Event wi \<noteq> []" "(tenant, d) \<notin> lg_deliveries a"
  shows "\<exists>f. lg_items (ledger_deliver tenant d res a) (item_id tenant wi) = Some f \<and> shows_item wi f"
  using assms
  by (auto simp: ledger_deliver_def ledger_persist_items ledger_item_def refresh_item_def new_item_def shows_item_def
      split: option.split)

section \<open>The last delivery wins\<close>

text \<open>
  C5. The last delivery to be processed decides a work item: after a successful run for a
  delivery not seen before, whose result is one item with an event (a pull request or an issue),
  the row of that item has the title, status, stage, merge and close time of this delivery,
  whatever it had before and whatever times the two events carry. A late event puts a merged
  pull request back to open.
\<close>

theorem late_delivery_wins:
  assumes "process Normalize env fault msg db = (Inr (), db')" "quiet env" "represents (db_tabs db) a"
    "target msg db = Some (res, tenant)" "rs_WorkItems res = [wi]" "wi_Event wi \<noteq> []"
    "\<not> delivered tenant (delivery_of msg) (db_tabs db)"
  shows "\<exists>w. find_row item_key (tenant, wi_Repo wi, wi_Type wi, wi_NodeID wi) (t_items (db_tabs db')) = Some w \<and>
    w_title w = wi_Title wi \<and> w_status w = wi_Status wi \<and> w_stage w = wi_CurrentStage wi \<and>
    w_merged w = map_option pg_time (wi_MergedAt wi) \<and> w_closed w = map_option pg_time (wi_ClosedAt wi)"
proof -
  have rep: "represents (db_tabs db') (ledger_deliver tenant (delivery_of msg) res a)"
    using message_refines [OF assms(1-3)] by (simp add: ledger_message_target assms(4))
  have "(tenant, delivery_of msg) \<notin> lg_deliveries a"
    using representsD(6) [OF assms(3)] assms(7) by (simp add: delivered_def)
  from ledger_deliver_shows [OF assms(5,6) this] obtain f where
    "lg_items (ledger_deliver tenant (delivery_of msg) res a) (item_id tenant wi) = Some f" "shows_item wi f" by blast
  with representsD(1) [OF rep, of "item_id tenant wi"] show ?thesis
    by (auto simp: item_id_def shows_item_def item_fact_def)
qed

section \<open>A sample\<close>

text \<open>The row of a merged pull request, and an edit made before the merge that arrives after it.\<close>

definition merged_row :: work_item_row where
  "merged_row =
     \<lparr>w_tenant = acme, w_id = ''w-1'', w_type = ''pr'', w_repo = ''acme/app'', w_node = ''PR_2'', w_number = 99,
      w_title = ''Merge me'', w_status = ''merged'', w_stage = ''merged'', w_author = ''bob'', w_changed = 7,
      w_additions = 210, w_deletions = 64, w_created = zero_time, w_merged = Some zero_time,
      w_closed = Some zero_time, w_updated = zero_time\<rparr>"

definition late_db :: database where
  "late_db = sample_db\<lparr>db_tabs := no_tables\<lparr>t_items := [merged_row]\<rparr>\<rparr>"

definition late_edit :: bytes where
  \<open>late_edit = ''{"action":"edited","number":99,
     "pull_request":{"node_id":"PR_2","title":"Merge","state":"open",
       "created_at":"2026-06-10T09:00:00Z","user":{"login":"bob"}},
     "repository":{"full_name":"acme/app"},"installation":{"id":42424242}}''\<close>

abbreviation late_msg :: message where
  "late_msg \<equiv> sample_msg ''pull_request'' late_edit"

lemma late_represents: "represents (db_tabs late_db)
    (empty_ledger\<lparr>lg_items := (\<lambda>k. map_option item_fact (find_row item_key k [merged_row]))\<rparr>)"
  by (rule representsI) (simp_all add: late_db_def no_tables_def empty_ledger_def)

lemma late_result:
  obtains res wi where "target late_msg late_db = Some (res, acme)" "rs_WorkItems res = [wi]" "wi_Event wi \<noteq> []"
    "wi_Repo wi = ''acme/app''" "wi_Type wi = ''pr''" "wi_NodeID wi = ''PR_2''" "wi_CurrentStage wi = ''open''"
proof -
  have "(case Normalize (raw_of (sample_env never) late_msg) of Inl _ \<Rightarrow> False
    | Inr r \<Rightarrow> (\<not> rs_Skip r \<and> \<not> result_empty r \<and> rs_InstallationID r = 42424242) \<and>
        map (\<lambda>wi. (wi_Event wi \<noteq> [], wi_Repo wi, wi_Type wi, wi_NodeID wi, wi_CurrentStage wi)) (rs_WorkItems r) =
          [(True, ''acme/app'', ''pr'', ''PR_2'', ''open'')])" by code_simp
  then obtain r where r: "normalize_msg (sample_env never) late_msg = Inr r"
    "\<not> rs_Skip r \<and> \<not> result_empty r \<and> rs_InstallationID r = 42424242"
    "map (\<lambda>wi. (wi_Event wi \<noteq> [], wi_Repo wi, wi_Type wi, wi_NodeID wi, wi_CurrentStage wi)) (rs_WorkItems r) =
          [(True, ''acme/app'', ''pr'', ''PR_2'', ''open'')]" by (auto split: sum.splits)
  then have "target late_msg late_db = Some (r, acme)"
    using normalize_msg_env [of "sample_env never" late_msg undefined] by (simp add: target_def late_db_def sample_db_def)
  with r(3) that [of r] show ?thesis by (cases "rs_WorkItems r") auto
qed

lemma late_ok: "is_ok (fst (process Normalize (sample_env never) False late_msg late_db))"
  by code_simp

theorem late_delivery_wins_witness:
  "\<exists>db' w. process Normalize (sample_env never) False late_msg late_db = (Inr (), db') \<and>
     map w_stage (t_items (db_tabs late_db)) = [''merged''] \<and>
     find_row item_key (acme, ''acme/app'', ''pr'', ''PR_2'') (t_items (db_tabs db')) = Some w \<and> w_stage w = ''open''"
proof (rule late_result)
  fix res wi assume t: "target late_msg late_db = Some (res, acme)" "rs_WorkItems res = [wi]" "wi_Event wi \<noteq> []"
    and wi: "wi_Repo wi = ''acme/app''" "wi_Type wi = ''pr''" "wi_NodeID wi = ''PR_2''" "wi_CurrentStage wi = ''open''"
  obtain db' where r: "process Normalize (sample_env never) False late_msg late_db = (Inr (), db')"
    using late_ok by (cases "process Normalize (sample_env never) False late_msg late_db";
      cases "fst (process Normalize (sample_env never) False late_msg late_db)") (auto simp: is_ok_def)
  have "\<not> delivered acme (delivery_of late_msg) (db_tabs late_db)"
    by (simp add: delivered_def late_db_def no_tables_def)
  from late_delivery_wins [OF r sample_quiet(1) late_represents t this] wi obtain w where w:
    "find_row item_key (acme, ''acme/app'', ''pr'', ''PR_2'') (t_items (db_tabs db')) = Some w" "w_stage w = ''open''" by auto
  have "map w_stage (t_items (db_tabs late_db)) = [''merged'']" by (simp add: late_db_def merged_row_def)
  with r w show ?thesis by (intro exI [of _ db'] exI [of _ w] conjI)
qed

end
