(* ===== verification/References.thy ===== *)
theory References
  imports Platform
begin

text \<open>
  References between rows. The schema (db/migrations) declares no foreign key from a review to its
  work item and its reviewer, nor from an identity link to its contributor, so that every id
  leads to a row, and to one of the same tenant, is up to \<open>persist\<close> and \<open>resolveContributor\<close>
  (services/normalizer/main.go).
\<close>

section \<open>In the ledger\<close>

text \<open>Each review names an item and a person of its own tenant that the ledger has.\<close>

definition review_grounded :: "ledger \<Rightarrow> string \<times> string \<Rightarrow> review_fact \<Rightarrow> bool" where
  "review_grounded a k f \<longleftrightarrow>
     fst (vf_item f) = fst k \<and> lg_items a (vf_item f) \<noteq> None \<and> (fst k, vf_reviewer f) \<in> lg_people a"

definition grounded :: "ledger \<Rightarrow> bool" where
  "grounded a \<longleftrightarrow> (\<forall>k f. lg_reviews a k = Some f \<longrightarrow> review_grounded a k f)"

text \<open>Items and people are never taken away.\<close>

definition covers :: "ledger \<Rightarrow> ledger \<Rightarrow> bool" where
  "covers a b \<longleftrightarrow> dom (lg_items a) \<subseteq> dom (lg_items b) \<and> lg_people a \<subseteq> lg_people b"

lemma review_grounded_mono: "covers a b \<Longrightarrow> review_grounded a k f \<Longrightarrow> review_grounded b k f"
  by (auto simp: covers_def review_grounded_def)

lemma grounded_same_reviews:
  assumes "grounded a" "covers a b" "lg_reviews b = lg_reviews a" shows "grounded b"
  using assms review_grounded_mono unfolding grounded_def by simp

lemma covers_item: "covers a (ledger_item tenant wi a)"
  by (auto simp: covers_def ledger_item_def record_events_def)

lemma covers_trans: "covers a b \<Longrightarrow> covers b c \<Longrightarrow> covers a c"
  unfolding covers_def by blast

lemma covers_items: "covers a (fold (ledger_item tenant) wis a)"
proof (induction wis arbitrary: a)
  case (Cons wi wis)
  from covers_trans [OF covers_item Cons.IH] show ?case by simp
qed (simp add: covers_def)

lemma item_kept: "covers a b \<Longrightarrow> lg_items a k \<noteq> None \<Longrightarrow> lg_items b k \<noteq> None"
  by (auto simp: covers_def)

lemma items_present: "wi \<in> set wis \<Longrightarrow> lg_items (fold (ledger_item tenant) wis a) (item_id tenant wi) \<noteq> None"
proof (induction wis arbitrary: a)
  case (Cons wi' wis)
  show ?case
  proof (cases "wi = wi'")
    case True
    have "lg_items (ledger_item tenant wi a) (item_id tenant wi) \<noteq> None" by (simp add: ledger_item_def record_events_def)
    with item_kept [OF covers_items this] True show ?thesis by simp
  next
    case False
    with Cons show ?thesis by simp
  qed
qed simp

lemma parents_item: "parents tenant wis n = Some i \<Longrightarrow> \<exists>wi \<in> set wis. i = item_id tenant wi"
  unfolding parents_def by (drule map_of_SomeD) auto

lemma items_reviews: "lg_reviews (fold (ledger_item tenant) wis a) = lg_reviews a"
  by (induction wis arbitrary: a) (simp_all add: ledger_item_def record_events_def)

lemma grounded_review:
  assumes "grounded a" "\<And>n i. pars n = Some i \<Longrightarrow> fst i = tenant \<and> lg_items a i \<noteq> None"
  shows "grounded (ledger_review tenant pars rv a) \<and> lg_items (ledger_review tenant pars rv a) = lg_items a"
proof (cases "pars (rv_PRNodeID rv) = None \<or> rv_ReviewerLogin rv = []")
  case True
  then have "ledger_review tenant pars rv a = a" by (auto simp: ledger_review_def split: option.split)
  with assms(1) show ?thesis by simp
next
  case False
  then obtain i where i: "pars (rv_PRNodeID rv) = Some i" by auto
  let ?b = "ledger_review tenant pars rv a" and ?k = "(tenant, rv_SourceID rv)"
  have b: "?b = record_events tenant (review_specs rv)
      (with_review ?k (new_review i rv) (with_person tenant (rv_ReviewerLogin rv) a))"
    using False i by (simp add: ledger_review_def)
  have ext: "covers a ?b" by (auto simp: b covers_def record_events_def)
  have "review_grounded ?b k f" if "lg_reviews ?b k = Some f" for k f
  proof (cases "k = ?k")
    case False
    with that have "lg_reviews a k = Some f" by (simp add: b record_events_def)
    with assms(1) ext show ?thesis using review_grounded_mono unfolding grounded_def by blast
  next
    case True
    show ?thesis
    proof (cases "lg_reviews a ?k")
      case None
      with that True have "f = new_review i rv" by (simp add: b record_events_def)
      with True assms(2) [OF i] show ?thesis by (simp add: review_grounded_def new_review_def b record_events_def)
    next
      case (Some old)
      with that True have f: "f = refresh_review (new_review i rv) old" by (simp add: b record_events_def)
      from assms(1) Some have "review_grounded a ?k old" by (simp add: grounded_def)
      with review_grounded_mono [OF ext this] True f show ?thesis
        by (simp add: review_grounded_def refresh_review_def)
    qed
  qed
  then show ?thesis by (simp add: grounded_def) (simp add: b record_events_def)
qed

lemma grounded_reviews:
  assumes "grounded a" "\<And>n i. pars n = Some i \<Longrightarrow> fst i = tenant \<and> lg_items a i \<noteq> None"
  shows "grounded (fold (ledger_review tenant pars) rvs a)"
  using assms
proof (induction rvs arbitrary: a)
  case (Cons rv rvs)
  from grounded_review [OF Cons.prems, where rv = rv] Cons.prems(2) show ?case by (auto intro!: Cons.IH)
qed simp

lemma grounded_checks: "grounded a \<Longrightarrow> grounded (fold (ledger_check tenant) crs a)"
proof (induction crs arbitrary: a)
  case (Cons cr crs)
  have "grounded (ledger_check tenant cr a)"
    using Cons.prems by (rule grounded_same_reviews) (simp_all add: covers_def ledger_check_def record_events_def)
  then show ?case using Cons.IH by simp
qed simp

lemma grounded_persist:
  assumes "grounded a" shows "grounded (ledger_persist tenant res a)"
proof -
  let ?b = "fold (ledger_item tenant) (rs_WorkItems res) a"
  have "grounded ?b" using assms covers_items items_reviews by (rule grounded_same_reviews)
  moreover have "fst i = tenant \<and> lg_items ?b i \<noteq> None" if "parents tenant (rs_WorkItems res) n = Some i" for n i
    using parents_item [OF that] items_present by (auto simp: item_id_def)
  ultimately have "grounded (fold (ledger_check tenant) (rs_CheckRuns res)
      (fold (ledger_review tenant (parents tenant (rs_WorkItems res))) (rs_Reviews res) ?b))"
    by (intro grounded_checks grounded_reviews) auto
  then show ?thesis unfolding ledger_persist_def comp_def
    by (rule grounded_same_reviews) (simp_all add: covers_def record_events_def)
qed

lemma grounded_deliver: "grounded a \<Longrightarrow> grounded (ledger_deliver tenant d res a)"
  unfolding ledger_deliver_def
  by (auto intro!: grounded_persist elim!: grounded_same_reviews simp: covers_def)

lemma grounded_history: "grounded (history s)"
proof -
  have "grounded (fold (ledger_message m') msgs a)" if "grounded a" for m' msgs a
    using that
  proof (induction msgs arbitrary: a)
    case (Cons msg msgs)
    have "grounded (ledger_message m' msg a)"
      by (cases m' msg rule: ledger_message_cases) (use Cons.prems grounded_deliver in auto)
    then show ?case using Cons.IH by simp
  qed simp
  then show ?thesis unfolding history_def by (simp add: grounded_def empty_ledger_def)
qed

section \<open>In the tables\<close>

lemma platform_keys: "platform_reach s \<Longrightarrow> keys_unique (db_tabs (pf_db s))"
proof (induction rule: platform_reach.induct)
  case (start db)
  then show ?case by (simp add: keys_unique_def no_tables_def)
next
  case (step s s')
  from step.hyps(2) show ?case
  proof (cases rule: platform_step.cases)
    case (attempt env fault msg r db')
    then show ?thesis using run_keys_unique [OF attempt(2,3) step.IH] by simp
  next
    case (relay env batchSize r rows' msgs)
    then show ?thesis using step.IH by (simp add: keys_unique_def)
  qed
qed

text \<open>
  C20. Every reference leads somewhere, and never to another tenant: in every state the write
  side can reach, through any faults, retries and redeliveries, each review row holds the id of
  a work item row and the id of a contributor row of its own tenant, and each identity link the
  id of a contributor row of its own tenant.
\<close>

theorem references_resolve:
  assumes "platform_reach s"
  shows "(\<forall>v \<in> set (t_reviews (db_tabs (pf_db s))).
      (\<exists>w \<in> set (t_items (db_tabs (pf_db s))). w_id w = v_work_item v \<and> w_tenant w = v_tenant v) \<and>
      (\<exists>c \<in> set (t_contributors (db_tabs (pf_db s))). c_id c = v_reviewer v \<and> c_tenant c = v_tenant v)) \<and>
    (\<forall>l \<in> set (t_links (db_tabs (pf_db s))).
      \<exists>c \<in> set (t_contributors (db_tabs (pf_db s))). c_id c = i_contributor l \<and> c_tenant c = i_tenant l)"
proof (intro conjI ballI)
  let ?t = "db_tabs (pf_db s)"
  note rep = platform_represents [OF assms]
  show links: "\<exists>c \<in> set (t_contributors ?t). c_id c = i_contributor l \<and> c_tenant c = i_tenant l"
    if "l \<in> set (t_links ?t)" for l using representsD(5) [OF rep that] .
  fix v assume v: "v \<in> set (t_reviews ?t)"
  have "distinct (map review_key (t_reviews ?t))" using platform_keys [OF assms] by (simp add: keys_unique_def)
  then have "find_row review_key (review_key v) (t_reviews ?t) = Some v" using v by (rule find_row_distinct)
  with representsD(2) [OF rep, of "review_key v"] obtain f where
    f: "lg_reviews (history s) (review_key v) = Some f" "is_review (t_items ?t) (t_links ?t) v f"
    by (auto simp: option_rel_Some1)
  have tenant: "fst (vf_item f) = v_tenant v"
    using grounded_history f(1) by (fastforce simp: grounded_def review_grounded_def review_key_def)
  from f(2) obtain w where "find_row item_key (vf_item f) (t_items ?t) = Some w" "w_id w = v_work_item v"
    by (auto simp: is_review_def names_item_def)
  moreover from find_row_Some [OF this(1)] have "w \<in> set (t_items ?t)" "w_tenant w = fst (vf_item f)"
    by (auto simp: item_key_def dest: arg_cong [of _ _ fst])
  ultimately show "\<exists>w \<in> set (t_items ?t). w_id w = v_work_item v \<and> w_tenant w = v_tenant v" using tenant by auto
  from f(2) obtain l where l: "find_row link_key (v_tenant v, github_login, vf_reviewer f) (t_links ?t) = Some l"
    "i_contributor l = v_reviewer v" by (auto simp: is_review_def names_person_def)
  with find_row_Some [OF l(1)] have "l \<in> set (t_links ?t)" "i_tenant l = v_tenant v" by (auto simp: link_key_def)
  with links [OF this(1)] l(2) show "\<exists>c \<in> set (t_contributors ?t). c_id c = v_reviewer v \<and> c_tenant c = v_tenant v" by simp
qed

section \<open>A sample\<close>

text \<open>A review of a pull request no delivery has brought yet, by a reviewer seen for the first time.\<close>

definition small_review :: bytes where
  \<open>small_review = ''{"action":"submitted","review":{"node_id":"R","state":"approved","user":{"login":"c"}},
     "pull_request":{"node_id":"P"},"repository":{"full_name":"r"},"installation":{"id":42424242}}''\<close>

definition small_msg :: message where
  "small_msg = sample_msg ''pull_request_review'' small_review"

definition small_item :: work_item where
  "small_item = zero_work_item\<lparr>wi_Type := ''pr'', wi_Repo := ''r'', wi_NodeID := ''P'', wi_Status := ''open'', wi_CurrentStage := ''open''\<rparr>"

definition small_rv :: review where
  "small_rv = \<lparr>rv_SourceID = ''R'', rv_Repo = ''r'', rv_PRNodeID = ''P'', rv_ReviewerLogin = ''c'', rv_State = ''approved'',
     rv_CommentCount = 0, rv_SubmittedAt = zero_time\<rparr>"

definition small_result :: result where
  "small_result = zero_result\<lparr>rs_InstallationID := 42424242, rs_WorkItems := [small_item], rs_Reviews := [small_rv]\<rparr>"

lemmas small_defs = small_result_def small_item_def small_rv_def zero_result_def zero_work_item_def

lemma small_normalized: "Normalize (raw_of (sample_env never) small_msg) = Inr small_result"
  by code_simp

text \<open>The hash of a login is hexadecimal, so it is a text of Postgres whatever the login; it need not be computed.\<close>

lemma hex_digit_byte: "n < 16 \<Longrightarrow> 0 < byte (hex_digit n) \<and> byte (hex_digit n) < 128"
  by (simp add: hex_digit_def byte_def)

lemma hex_text: "pg_text (hex_encode s)"
proof (induction s)
  case (Cons c s)
  have "byte c div 16 < 16" "byte c mod 16 < 16" by (simp_all add: less_mult_imp_div_less byte_def)
  then show ?case
    using hex_digit_byte [of "byte c div 16"] hex_digit_byte [of "byte c mod 16"] Cons
    by (simp add: hex_encode_def pg_text_def valid_utf8.simps(2))
qed (simp add: hex_encode_def pg_text_def)

lemma hash_text: "pg_text (hashIdentifier s)"
  by (simp add: hashIdentifier_def hex_text)

lemma small_texts: "pg_text ''r''" "pg_text ''P''" "pg_text ''open''" "pg_text ''c''" "pg_text ''R''" "pg_text ''approved''"
  "pg_text []" "pg_text ''d-1''" "pg_text ''pull_request_review''" "pg_text acme" "pg_text TopicCanonical" "pg_int4 0"
  by code_simp+

lemma small_marshal:
  obtains b where "marshal_event (event_new (env_uuid (sample_env never) (Suc (Suc (Suc (Suc 0))))) acme ReviewSubmitted ''R'' zero_time
    (reviewPayload small_rv)) = Some b"
proof -
  have "marshal_event (event_new (env_uuid (sample_env never) 4) acme ReviewSubmitted ''R'' zero_time (reviewPayload small_rv)) \<noteq> None"
    by code_simp
  with that show thesis by (auto simp: numeral_eq_Suc)
qed

lemma small_env: "\<not> env_fails (sample_env never) n" "env_traceid (sample_env never) = []" "env_traceparent (sample_env never) = []"
  "env_commit (sample_env never) = CommitOk"
  by (simp_all add: sample_env_def never_def)

lemma small_deliver:
  "\<exists>s. deliver acme ''d-1'' ''pull_request_review'' small_result ((sample_env never)\<lparr>env_tenant := acme\<rparr>) (tx_begin env sample_db) =
      (Inr (), s) \<and> length (t_reviews (tx_tabs s)) = 1"
proof (rule small_marshal)
  fix b assume b: "marshal_event (event_new (env_uuid (sample_env never) (Suc (Suc (Suc (Suc 0))))) acme ReviewSubmitted ''R'' zero_time
    (reviewPayload small_rv)) = Some b"
  have q: "quiet ((sample_env never)\<lparr>env_tenant := acme\<rparr>)" by simp
  show ?thesis
    by (simp add: deliver_def markDelivery_def persist_def small_defs ensureWorkItem_def tx_exec_quiet [OF q] eff_defs tx_fresh_def
        tx_nextval_def stmt_defs Let_def tx_begin_def sample_db_def no_tables_def item_row_def item_row_ok_def review_row_ok_def
        insert_new_def upsert_def find_row_Cons resolveContributor_def insertReview_def emit_def enqueueOutbox_def
        hash_text small_texts small_env b [unfolded small_rv_def])
qed

lemma small_run:
  obtains db' where "process Normalize (sample_env never) False small_msg sample_db = (Inr (), db')" "length (t_reviews (db_tabs db')) = 1"
proof -
  obtain s where s: "deliver acme ''d-1'' ''pull_request_review'' small_result ((sample_env never)\<lparr>env_tenant := acme\<rparr>)
      (tx_begin (sample_env never) sample_db) = (Inr (), s)" "length (t_reviews (tx_tabs s)) = 1"
    using small_deliver by blast
  have "delivery_of small_msg = ''d-1''" "event_of small_msg = ''pull_request_review''" by (simp_all add: small_msg_def)
  moreover have "target small_msg sample_db = Some (small_result, acme)"
    using small_normalized normalize_msg_env [of "sample_env never" small_msg undefined]
    by (simp add: target_def small_defs result_empty_def sample_db_def)
  ultimately show thesis
    using s that [of "sample_db\<lparr>db_tabs := tx_tabs s, db_seq := tx_seq s\<rparr>"] run_target_Some [of small_msg sample_db small_result acme "sample_env never" False]
    by (simp add: WithTenant_def small_env)
qed

theorem references_resolve_witness:
  "\<exists>s v. platform_reach s \<and> t_reviews (db_tabs (pf_db s)) = [v] \<and>
     (\<exists>w \<in> set (t_items (db_tabs (pf_db s))). w_id w = v_work_item v)"
proof (rule small_run)
  fix db' assume r: "process Normalize (sample_env never) False small_msg sample_db = (Inr (), db')" "length (t_reviews (db_tabs db')) = 1"
  let ?s = "\<lparr>pf_db = sample_db, pf_log = [], pf_done = []\<rparr>"
  let ?s' = "?s\<lparr>pf_db := db', pf_done := pf_done ?s @ [small_msg]\<rparr>"
  have "platform_reach ?s" by (rule platform_reach.start) (simp add: sample_db_def)
  moreover have "platform_step ?s ?s'"
    using platform_step.attempt [of "sample_env never" False small_msg ?s "Inr ()" db'] r(1) by simp
  ultimately have reach: "platform_reach ?s'" by (rule platform_reach.step)
  from r(2) obtain v where v: "t_reviews (db_tabs db') = [v]" by (auto simp: length_Suc_conv)
  with references_resolve [OF reach, THEN conjunct1] have "\<exists>w \<in> set (t_items (db_tabs (pf_db ?s'))). w_id w = v_work_item v"
    by auto
  with reach v show ?thesis by (intro exI [of _ ?s'] exI [of _ v]) simp
qed

end
