(* ===== verification/Spec2Isabelle.thy ===== *)
theory Spec2Isabelle
  imports RateLimit Mutexes Loops Platform Capability Ghcheck RelayLoop JsonFuel VisibleOrder LateEvents References
begin

text \<open>
  Verification of dev-intel-platform, the Go services that turn GitHub webhooks into a
  tenant-scoped write model and a topic of canonical events.

  \<^bold>\<open>The program.\<close> The webhook gateway checks the signature of a request and enqueues its bytes on
  the raw topic. Two consumers read that topic: the archiver files the bytes in an object store,
  and the enrichment stage (connector-github) adds what the GitHub API knows of a pull request
  and writes the enriched topic. The normalizer reads the enriched topic, turns a payload into
  work items, reviews, check runs and comments, and writes them, the delivery id and one outbox
  row per canonical event in one Postgres transaction under the tenant's row-level security; a
  payload it cannot read goes to the dead-letter topic. The outbox relay publishes the rows in
  the order of their ids on the canonical topic. cmd/ghcheck is a smoke tool over the same API
  client.

  \<^bold>\<open>Libraries of Go.\<close> Prelude: 64-bit integers, headers as maps, errors as sums. GoText, GoTime,
  GoUtf8: strings, RFC 3339 instants, well-formed UTF-8. GoJson, GoJsonFacts, GoJsonEncode,
  GoJsonCodec, GoJsonStruct: encoding/json from bytes to struct fields and back, case folding,
  duplicate names, null and compaction included. GoCrypto: SHA-256, HMAC and base64, computed.
  JsonFuel: the fuel of the parser, twice the length of the document plus two, is enough for every
  document, accepted or not.

  \<^bold>\<open>Components.\<close>
  \<^item> Events and Connector (libs/go/events, libs/go/connector): the canonical event with its JSON,
    the topics and headers, and what a source must return (the locale \<open>source\<close>).
  \<^item> GitHubPayloads, PayloadTables and GitHubSource (libs/go/connector/github): a record per
    payload struct and a function per event type; \<open>Normalize\<close> interprets \<open>source\<close>.
  \<^item> Kafka (libs/go/kafka), ObjectStore (libs/go/objectstore), Config (libs/go/config, env.go) and
    Observability (libs/go/observability): the wrappers over libraries that are parameters.
  \<^item> RateLimit, AppAuth, TokenLock, Mutexes, ApiClient and Capability (libs/go/githubapp): the
    budget, the app JWT and the token source: sequentially (AppAuth), as a step relation of
    concurrent callers with one lock per installation (TokenLock), and with the mutexes of
    \<open>installLock\<close> as objects in a map (Mutexes); the REST and GraphQL calls; the capability upsert.
  \<^item> Tables, WriteModel and Tenancy (db/migrations, libs/go/tenancy): tables as lists with
    upserts over keys, the statements under row-level security, and \<open>WithTenant\<close> as a
    state-passing computation with faults, concurrent commits and the three ends of a commit.
  \<^item> Normalizer (services/normalizer), with NormalizerFacts and NormalizerProps; Enricher
    (services/connector-github), with EnricherFacts and EnricherProps; Gateway and Archiver.
  \<^item> OutboxRelay (services/outbox-relay): a pass of the relay as one function; RelayLoop, its polling
    loop up to a sleep while rows arrive; Relays and VisibleOrder, the pass in its steps, for
    several relays while transactions overlap. The ends of transactions and the ids they draw are
    history in the state of Relays. \<open>relay_step\<close> of OutboxRelay is the part without overlap
    (\<open>relay_is_fleet\<close>).
  \<^item> Backoff and Consumer: the loop the three consumers share, as a step relation, instantiated in
    Consumers; Loops, the same loops as functions of what each turn meets, with the sleep,
    the cancellation and the panic of a shift. Services: the five \<open>main\<close> functions up to their
    loops. Ghcheck: the tool.

  \<^bold>\<open>What is shown.\<close>
  \<^item> One transaction: \<open>process\<close> is atomic, idempotent for messages with a delivery id (the code
    does not tell repetitions of a message without one), confined to one tenant, and stages
    exactly the events of its result (NormalizerProps, by the locales \<open>frame\<close> and
    \<open>statement_frame\<close>).
  \<^item> The write model against its contract: Ledger states the tables as facts by natural key, with
    no surrogate ids, clock or statements, and \<open>process_refines\<close> is the simulation, by a Hoare
    logic of computations (\<open>triple\<close>).
  \<^item> The write side as a system: Platform interleaves normalizer runs and relay passes;
    \<open>platform_exact\<close> says what the canonical topic holds in every reachable state, and
    \<open>replay_rebuilds\<close> that a replay of the messages rebuilds the ledger. References: the ids in
    reviews and links lead to rows of their own tenant, which no foreign key of the schema asks.
  \<^item> The relay, with any number of relays and overlapping transactions: nothing is stamped that was
    not sent, nothing is sent twice unless an answer or a commit was lost (\<open>fleet_exact\<close>). One
    relay keeps the order within a transaction (\<open>fleet_order\<close>) and sends nothing ahead of a row
    with a smaller id that was visible before the pass (\<open>visible_in_order\<close>); the order across
    overlapping transactions, and with two relays within one, is not kept (\<open>events_overtake\<close>).
    It comes to its sleep once rows stop arriving, and need not before (RelayLoop).
  \<^item> The order of arrival: the last delivery processed decides what a work item's row says,
    whenever its event happened (LateEvents).
  \<^item> The pipeline: what a webhook sent twice does, what the archive holds, where the trace goes,
    and how the services are wired (Pipeline, Observability, Services).
  \<^item> The consumers: every committed message that did not fail had its effect, and a message that
    failed transiently can be lost (Consumers, Consumer). The executable loops are runs of that
    relation, never panic and return exactly when cancelled (Loops).
  \<^item> The edges: the signature, the payload functions, the backoff on 64-bit words, the budget under
    any sequence of callers, the tokens under any interleaving, down to the map of the mutexes, the
    API calls.

  \<^bold>\<open>What is assumed of the outside.\<close> Postgres: statements are atomic, a transaction sees its own
  writes and what others committed, a rollback leaves the tables but not the sequence, row-level
  security is as documented; a failed commit may have taken effect. kafka-go: a fetch returns the
  next message, a commit covers all before it, a rejoining member starts at the committed offset.
  S3: \<open>s3_put_law\<close>. OpenTelemetry: \<open>w3c_law\<close>. Faults are arguments: any statement, write, request
  or commit can fail. \<open>platform_step\<close> runs transactions one at a time (\<open>quiet\<close>), as one normalizer
  does, while \<open>WithTenant\<close> itself takes concurrent commits; outbox ids of overlapping
  transactions may become visible out of order, which \<open>platform_step\<close> leaves out and \<open>fleet_step\<close>
  of Relays has.

  \<^bold>\<open>Bounds.\<close> The parser's fuel is derived from the document; documents nested deeper than 10000
  levels are refused, as Go does; the bodies of requests and answers are cut at the limits the
  code sets. The relay's loop is \<open>while_option\<close>, so not returning is a value: it is shown when the
  loop returns and when it does not.

  \<^bold>\<open>Not modelled.\<close> The text of log records and of most error messages, span attributes, timers
  and signals except where they decide what happens next, the wording of what ghcheck prints, the
  parsing of its flags. PEM, PKCS and \<open>time.ParseDuration\<close> are parameters. Lower-casing folds ASCII
  only. The remaining lines of the Go files are imports, comments and logging; migrations beyond
  the written tables, deployment files and the integration test hold no code of the services.
\<close>

end
